(* ===== verification/Kernel_Prelude.thy ===== *)
theory Kernel_Prelude
  imports Main "HOL-Library.Word" "HOL-Library.Monad_Syntax"
begin

text \<open>
  Shared material of the development: the machine integer types of the kernel (i386, so
  \<open>size_t\<close>, \<open>uintptr_t\<close> and pointers are 32 bits wide), the collections of rewrite rules the
  component theories add to, and generic lemmas on words, lists and options.

  Conventions used by every theory:
  \<^item> a function that can reach \<^verbatim>\<open>panic()\<close> or \<^verbatim>\<open>HALT_FOREVER\<close>, or that indexes an array, returns an
    \<open>option\<close>; \<^term>\<open>None\<close> means that control never comes back (the machine halted, or the C
    program left the bounds of the object it indexes). Sequencing is the do-notation of
    \<^verbatim>\<open>HOL-Library.Monad_Syntax\<close>;
  \<^item> a C error code is an ordinary value of a \<^theory_text>\<open>datatype\<close> with the constructors of the C
    enumeration, returned beside the new state;
  \<^item> a C out-parameter is a further component of the result; a caller that passes \<^verbatim>\<open>NULL\<close> ignores it;
  \<^item> \<^verbatim>\<open>uint32_t\<close> values are \<open>32 word\<close>, so that arithmetic wraps as it does in C.
    A \<^verbatim>\<open>uint64_t\<close> temporary that only widens a sum of two 32-bit values is a \<open>nat\<close>.
\<close>

unbundle bit_operations_syntax

type_synonym u8 = "8 word"
type_synonym u16 = "16 word"
type_synonym u32 = "32 word"
type_synonym u64 = "64 word"

named_theorems unat_page \<open>page and frame arithmetic as natural numbers\<close>
named_theorems kinv \<open>operations keep the invariant of their component\<close>


section \<open>Options\<close>

lemma bind_eq_Some_iff:
  "Option.bind m f = Some y \<longleftrightarrow> (\<exists>x. m = Some x \<and> f x = Some y)"
  by (cases m) auto

lemma bind_cong_Some:
  "m = Some x \<Longrightarrow> Option.bind m f = f x"
  by simp

lemma case_prod_bind_Some:
  "m = Some (a, b) \<Longrightarrow> Option.bind m (\<lambda>(x, y). f x y) = f a b"
  by simp


section \<open>Words\<close>

lemma nat_mod_0E:
  assumes "(n :: nat) mod d = 0"
  obtains q where "n = d * q"
  using assms by (elim mod_0_imp_dvd [THEN dvdE])

lemma unat_u32_less [simp]: "unat (w :: u32) < 4294967296"
  using unsigned_less [of w, where ?'a = nat] by simp

lemma unat_u8_less [simp]: "unat (w :: u8) < 256"
  using unsigned_less [of w, where ?'a = nat] by simp

lemma u32_eq_iff: "(v :: u32) = w \<longleftrightarrow> unat v = unat w"
  by (rule word_unat_eq_iff)

lemma unat_of_nat_u32: "n < 4294967296 \<Longrightarrow> unat (of_nat n :: u32) = n"
  by (simp add: unsigned_of_nat take_bit_eq_mod)

lemma unat_add_u32: "unat a + unat b < 4294967296 \<Longrightarrow> unat (a + b :: u32) = unat a + unat b"
  by (simp add: unat_word_ariths)

lemma unat_sub_u32: "b \<le> a \<Longrightarrow> unat (a - b :: u32) = unat a - unat b"
  by (rule unat_sub)

lemma unat_mod_u32: "unat (a mod b :: u32) = unat a mod unat b"
  by (rule unat_mod_distrib)

lemma unat_div_u32: "unat (a div b :: u32) = unat a div unat b"
  by (rule unat_div_distrib)

text \<open>Shifts and masks by the page size, \<^verbatim>\<open>4096 = 1 << 12\<close>.\<close>

lemma unat_drop_bit_u32 [unat_page]: "unat (drop_bit n (a :: u32)) = unat a div 2 ^ n"
  by (simp only: unat_drop_bit_eq) (simp only: drop_bit_eq_div)

lemma unat_and_mask_u32: "unat ((a :: u32) AND mask n) = unat a mod 2 ^ n"
proof -
  have "unat (take_bit n a) = take_bit n (unat a)"
    by (simp add: unsigned_take_bit_eq)
  then show ?thesis
    by (simp add: take_bit_eq_mask [symmetric] take_bit_eq_mod)
qed

lemma unat_and_FFF [unat_page]: "unat ((a :: u32) AND 0xFFF) = unat a mod 4096"
  using unat_and_mask_u32 [of a 12] by (simp add: mask_eq_exp_minus_1)

lemma unat_and_3FF [unat_page]: "unat ((a :: u32) AND 0x3FF) = unat a mod 1024"
  using unat_and_mask_u32 [of a 10] by (simp add: mask_eq_exp_minus_1)

lemma unat_and_7 [unat_page]: "unat ((a :: u32) AND 7) = unat a mod 8"
  using unat_and_mask_u32 [of a 3] by (simp add: mask_eq_exp_minus_1)

lemma unat_push12 [unat_page]:
  "unat (f :: u32) < 1048576 \<Longrightarrow> unat (push_bit 12 f) = unat f * 4096"
  by (simp add: push_bit_eq_mult unat_word_ariths)

lemma page_mask_eq: "(0xFFFFF000 :: u32) = push_bit 12 (mask 20)"
  by (simp add: mask_eq_exp_minus_1 push_bit_eq_mult)

lemma and_not_FFF: "(a :: u32) AND 0xFFFFF000 = push_bit 12 (drop_bit 12 a)"
  unfolding page_mask_eq
  by (rule bit_word_eqI) (auto simp: bit_simps)

lemma unat_and_page [unat_page]: "unat ((a :: u32) AND 0xFFFFF000) = unat a div 4096 * 4096"
proof -
  have "unat (drop_bit 12 a) < 1048576"
    using unat_u32_less [of a] by (simp add: unat_drop_bit_u32 less_mult_imp_div_less)
  then show ?thesis
    by (simp add: and_not_FFF unat_push12 unat_drop_bit_u32)
qed

lemma not_FFF_word: "NOT (0xFFF :: u32) = 0xFFFFF000"
  by simp

lemma and_FFF_mod: "(a :: u32) AND 0xFFF = a mod 4096"
  by (simp add: u32_eq_iff unat_page unat_mod_u32)

lemma drop_push12 [simp]:
  "unat (f :: u32) < 1048576 \<Longrightarrow> drop_bit 12 (push_bit 12 f) = f"
  by (simp add: u32_eq_iff unat_page)

lemma push_drop12:
  "(a :: u32) mod 4096 = 0 \<Longrightarrow> push_bit 12 (drop_bit 12 a) = a"
proof -
  assume "a mod 4096 = 0"
  then have "unat a mod 4096 = 0"
    by (metis unat_0 and_FFF_mod unat_and_FFF)
  then have "unat a div 4096 * 4096 = unat a"
    by auto
  then show ?thesis
    by (simp add: u32_eq_iff unat_and_page and_not_FFF [symmetric])
qed


section \<open>Lists\<close>

lemma nth_map_upt_eq: "i < n \<Longrightarrow> map f [0..<n] ! i = f i"
  by simp

lemma list_update_id_nth: "i < length xs \<Longrightarrow> xs[i := xs ! i] = xs"
  by simp

lemma unat_ucast_64 [simp]: "unat (ucast (a :: u32) :: u64) = unat a"
proof -
  have "unat a < 2 ^ 64" using unsigned_less [of a] by (rule less_le_trans) simp
  then show ?thesis by (simp add: unsigned_ucast_eq take_bit_nat_eq_self)
qed

lemma ucast_le_64: "(ucast (a :: u32) :: u64) \<le> ucast b \<longleftrightarrow> a \<le> b"
  by (simp add: word_le_nat_alt)

lemma unat_plus_nat: "unat v + i < 4294967296 \<Longrightarrow> unat (v + of_nat i :: u32) = unat v + i"
  using unat_of_nat_u32 [of i] unat_add_u32 [of v "of_nat i"] by simp

lemma page_div: "(n :: nat) div 4096 * 4096 div 4194304 = n div 4194304"
  using div_mult2_eq [of n 4096 1024] div_mult_mult2 [of 4096 "n div 4096" 1024] by simp

lemma page_split: "v = (v AND 0xFFFFF000) + (v AND 0xFFF)" for v :: u32
proof -
  have "unat v div 4096 * 4096 + unat v mod 4096 < 4294967296" by simp
  then show ?thesis by (simp only: u32_eq_iff) (simp only: unat_add_u32 unat_page div_mult_mod_eq)
qed

end
