(* ===== verification/Phys_Memory.thy ===== *)
theory Phys_Memory
  imports Kernel_Prelude
begin

text \<open>
  The machine below the kernel: byte-addressed physical memory, the registers the C code reads and
  writes with inline assembly, and the symbols the linker script exports. The loops of
  \<^verbatim>\<open>kmain.h\<close> over memory (\<^verbatim>\<open>kmemcpy\<close>, \<^verbatim>\<open>kmemcmp\<close>) and the zeroing loops of the memory managers are
  recursive functions over it, with closed forms.

  Physical memory is reached by the kernel through the identity map (before the higher-half remap)
  or through the physical window at \<^verbatim>\<open>PHYS_WINDOW_BASE\<close>. A dereference of
  \<^verbatim>\<open>PHYS_TO_VIRT(p)\<close> is modelled as an access to physical address \<open>p\<close>, preceded by the check for
  overflow that \<^verbatim>\<open>phys_to_virt\<close> makes.
\<close>

section \<open>State of the machine\<close>

type_synonym pmem = "u32 \<Rightarrow> u8"

record machine =
  mem :: pmem
  cr3 :: u32
  cs_reg :: u16
  kernel_start :: u32 \<comment> \<open>address of the linker symbol \<^verbatim>\<open>__kernel_start\<close>\<close>
  kernel_end :: u32 \<comment> \<open>address of the linker symbol \<^verbatim>\<open>__kernel_end\<close>\<close>

datatype cpl = CPL_KERNEL | CPL_UNUSED1 | CPL_UNUSED2 | CPL_USER

definition get_current_cpl :: "'a machine_scheme \<Rightarrow> cpl" where
  "get_current_cpl s =
     (let c = cs_reg s AND 3
      in if c = 0 then CPL_KERNEL else if c = 1 then CPL_UNUSED1
         else if c = 2 then CPL_UNUSED2 else CPL_USER)"


section \<open>The layout of the address space\<close>

definition KERNEL_VIRTUAL_BASE :: u32 where "KERNEL_VIRTUAL_BASE = 0xC0000000"
definition KVA_REGION_BASE :: u32 where "KVA_REGION_BASE = KERNEL_VIRTUAL_BASE + 0x01000000"
definition PHYS_WINDOW_BASE :: u32 where "PHYS_WINDOW_BASE = 0xD0000000"
definition OPENFILE_VIRTUAL_BASE :: u32 where "OPENFILE_VIRTUAL_BASE = 0xE4000000"
definition FD_VIRTUAL_BASE :: u32 where "FD_VIRTUAL_BASE = 0xE8000000"
definition FTARGET_VIRTUAL_BASE :: u32 where "FTARGET_VIRTUAL_BASE = 0xEC000000"
definition VMA_VIRTUAL_BASE :: u32 where "VMA_VIRTUAL_BASE = 0xF0000000"
definition MMS_VIRTUAL_BASE :: u32 where "MMS_VIRTUAL_BASE = 0xF4000000"
definition STACK_VIRTUAL_BASE :: u32 where "STACK_VIRTUAL_BASE = 0xF7000000"
definition STACK_PAGE_SIZE :: u32 where "STACK_PAGE_SIZE = 16"

lemmas layout_defs =
  KERNEL_VIRTUAL_BASE_def KVA_REGION_BASE_def PHYS_WINDOW_BASE_def OPENFILE_VIRTUAL_BASE_def
  FD_VIRTUAL_BASE_def FTARGET_VIRTUAL_BASE_def VMA_VIRTUAL_BASE_def MMS_VIRTUAL_BASE_def
  STACK_VIRTUAL_BASE_def STACK_PAGE_SIZE_def

definition phys_to_virt :: "u32 \<Rightarrow> u32 option" where
  "phys_to_virt p =
     (if p + PHYS_WINDOW_BASE < p then None else Some (PHYS_WINDOW_BASE + p))"

definition virt_to_phys :: "u32 \<Rightarrow> u32 option" where
  "virt_to_phys v =
     (if v - PHYS_WINDOW_BASE > PHYS_WINDOW_BASE then None else Some (v - PHYS_WINDOW_BASE))"

definition is_user_vaddr :: "u32 \<Rightarrow> bool" where
  "is_user_vaddr v \<longleftrightarrow> v < KERNEL_VIRTUAL_BASE"

definition is_kernel_vaddr :: "u32 \<Rightarrow> bool" where
  "is_kernel_vaddr v \<longleftrightarrow> v \<ge> KERNEL_VIRTUAL_BASE"

text \<open>The window translates exactly the physical addresses below 768 MiB.\<close>

definition in_window :: "u32 \<Rightarrow> bool" where
  "in_window p \<longleftrightarrow> unat p < 0x30000000"

lemma phys_to_virt_iff: "phys_to_virt p = (if in_window p then Some (PHYS_WINDOW_BASE + p) else None)"
proof -
  have "p + 0xD0000000 < p \<longleftrightarrow> \<not> unat p < 0x30000000"
  proof (cases "unat p < 0x30000000")
    case True
    then have "unat (p + 0xD0000000) = unat p + 0xD0000000" by (subst unat_add_u32) simp_all
    with True show ?thesis by (simp add: word_less_nat_alt)
  next
    case False
    then have "unat (p + 0xD0000000) = unat p + 0xD0000000 - 0x100000000"
      using unat_u32_less [of p] by (simp add: unat_word_ariths le_mod_geq less_imp_diff_less)
    with False show ?thesis using unat_u32_less [of p] by (simp add: word_less_nat_alt)
  qed
  then show ?thesis
    by (simp add: phys_to_virt_def in_window_def PHYS_WINDOW_BASE_def)
qed

lemma phys_to_virt_in_window: "in_window p \<Longrightarrow> phys_to_virt p = Some (PHYS_WINDOW_BASE + p)"
  by (simp add: phys_to_virt_iff)

lemma virt_to_phys_window:
  assumes "in_window p"
  shows "virt_to_phys (PHYS_WINDOW_BASE + p) = Some p"
  using assms by (auto simp: virt_to_phys_def in_window_def PHYS_WINDOW_BASE_def word_less_nat_alt)


section \<open>Words in byte memory\<close>

definition ld32 :: "pmem \<Rightarrow> u32 \<Rightarrow> u32" where
  "ld32 m a =
     ucast (m a) OR push_bit 8 (ucast (m (a + 1)))
     OR push_bit 16 (ucast (m (a + 2))) OR push_bit 24 (ucast (m (a + 3)))"

definition st32 :: "pmem \<Rightarrow> u32 \<Rightarrow> u32 \<Rightarrow> pmem" where
  "st32 m a v =
     m(a := ucast v, a + 1 := ucast (drop_bit 8 v),
       a + 2 := ucast (drop_bit 16 v), a + 3 := ucast (drop_bit 24 v))"

lemma word_of_bytes:
  "ucast (ucast v :: u8) OR push_bit 8 (ucast (ucast (drop_bit 8 v) :: u8))
   OR push_bit 16 (ucast (ucast (drop_bit 16 v) :: u8))
   OR push_bit 24 (ucast (ucast (drop_bit 24 v) :: u8)) = (v :: u32)"
proof -
  have b: "ucast (ucast (drop_bit k v) :: u8) = take_bit 8 (drop_bit k v)" for k
    by (rule bit_word_eqI) (auto simp: bit_simps)
  have b0: "ucast (ucast v :: u8) = take_bit 8 v" using b [of 0] by simp
  have join: "take_bit n x OR push_bit n (take_bit 8 (drop_bit n x)) = take_bit (n + 8) x"
    for n and x :: u32
    by (rule bit_word_eqI) (auto simp: bit_simps)
  show ?thesis
    unfolding b b0 using join [of 8 v] join [of 16 v] join [of 24 v]
    by (simp add: or.assoc [symmetric] take_bit_word_eq_self del: or.assoc)
qed

lemma ld32_st32_same [simp]: "ld32 (st32 m a v) a = v"
proof -
  have "(a + 1 \<noteq> a + 2) \<and> (a + 1 \<noteq> a + 3) \<and> (a + 2 \<noteq> a + 3) \<and> a \<noteq> a + 1 \<and> a \<noteq> a + 2 \<and> a \<noteq> a + 3"
    by simp
  then show ?thesis
    by (simp add: ld32_def st32_def word_of_bytes)
qed

text \<open>Dword-aligned addresses.\<close>

definition aligned4 :: "u32 \<Rightarrow> bool" where
  "aligned4 a \<longleftrightarrow> unat a mod 4 = 0"

lemma aligned4_offset_eq:
  assumes "aligned4 a" "aligned4 b" "i < 4" "j < 4" "a + of_nat i = b + of_nat j"
  shows "a = b \<and> i = j"
proof -
  have small: "unat x + k < 4294967296" if al: "aligned4 x" and k: "k < 4" for x :: u32 and k
  proof -
    obtain q where q: "unat x = 4 * q" using al unfolding aligned4_def by (rule nat_mod_0E)
    then have "q < 1073741824" using unat_u32_less [of x] by linarith
    with q k show ?thesis by linarith
  qed
  have "unat (a + of_nat i) = unat a + i"
    using small [OF assms(1,3)] assms(3) by (subst unat_add_u32) (simp_all add: unat_of_nat_u32)
  moreover have "unat (b + of_nat j) = unat b + j"
    using small [OF assms(2,4)] assms(4) by (subst unat_add_u32) (simp_all add: unat_of_nat_u32)
  ultimately have "unat a + i = unat b + j" using assms(5) by simp
  moreover obtain q where "unat a = 4 * q" using assms(1) unfolding aligned4_def by (rule nat_mod_0E)
  moreover obtain r where "unat b = 4 * r" using assms(2) unfolding aligned4_def by (rule nat_mod_0E)
  ultimately have "unat a = unat b \<and> i = j" using assms(3,4) by presburger
  then show ?thesis by (simp add: u32_eq_iff)
qed

lemma st32_byte_other:
  assumes "aligned4 a" "aligned4 b" "a \<noteq> b" "j < 4"
  shows "st32 m a v (b + of_nat j) = m (b + of_nat j)"
proof -
  have "b + of_nat j \<noteq> a + of_nat i" if "i < 4" for i
    using aligned4_offset_eq [of a b i j] assms that by metis
  from this [of 0] this [of 1] this [of 2] this [of 3]
  show ?thesis by (simp add: st32_def)
qed

lemma ld32_st32_other:
  assumes "aligned4 a" "aligned4 b" "a \<noteq> b"
  shows "ld32 (st32 m a v) b = ld32 m b"
  using st32_byte_other [OF assms, of 0 m v] st32_byte_other [OF assms, of 1 m v]
    st32_byte_other [OF assms, of 2 m v] st32_byte_other [OF assms, of 3 m v]
  by (simp add: ld32_def)


section \<open>Tables of dwords in a page\<close>

text \<open>\<open>tbl p i\<close> is the address of element \<open>i\<close> of the array of dwords at \<open>p\<close>.\<close>

definition tbl :: "u32 \<Rightarrow> u32 \<Rightarrow> u32" where
  "tbl p i = p + 4 * i"

definition page_aligned :: "u32 \<Rightarrow> bool" where
  "page_aligned p \<longleftrightarrow> p AND 0xFFF = 0"

lemma page_aligned_unat: "page_aligned p \<longleftrightarrow> unat p mod 4096 = 0"
  by (simp add: page_aligned_def u32_eq_iff unat_page)

lemma page_aligned_mod: "page_aligned p \<longleftrightarrow> p mod 4096 = 0"
  by (simp add: page_aligned_def and_FFF_mod)

lemma page_alignedE:
  assumes "page_aligned p"
  obtains q where "unat p = 4096 * q" "q < 1048576"
proof -
  from assms obtain q where q: "unat p = 4096 * q"
    unfolding page_aligned_unat by (rule nat_mod_0E)
  moreover have "q < 1048576" using q unat_u32_less [of p] by linarith
  ultimately show thesis by (rule that)
qed

lemma unat_tbl:
  assumes "page_aligned p" "unat i < 1024"
  shows "unat (tbl p i) = unat p + 4 * unat i"
proof -
  obtain q where q: "unat p = 4096 * q" "q < 1048576" using assms(1) by (rule page_alignedE)
  have "unat (4 * i) = 4 * unat i" using assms(2) by (simp add: unat_word_ariths)
  with q assms(2) show ?thesis
    unfolding tbl_def by (subst unat_add_u32) simp_all
qed

lemma aligned4_tbl: "page_aligned p \<Longrightarrow> unat i < 1024 \<Longrightarrow> aligned4 (tbl p i)"
proof -
  assume *: "page_aligned p" "unat i < 1024"
  obtain q where q: "unat p = 4096 * q" "q < 1048576" using *(1) by (rule page_alignedE)
  have "unat (tbl p i) = 4 * (1024 * q + unat i)" using unat_tbl [OF *] q by simp
  then show ?thesis unfolding aligned4_def by simp
qed

lemma tbl_eq_iff:
  assumes "page_aligned p" "page_aligned q" "unat i < 1024" "unat j < 1024"
  shows "tbl p i = tbl q j \<longleftrightarrow> p = q \<and> i = j"
proof
  assume "tbl p i = tbl q j"
  then have eq: "unat p + 4 * unat i = unat q + 4 * unat j"
    using unat_tbl [OF assms(1,3)] unat_tbl [OF assms(2,4)] by simp
  obtain a where a: "unat p = 4096 * a" using assms(1) by (rule page_alignedE)
  obtain b where b: "unat q = 4096 * b" using assms(2) by (rule page_alignedE)
  from eq a b have "1024 * a + unat i = 1024 * b + unat j" by simp
  then have "(1024 * a + unat i) div 1024 = (1024 * b + unat j) div 1024" by simp
  with assms(3,4) have "a = b" by simp
  with eq a b have "unat p = unat q \<and> unat i = unat j" by simp
  then show "p = q \<and> i = j" by (simp add: u32_eq_iff)
qed simp

lemma ld32_st32_tbl:
  assumes "page_aligned p" "page_aligned q" "unat i < 1024" "unat j < 1024"
  shows "ld32 (st32 m (tbl p i) v) (tbl q j) = (if p = q \<and> i = j then v else ld32 m (tbl q j))"
  using assms tbl_eq_iff [OF assms]
  by (auto simp: ld32_st32_other aligned4_tbl)


section \<open>Loops over memory\<close>

text \<open>\<^verbatim>\<open>for (i = 0; i < n; i++) ptr[i] = 0\<close> over bytes and over dwords.\<close>

primrec zero_bytes :: "nat \<Rightarrow> u32 \<Rightarrow> pmem \<Rightarrow> pmem" where
  "zero_bytes 0 a m = m"
| "zero_bytes (Suc n) a m = (zero_bytes n a m)(a + of_nat n := 0)"

primrec zero_words :: "nat \<Rightarrow> u32 \<Rightarrow> pmem \<Rightarrow> pmem" where
  "zero_words 0 a m = m"
| "zero_words (Suc n) a m = st32 (zero_words n a m) (a + 4 * of_nat n) 0"

text \<open>\<^verbatim>\<open>kmemcpy\<close> copies upwards, one byte at a time.\<close>

primrec kmemcpy :: "u32 \<Rightarrow> u32 \<Rightarrow> nat \<Rightarrow> pmem \<Rightarrow> pmem" where
  "kmemcpy d s 0 m = m"
| "kmemcpy d s (Suc n) m =
     (let m' = kmemcpy d s n m in m'(d + of_nat n := m' (s + of_nat n)))"

text \<open>A copy whose source is a buffer of the kernel image, given as the list of its bytes.\<close>

primrec copy_bytes :: "u32 \<Rightarrow> u8 list \<Rightarrow> pmem \<Rightarrow> pmem" where
  "copy_bytes d [] m = m"
| "copy_bytes d (b # bs) m = copy_bytes (d + 1) bs (m(d := b))"

text \<open>\<^verbatim>\<open>kmemcmp\<close>: 1 at the first difference, 0 when the first \<open>n\<close> bytes agree.\<close>

definition kmemcmp :: "pmem \<Rightarrow> u32 \<Rightarrow> u32 \<Rightarrow> nat \<Rightarrow> int" where
  "kmemcmp m a b n = (if \<exists>i \<in> set [0..<n]. m (a + of_nat i) \<noteq> m (b + of_nat i) then 1 else 0)"

lemma offset_eq_iff:
  "n < 4294967296 \<Longrightarrow> x = a + of_nat n \<longleftrightarrow> unat (x - a :: u32) = n"
proof
  assume n: "n < 4294967296"
  show "unat (x - a) = n" if "x = a + of_nat n" using that n by (simp add: unat_of_nat_u32)
  show "x = a + of_nat n" if "unat (x - a) = n" using that by (metis add.commute diff_add_cancel of_nat_unat ucast_id)
qed

lemma zero_bytes_apply:
  "n \<le> 4294967296 \<Longrightarrow> zero_bytes n a m x = (if unat (x - a) < n then 0 else m x)"
proof (induction n)
  case (Suc n)
  then have "x = a + of_nat n \<longleftrightarrow> unat (x - a) = n" by (simp add: offset_eq_iff)
  with Suc show ?case by (auto simp: less_Suc_eq)
qed simp

lemma st32_apply:
  "st32 m a v x =
     (if x = a + 3 then ucast (drop_bit 24 v) else if x = a + 2 then ucast (drop_bit 16 v)
      else if x = a + 1 then ucast (drop_bit 8 v) else if x = a then ucast v else m x)"
  by (simp add: st32_def)

lemma zero_words_apply:
  "n \<le> 1073741824 \<Longrightarrow> zero_words n a m x = (if unat (x - a) < 4 * n then 0 else m x)"
proof (induction n)
  case (Suc n)
  have off: "x = (a + 4 * of_nat n) + of_nat k \<longleftrightarrow> unat (x - a) = 4 * n + k" if "k < 4" for k
    using offset_eq_iff [of "4 * n + k" x a] that Suc.prems by (simp add: add.assoc)
  let ?b = "a + 4 * of_nat n"
  have "x = ?b \<longleftrightarrow> unat (x - a) = 4 * n" "x = ?b + 1 \<longleftrightarrow> unat (x - a) = 4 * n + 1"
    "x = ?b + 2 \<longleftrightarrow> unat (x - a) = 4 * n + 2" "x = ?b + 3 \<longleftrightarrow> unat (x - a) = 4 * n + 3"
    using off [of 0] off [of 1] off [of 2] off [of 3] by simp_all
  then have "zero_words (Suc n) a m x =
      (if 4 * n \<le> unat (x - a) \<and> unat (x - a) < 4 * n + 4 then 0 else zero_words n a m x)"
    unfolding zero_words.simps st32_apply by (simp split del: if_split) (simp; linarith)
  with Suc show ?case by simp
qed simp

lemma kmemcpy_apply:
  assumes "n \<le> 4294967296" and apart: "\<And>i. i < n \<Longrightarrow> \<not> unat (s + of_nat i - d) < n"
  shows "kmemcpy d s n m x = (if unat (x - d) < n then m (s + (x - d)) else m x)"
  using assms
proof (induction n arbitrary: x)
  case (Suc n)
  have ap: "\<not> unat (s + of_nat i - d) < n" if "i < Suc n" for i
    using Suc.prems(2) [OF that] by simp
  have IH: "kmemcpy d s n m y = (if unat (y - d) < n then m (s + (y - d)) else m y)" for y
    by (rule Suc.IH) (use Suc.prems(1) ap in auto)
  have "x = d + of_nat n \<longleftrightarrow> unat (x - d) = n" using Suc.prems(1) by (simp add: offset_eq_iff)
  with ap [of n] show ?case by (auto simp: IH Let_def less_Suc_eq)
qed simp

lemma copy_bytes_apply:
  "length bs \<le> 4294967296 \<Longrightarrow>
   copy_bytes d bs m x = (if unat (x - d) < length bs then bs ! unat (x - d) else m x)"
proof (induction bs arbitrary: d m)
  case (Cons b bs)
  show ?case
  proof (cases "x = d")
    case True
    have "unat (x - (d + 1)) = 4294967295"
      using True by (simp add: unsigned_minus_1_eq_mask mask_eq_exp_minus_1)
    with True Cons show ?thesis by simp
  next
    case False
    then have "unat (x - d) \<noteq> 0" by (simp add: unat_eq_0)
    then have "unat (x - (d + 1)) = unat (x - d) - 1"
      by (metis diff_diff_add unat_eq_0 unat_minus_one unat_0)
    with False Cons \<open>unat (x - d) \<noteq> 0\<close> show ?thesis
      by (auto simp: nth_Cons' less_diff_conv)
  qed
qed simp

lemma ld32_zero:
  assumes "\<And>k. k < 4 \<Longrightarrow> m (a + of_nat k) = 0"
  shows "ld32 m a = 0"
  using assms [of 0] assms [of 1] assms [of 2] assms [of 3] by (simp add: ld32_def)

end
