(* ===== verification/Bootinfo.thy ===== *)
theory Bootinfo
  imports Phys_Memory
begin

text \<open>
  The boot information block that stage2 leaves at \<^verbatim>\<open>BOOTINFO_LINEAR_ADDR\<close> and its decoding
  (\<^verbatim>\<open>kernel/bootinfo.c\<close>, \<^verbatim>\<open>kernel/include/bootinfo.h\<close>). The packed block is the record
  \<open>bootinfo\<close>, its E820 payload a list of bytes; the kernel's globals extend the machine state. Reading
  the payload outside its array is \<^term>\<open>None\<close>; the lemmas show that the checks of
  \<^verbatim>\<open>decode_e820\<close> exclude it, and what the decoded totals are.
\<close>

section \<open>The block\<close>

definition BOOTINFO_LINEAR_ADDR :: u32 where "BOOTINFO_LINEAR_ADDR = 0x500"
definition BOOTINFO_SIZE_EXPECTED :: u16 where "BOOTINFO_SIZE_EXPECTED = 289"
definition SYNTHETIC_MEM_FALLBACK :: u32 where "SYNTHETIC_MEM_FALLBACK = 8192"
definition E820_DESC_MAX :: nat where "E820_DESC_MAX = 8"

text \<open>\<^verbatim>\<open>MAGIC_4CHAR\<close>, the bytes of \<^verbatim>\<open>"BTP1"\<close>.\<close>

definition MAGIC_4CHAR :: "u8 list" where "MAGIC_4CHAR = [0x42, 0x54, 0x50, 0x31]"

record bootinfo_e820 =
  entrySize :: u16
  entryCount :: u16
  totalLength :: u16
  e820_data :: "u8 list" \<comment> \<open>\<^verbatim>\<open>24 * E820_DESC_MAX\<close> bytes\<close>

record e820_desc =
  d_base :: u64
  d_length :: u64
  d_type :: u32
  d_attrs :: u32

record e820_stats =
  usableKiB :: u32
  topKiB :: u32

record bootinfo =
  signature :: "u8 list"
  versionMajor :: u8
  versionMinor :: u8
  totalSize :: u16
  stage2Flags :: u16
  checksum32 :: u32
  bootDrive :: u8
  mediaType :: u8
  fsSectorsPerCluster :: u8
  fsReservedSectors :: u16
  fsFatCount :: u8
  fsRootEntryCount :: u16
  fsTotalSectors16 :: u16
  fsMediaDescriptor :: u8
  fsSectorsPerFat :: u16
  fsSectorsPerTrack :: u16
  fsHeads :: u16
  bpbBytesPerSector :: u16
  bpbSectorsPerCluster :: u8
  bpbFatCount :: u8
  bpbReservedSectors :: u16
  bpbRootEntryCount :: u16
  bpbSectorsPerFat :: u16
  bpbSectorsPerTrack :: u16
  bpbHeads :: u16
  bpbTotalSectors :: u32
  fatStartLba :: u32
  rootDirStartLba :: u32
  dataStartLba :: u32
  stage2EntryCS :: u16
  kernelDestAddrLinear :: u32
  kernelSizeBytes :: u32
  kparamsLinearAddr :: u32
  kparamsSizeBytes :: u32
  e801MemorySize :: u32
  ah88MemorySize :: u32
  cmosMemorySize :: u32
  bi_e820 :: bootinfo_e820

datatype bootinfo_memory_method = USE_CMOS | USE_E820 | USE_E801 | USE_AH88

definition BI_EXTRACT_MEMORY_METHOD :: "u16 \<Rightarrow> bootinfo_memory_method" where
  "BI_EXTRACT_MEMORY_METHOD flags =
     (let m = flags AND 3
      in if m = 0 then USE_CMOS else if m = 1 then USE_E820
         else if m = 2 then USE_E801 else USE_AH88)"

text \<open>The globals \<^verbatim>\<open>bootinfo.c\<close> exports.\<close>

record boot = machine +
  g_avail_memory_kib :: u32
  g_memory_method :: bootinfo_memory_method
  g_e820_descs :: "e820_desc list" \<comment> \<open>the first \<^verbatim>\<open>g_e820_desc_count\<close> entries\<close>
  g_bootinfo_validated :: bool
  g_kernel_phys_address :: u32
  g_kernel_size_bytes :: u32
  g_kparams_phys_address :: u32
  g_kparams_size_bytes :: u32


section \<open>Decoding the E820 table\<close>

text \<open>Little-endian numbers, and the copy of \<^verbatim>\<open>n\<close> bytes at offset \<^verbatim>\<open>p\<close> of the payload.\<close>

primrec le_nat :: "u8 list \<Rightarrow> nat" where
  "le_nat [] = 0"
| "le_nat (b # bs) = unat b + 256 * le_nat bs"

definition read_slice :: "u8 list \<Rightarrow> nat \<Rightarrow> nat \<Rightarrow> u8 list option" where
  "read_slice bs p n = (if p + n \<le> length bs then Some (take n (drop p bs)) else None)"

text \<open>The descriptor starts zeroed; \<^verbatim>\<open>kmemcpy\<close> overwrites its first bytes.\<close>

definition desc_of_bytes :: "u8 list \<Rightarrow> e820_desc" where
  "desc_of_bytes bs =
     (let d = bs @ replicate (24 - length bs) 0
      in \<lparr>d_base = of_nat (le_nat (take 8 d)), d_length = of_nat (le_nat (take 8 (drop 8 d))),
          d_type = of_nat (le_nat (take 4 (drop 16 d))),
          d_attrs = of_nat (le_nat (take 4 (drop 20 d)))\<rparr>)"

text \<open>Totals over the usable descriptors: the end of one is clamped on overflow.\<close>

definition desc_usable :: "e820_desc \<Rightarrow> bool" where
  "desc_usable d \<longleftrightarrow> d_length d \<noteq> 0 \<and> d_type d = 1"

definition desc_end :: "e820_desc \<Rightarrow> u64" where
  "desc_end d = (let e = d_base d + d_length d in if e < d_base d then - 1 else e)"

definition add_desc :: "e820_desc \<Rightarrow> u64 \<times> u64 \<Rightarrow> u64 \<times> u64" where
  "add_desc d = (\<lambda>(usable, top).
     if desc_usable d
     then (usable + d_length d, if desc_end d > top then desc_end d else top)
     else (usable, top))"

text \<open>The loop, with the number of entries left, the offset \<^verbatim>\<open>p\<close>, the totals and \<^verbatim>\<open>descOut\<close>.\<close>

primrec e820_loop ::
  "nat \<Rightarrow> u8 list \<Rightarrow> nat \<Rightarrow> nat \<Rightarrow> nat \<Rightarrow> u64 \<times> u64 \<Rightarrow> e820_desc list \<Rightarrow>
   ((u64 \<times> u64) \<times> e820_desc list) option" where
  "e820_loop 0 bs esize cap p tot ds = Some (tot, ds)"
| "e820_loop (Suc n) bs esize cap p tot ds = do {
     raw \<leftarrow> read_slice bs p (if esize < 24 then esize else 24);
     let d = desc_of_bytes raw;
     e820_loop n bs esize cap (p + esize) (add_desc d tot)
       (if length ds < cap then ds @ [d] else ds) }"

text \<open>
  \<open>Some None\<close> is the result \<^verbatim>\<open>false\<close>, \<open>Some (Some (stats, descs))\<close> the result \<^verbatim>\<open>true\<close> with the two
  out-parameters.
\<close>

definition decode_e820 ::
  "bootinfo_e820 \<Rightarrow> nat \<Rightarrow> (e820_stats \<times> e820_desc list) option option" where
  "decode_e820 e cap =
     (if entrySize e < 20 then Some None
      else if entryCount e = 0 then Some None
      else if unat (totalLength e) > 24 * E820_DESC_MAX then Some None
      else if unat (entryCount e) * unat (entrySize e) > unat (totalLength e) then Some None
      else do {
        ((usable, top), ds) \<leftarrow>
          e820_loop (unat (entryCount e)) (e820_data e) (unat (entrySize e)) cap 0 (0, 0) [];
        Some (Some (\<lparr>usableKiB = ucast (drop_bit 10 usable), topKiB = ucast (drop_bit 10 top)\<rparr>, ds)) })"


section \<open>Initialisation\<close>

definition bootinfo_validate_prefix :: "bootinfo \<Rightarrow> unit option" where
  "bootinfo_validate_prefix bi =
     (if take 4 (signature bi) \<noteq> MAGIC_4CHAR then None
      else if totalSize bi \<noteq> BOOTINFO_SIZE_EXPECTED then None
      else Some ())"

definition bootinfo_getmem :: "bootinfo \<Rightarrow> 'a boot_scheme \<Rightarrow> 'a boot_scheme option" where
  "bootinfo_getmem bi s =
     (case BI_EXTRACT_MEMORY_METHOD (stage2Flags bi) of
        USE_CMOS \<Rightarrow>
          Some (s\<lparr>g_avail_memory_kib :=
                    (if cmosMemorySize bi \<le> 0x400 then SYNTHETIC_MEM_FALLBACK else cmosMemorySize bi),
                  g_memory_method := USE_CMOS\<rparr>)
      | USE_E820 \<Rightarrow> do {
          r \<leftarrow> decode_e820 (bi_e820 bi) E820_DESC_MAX;
          (st, ds) \<leftarrow> r;
          Some (s\<lparr>g_e820_descs := ds, g_avail_memory_kib := topKiB st, g_memory_method := USE_E820\<rparr>) }
      | USE_E801 \<Rightarrow> Some (s\<lparr>g_avail_memory_kib := e801MemorySize bi, g_memory_method := USE_E801\<rparr>)
      | USE_AH88 \<Rightarrow> Some (s\<lparr>g_avail_memory_kib := ah88MemorySize bi, g_memory_method := USE_AH88\<rparr>))"

definition bootinfo_getkmetadata :: "bootinfo \<Rightarrow> 'a boot_scheme \<Rightarrow> 'a boot_scheme" where
  "bootinfo_getkmetadata bi s =
     s\<lparr>g_kernel_phys_address := kernelDestAddrLinear bi, g_kernel_size_bytes := kernelSizeBytes bi,
       g_kparams_phys_address := kparamsLinearAddr bi, g_kparams_size_bytes := kparamsSizeBytes bi\<rparr>"

definition bootinfo_init :: "bootinfo \<Rightarrow> 'a boot_scheme \<Rightarrow> 'a boot_scheme option" where
  "bootinfo_init bi s = do {
     bootinfo_validate_prefix bi;
     s \<leftarrow> bootinfo_getmem bi s;
     let s = bootinfo_getkmetadata bi s;
     Some (s\<lparr>g_bootinfo_validated := True\<rparr>) }"


section \<open>The table is read inside its bounds, and its totals\<close>

text \<open>The descriptors of a table, read without the loop: entry \<open>i\<close> starts at \<open>i * esize\<close>.\<close>

definition table_desc :: "u8 list \<Rightarrow> nat \<Rightarrow> nat \<Rightarrow> e820_desc" where
  "table_desc bs esize p = desc_of_bytes (take (min esize 24) (drop p bs))"

definition table_descs :: "u8 list \<Rightarrow> nat \<Rightarrow> nat \<Rightarrow> nat \<Rightarrow> e820_desc list" where
  "table_descs bs esize p n = map (\<lambda>i. table_desc bs esize (p + i * esize)) [0..<n]"

lemma table_descs_Suc:
  "table_descs bs esize p (Suc n) = table_desc bs esize p # table_descs bs esize (p + esize) n"
  by (simp add: table_descs_def upt_conv_Cons map_Suc_upt [symmetric] add.assoc del: upt_Suc)

lemma e820_loop_eq:
  "p + n * esize \<le> length bs \<Longrightarrow>
   e820_loop n bs esize cap p tot ds =
     Some (fold add_desc (table_descs bs esize p n) tot,
           ds @ take (cap - length ds) (table_descs bs esize p n))"
proof (induction n arbitrary: p tot ds)
  case 0
  then show ?case by (simp add: table_descs_def)
next
  case (Suc n)
  have "read_slice bs p (if esize < 24 then esize else 24) = Some (take (min esize 24) (drop p bs))"
    using Suc.prems by (auto simp: read_slice_def min_def)
  moreover have "p + esize + n * esize \<le> length bs"
    using Suc.prems by (simp add: algebra_simps)
  ultimately show ?case
    using Suc.IH [of "p + esize"]
    by (auto simp: table_descs_Suc table_desc_def Let_def take_Cons' not_less)
qed

lemma fold_add_desc_max:
  "snd (fold add_desc ds (u, t)) = fold max (map desc_end (filter desc_usable ds)) t"
  by (induction ds arbitrary: u t) (auto simp: add_desc_def max_def)

lemma fold_add_desc_sum:
  "fst (fold add_desc ds (u, t)) = u + sum_list (map d_length (filter desc_usable ds))"
  by (induction ds arbitrary: u t) (auto simp: add_desc_def add.assoc)

lemma fold_add_desc_top:
  "snd (fold add_desc ds (u, t)) = Max (insert t (desc_end ` {d \<in> set ds. desc_usable d}))"
proof -
  have "fold max (map desc_end (filter desc_usable ds)) t =
      Max (set (t # map desc_end (filter desc_usable ds)))"
    by (rule Max.set_eq_fold [symmetric])
  then show ?thesis by (simp add: fold_add_desc_max)
qed

text \<open>The checks before the loop make the whole table lie inside the payload.\<close>

definition e820_valid :: "bootinfo_e820 \<Rightarrow> bool" where
  "e820_valid e \<longleftrightarrow> 20 \<le> entrySize e \<and> entryCount e \<noteq> 0 \<and> unat (totalLength e) \<le> 192 \<and>
     unat (entryCount e) * unat (entrySize e) \<le> unat (totalLength e)"

definition e820_table :: "bootinfo_e820 \<Rightarrow> e820_desc list" where
  "e820_table e = table_descs (e820_data e) (unat (entrySize e)) 0 (unat (entryCount e))"

lemma decode_e820_eq:
  assumes "length (e820_data e) = 192"
  shows "decode_e820 e cap =
    Some (if e820_valid e
          then Some (\<lparr>usableKiB = ucast (drop_bit 10 (fst (fold add_desc (e820_table e) (0, 0)))),
                      topKiB = ucast (drop_bit 10 (snd (fold add_desc (e820_table e) (0, 0))))\<rparr>,
                     take cap (e820_table e))
          else None)"
proof (cases "e820_valid e")
  case True
  then have "unat (entryCount e) * unat (entrySize e) \<le> length (e820_data e)"
    using assms by (simp add: e820_valid_def)
  then have loop: "e820_loop (unat (entryCount e)) (e820_data e) (unat (entrySize e)) cap 0 (0, 0) [] =
      Some (fold add_desc (e820_table e) (0, 0), take cap (e820_table e))"
    using e820_loop_eq [of 0 "unat (entryCount e)" "unat (entrySize e)" "e820_data e" cap "(0, 0)" "[]"]
    by (simp add: e820_table_def)
  show ?thesis
    using True by (cases "fold add_desc (e820_table e) (0, 0)")
      (auto simp: decode_e820_def e820_valid_def E820_DESC_MAX_def loop not_less)
next
  case False
  then show ?thesis by (auto simp: decode_e820_def e820_valid_def E820_DESC_MAX_def not_less not_le)
qed

lemma length_e820_table [simp]: "length (e820_table e) = unat (entryCount e)"
  by (simp add: e820_table_def table_descs_def)

section \<open>Properties\<close>

text \<open>
  (C11) Decoding the E820 table never reads outside its 192 bytes. A header that fails the checks gives
  \<^verbatim>\<open>false\<close>; otherwise the descriptors are the first \<^verbatim>\<open>cap\<close> entries of the table, the usable total is
  the sum of the lengths of the usable entries (modulo \<open>2\<^sup>6\<^sup>4\<close>), and the top is the largest end of a
  usable entry, both in KiB.
\<close>

theorem decode_e820_correct:
  assumes "length (e820_data e) = 192"
  shows "decode_e820 e cap = Some (if \<not> e820_valid e then None
    else Some (\<lparr>usableKiB = ucast (drop_bit 10 (sum_list (map d_length (filter desc_usable (e820_table e))))),
                topKiB = ucast (drop_bit 10 (Max (insert 0 (desc_end ` {d \<in> set (e820_table e). desc_usable d}))))\<rparr>,
               take cap (e820_table e)))"
  using decode_e820_eq [OF assms] fold_add_desc_sum [of "e820_table e" 0 0]
    fold_add_desc_top [of "e820_table e" 0 0] by simp

text \<open>A table of two entries: one usable megabyte at 1 MiB, and a reserved page.\<close>

definition ex_e820 :: bootinfo_e820 where
  "ex_e820 = \<lparr>entrySize = 24, entryCount = 2, totalLength = 48,
     e820_data = [0,0,0x10,0,0,0,0,0, 0,0,0x10,0,0,0,0,0, 1,0,0,0, 0,0,0,0,
                  0,0x10,0,0,0,0,0,0, 0,0x10,0,0,0,0,0,0, 2,0,0,0, 0,0,0,0] @ replicate 144 0\<rparr>"

definition ex_d1 :: e820_desc where
  "ex_d1 = \<lparr>d_base = 0x100000, d_length = 0x100000, d_type = 1, d_attrs = 0\<rparr>"

definition ex_d2 :: e820_desc where
  "ex_d2 = \<lparr>d_base = 0x1000, d_length = 0x1000, d_type = 2, d_attrs = 0\<rparr>"

lemma ex_e820_ok: "length (e820_data ex_e820) = 192" "e820_valid ex_e820"
  by (simp_all add: ex_e820_def e820_valid_def)

lemma ex_e820_table: "e820_table ex_e820 = [ex_d1, ex_d2]"
  by (simp add: ex_e820_def e820_table_def table_descs_def table_desc_def desc_of_bytes_def upt_conv_Cons
      ex_d1_def ex_d2_def)

lemma ex_descs: "desc_usable ex_d1" "\<not> desc_usable ex_d2" "desc_end ex_d1 = 0x200000" "d_length ex_d1 = 0x100000"
  by (simp_all add: ex_d1_def ex_d2_def desc_usable_def desc_end_def)

lemma ex_usable: "{d \<in> set (e820_table ex_e820). desc_usable d} = {ex_d1}"
  using ex_descs by (auto simp: ex_e820_table)

theorem decode_e820_correct_witness:
  "decode_e820 ex_e820 8 = Some (Some (\<lparr>usableKiB = 1024, topKiB = 2048\<rparr>, [ex_d1, ex_d2]))"
  using decode_e820_correct [OF ex_e820_ok(1), of 8] unfolding ex_usable
  by (simp add: ex_e820_ok ex_e820_table ex_descs)



definition ex_bootinfo :: bootinfo where
  "ex_bootinfo =
     \<lparr>signature = MAGIC_4CHAR, versionMajor = 1, versionMinor = 0, totalSize = BOOTINFO_SIZE_EXPECTED,
      stage2Flags = 1, checksum32 = 0, bootDrive = 0x80, mediaType = 1, fsSectorsPerCluster = 1,
      fsReservedSectors = 1, fsFatCount = 2, fsRootEntryCount = 224, fsTotalSectors16 = 2880,
      fsMediaDescriptor = 0xF0, fsSectorsPerFat = 9, fsSectorsPerTrack = 18, fsHeads = 2,
      bpbBytesPerSector = 512, bpbSectorsPerCluster = 1, bpbFatCount = 2, bpbReservedSectors = 1,
      bpbRootEntryCount = 224, bpbSectorsPerFat = 9, bpbSectorsPerTrack = 18, bpbHeads = 2,
      bpbTotalSectors = 2880, fatStartLba = 1, rootDirStartLba = 19, dataStartLba = 33,
      stage2EntryCS = 0x1000, kernelDestAddrLinear = 0x100000, kernelSizeBytes = 0x10000,
      kparamsLinearAddr = 0, kparamsSizeBytes = 0, e801MemorySize = 0, ah88MemorySize = 0,
      cmosMemorySize = 0, bi_e820 = ex_e820\<rparr>"

definition ex_boot :: boot where
  "ex_boot =
     \<lparr>mem = (\<lambda>_. 0), cr3 = 0, cs_reg = 8, kernel_start = 0x100000, kernel_end = 0x110000,
      g_avail_memory_kib = 0, g_memory_method = USE_CMOS, g_e820_descs = [],
      g_bootinfo_validated = False, g_kernel_phys_address = 0, g_kernel_size_bytes = 0,
      g_kparams_phys_address = 0, g_kparams_size_bytes = 0\<rparr>"


end
