(* ===== verification/Bitmap.thy ===== *)
theory Bitmap
  imports Kernel_Prelude
begin

text \<open>
  Allocation bitmaps as the kernel keeps them: an array of bytes in which bit \<open>i\<close> of the map is
  bit \<open>i & 7\<close> of byte \<open>i >> 3\<close>. The physical memory manager (\<^verbatim>\<open>kmem.c\<close>) and the demand-paged
  pools (\<^verbatim>\<open>dpage.h\<close>) both use this layout. The operations here are the byte expressions those
  files share; an index outside the array is \<^term>\<open>None\<close>. The abstraction \<open>bm_bits\<close> is the set of
  indices whose bit is set, and the locale \<open>slot_bitmap\<close> states the interface the clients rely on.
\<close>

section \<open>Byte expressions\<close>

type_synonym bitmap = "u8 list"

definition bm_mask :: "u32 \<Rightarrow> u8" where
  "bm_mask i = push_bit (unat (i AND 7)) 1"

definition bm_byte :: "bitmap \<Rightarrow> u32 \<Rightarrow> u8 option" where
  "bm_byte bs i =
     (let k = unat (drop_bit 3 i) in if k < length bs then Some (bs ! k) else None)"

definition bitmap_test :: "bitmap \<Rightarrow> u32 \<Rightarrow> bool option" where
  "bitmap_test bs i = do { b \<leftarrow> bm_byte bs i; Some (b AND bm_mask i \<noteq> 0) }"

definition bitmap_set :: "bitmap \<Rightarrow> u32 \<Rightarrow> bitmap option" where
  "bitmap_set bs i =
     do { b \<leftarrow> bm_byte bs i; Some (bs[unat (drop_bit 3 i) := b OR bm_mask i]) }"

definition bitmap_clear :: "bitmap \<Rightarrow> u32 \<Rightarrow> bitmap option" where
  "bitmap_clear bs i =
     do { b \<leftarrow> bm_byte bs i; Some (bs[unat (drop_bit 3 i) := b AND NOT (bm_mask i)]) }"


section \<open>The set of indices\<close>

definition bm_bits :: "bitmap \<Rightarrow> nat set" where
  "bm_bits bs = {i. i < 8 * length bs \<and> bit (bs ! (i div 8)) (i mod 8)}"

definition bm_size :: "bitmap \<Rightarrow> nat" where
  "bm_size bs = 8 * length bs"

lemma finite_bm_bits [simp]: "finite (bm_bits bs)"
  by (simp add: bm_bits_def)

lemma bm_bits_bound: "i \<in> bm_bits bs \<Longrightarrow> i < bm_size bs"
  by (simp add: bm_bits_def bm_size_def)

lemma and_bm_mask_iff: "b AND bm_mask i \<noteq> 0 \<longleftrightarrow> bit b (unat i mod 8)"
proof -
  have "b AND push_bit k 1 \<noteq> 0 \<longleftrightarrow> bit b k" for b :: u8 and k
    by (simp add: bit_iff_and_push_bit_not_eq_0)
  then show ?thesis
    by (simp add: bm_mask_def unat_page)
qed

lemma bit_or_bm_mask: "n < 8 \<Longrightarrow> bit (b OR bm_mask i) n \<longleftrightarrow> bit b n \<or> n = unat i mod 8"
  by (auto simp: bm_mask_def bit_simps unat_page)

lemma bit_and_not_bm_mask:
  "n < 8 \<Longrightarrow> bit (b AND NOT (bm_mask i)) n \<longleftrightarrow> bit b n \<and> n \<noteq> unat i mod 8"
  by (auto simp: bm_mask_def bit_simps unat_page)

lemma bm_index_less: "unat (i :: u32) < bm_size bs \<longleftrightarrow> unat (drop_bit 3 i) < length bs"
  by (simp add: unat_page bm_size_def) linarith

lemma bm_byte_in:
  "unat i < bm_size bs \<Longrightarrow> bm_byte bs i = Some (bs ! (unat i div 8))"
  using bm_index_less [of i bs] by (simp add: bm_byte_def unat_page)

lemma bitmap_test_in:
  "unat i < bm_size bs \<Longrightarrow> bitmap_test bs i = Some (unat i \<in> bm_bits bs)"
  by (simp add: bitmap_test_def bm_byte_in and_bm_mask_iff bm_bits_def bm_size_def)

lemma bm_bits_update:
  assumes k: "k < length bs"
    and old: "\<And>n. n < 8 \<Longrightarrow> bit b n \<longleftrightarrow> 8 * k + n \<in> S"
    and rest: "\<And>i. i div 8 \<noteq> k \<Longrightarrow> i \<in> S \<longleftrightarrow> i \<in> bm_bits bs"
  shows "bm_bits (bs[k := b]) = S \<inter> {..< 8 * length bs}"
proof (rule set_eqI)
  fix i
  show "i \<in> bm_bits (bs[k := b]) \<longleftrightarrow> i \<in> S \<inter> {..< 8 * length bs}"
  proof (cases "i div 8 = k")
    case True
    then have "8 * k + i mod 8 = i" by auto
    with old [of "i mod 8"] True k show ?thesis
      by (auto simp: bm_bits_def)
  next
    case False
    with rest [of i] show ?thesis
      by (auto simp: bm_bits_def)
  qed
qed

lemma bitmap_set_in:
  assumes "unat i < bm_size bs"
  obtains bs' where "bitmap_set bs i = Some bs'" "length bs' = length bs"
    "bm_bits bs' = insert (unat i) (bm_bits bs)"
proof
  let ?k = "unat i div 8"
  let ?b = "bs ! ?k OR bm_mask i"
  have k: "?k < length bs" using assms by (auto simp: bm_size_def)
  show "bitmap_set bs i = Some (bs[?k := ?b])"
    using assms by (simp add: bitmap_set_def bm_byte_in unat_page)
  show "length (bs[?k := ?b]) = length bs" by simp
  have "bm_bits (bs[?k := ?b]) = insert (unat i) (bm_bits bs) \<inter> {..< 8 * length bs}"
  proof (rule bm_bits_update [OF k])
    fix n :: nat assume n: "n < 8"
    have "8 * ?k + n = unat i \<longleftrightarrow> n = unat i mod 8" using n by presburger
    with n k show "bit ?b n \<longleftrightarrow> 8 * ?k + n \<in> insert (unat i) (bm_bits bs)"
      by (auto simp: bit_or_bm_mask bm_bits_def)
  next
    fix j assume "j div 8 \<noteq> ?k"
    then show "j \<in> insert (unat i) (bm_bits bs) \<longleftrightarrow> j \<in> bm_bits bs" by auto
  qed
  also have "\<dots> = insert (unat i) (bm_bits bs)"
    using assms bm_bits_bound [of _ bs] by (auto simp: bm_size_def)
  finally show "bm_bits (bs[?k := ?b]) = insert (unat i) (bm_bits bs)" .
qed

lemma bitmap_clear_in:
  assumes "unat i < bm_size bs"
  obtains bs' where "bitmap_clear bs i = Some bs'" "length bs' = length bs"
    "bm_bits bs' = bm_bits bs - {unat i}"
proof
  let ?k = "unat i div 8"
  let ?b = "bs ! ?k AND NOT (bm_mask i)"
  have k: "?k < length bs" using assms by (auto simp: bm_size_def)
  show "bitmap_clear bs i = Some (bs[?k := ?b])"
    using assms by (simp add: bitmap_clear_def bm_byte_in unat_page)
  show "length (bs[?k := ?b]) = length bs" by simp
  have "bm_bits (bs[?k := ?b]) = (bm_bits bs - {unat i}) \<inter> {..< 8 * length bs}"
  proof (rule bm_bits_update [OF k])
    fix n :: nat assume n: "n < 8"
    have "8 * ?k + n = unat i \<longleftrightarrow> n = unat i mod 8" using n by presburger
    with n k show "bit ?b n \<longleftrightarrow> 8 * ?k + n \<in> bm_bits bs - {unat i}"
      by (auto simp: bit_and_not_bm_mask bm_bits_def)
  next
    fix j assume "j div 8 \<noteq> ?k"
    then show "j \<in> bm_bits bs - {unat i} \<longleftrightarrow> j \<in> bm_bits bs" by auto
  qed
  also have "\<dots> = bm_bits bs - {unat i}"
    using bm_bits_bound [of _ bs] by (auto simp: bm_size_def)
  finally show "bm_bits (bs[?k := ?b]) = bm_bits bs - {unat i}" .
qed

text \<open>A byte that is zero has no bit set, a byte of ones has all of them: the whole-byte shortcuts.\<close>

lemma bm_byte_zero_free:
  assumes "bm_byte bs i = Some 0"
  shows "unat i \<notin> bm_bits bs"
proof
  assume "unat i \<in> bm_bits bs"
  then have "bm_byte bs i = Some (bs ! (unat i div 8))" and "bit (bs ! (unat i div 8)) (unat i mod 8)"
    by (simp_all add: bm_byte_in bm_bits_bound) (simp add: bm_bits_def)
  with assms show False by simp
qed

lemma bm_bits_ones: "bm_bits (replicate n 0xFF) = {..< 8 * n}"
proof -
  have "(0xFF :: u8) = -1" by simp
  then have "bit (0xFF :: u8) (i mod 8)" for i :: nat by (simp only:) simp
  then show ?thesis by (auto simp: bm_bits_def)
qed

lemma bm_bits_zeros: "bm_bits (replicate n 0) = {}"
  by (auto simp: bm_bits_def)


section \<open>The interface of a slot bitmap\<close>

text \<open>
  What the allocators rely on: testing, setting and clearing a slot below the capacity always
  succeeds, and acts on the set of taken slots as membership, insertion and deletion.
\<close>

locale slot_bitmap =
  fixes test :: "'b \<Rightarrow> u32 \<Rightarrow> bool option"
    and set_slot :: "'b \<Rightarrow> u32 \<Rightarrow> 'b option"
    and clear_slot :: "'b \<Rightarrow> u32 \<Rightarrow> 'b option"
    and taken :: "'b \<Rightarrow> nat set"
    and capacity :: "'b \<Rightarrow> nat"
  assumes test_taken: "unat i < capacity b \<Longrightarrow> test b i = Some (unat i \<in> taken b)"
    and set_taken: "unat i < capacity b \<Longrightarrow>
      \<exists>b'. set_slot b i = Some b' \<and> capacity b' = capacity b \<and> taken b' = insert (unat i) (taken b)"
    and clear_taken: "unat i < capacity b \<Longrightarrow>
      \<exists>b'. clear_slot b i = Some b' \<and> capacity b' = capacity b \<and> taken b' = taken b - {unat i}"
    and taken_bound: "k \<in> taken b \<Longrightarrow> k < capacity b"
begin

lemma set_then_test:
  assumes "unat i < capacity b" "unat j < capacity b" "set_slot b i = Some b'"
  shows "test b' j = Some (j = i \<or> unat j \<in> taken b)"
proof -
  from set_taken [OF assms(1)] assms(3)
  have "capacity b' = capacity b" "taken b' = insert (unat i) (taken b)" by auto
  with test_taken [of j b'] assms(2) show ?thesis by (auto simp: u32_eq_iff)
qed

lemma clear_then_test:
  assumes "unat i < capacity b" "unat j < capacity b" "clear_slot b i = Some b'"
  shows "test b' j = Some (j \<noteq> i \<and> unat j \<in> taken b)"
proof -
  from clear_taken [OF assms(1)] assms(3)
  have "capacity b' = capacity b" "taken b' = taken b - {unat i}" by auto
  with test_taken [of j b'] assms(2) show ?thesis by (auto simp: u32_eq_iff)
qed

text \<open>Taking a free slot and giving it back restores the set of taken slots.\<close>

lemma set_clear_restores:
  assumes "unat i < capacity b" "unat i \<notin> taken b"
    and "set_slot b i = Some b'" "clear_slot b' i = Some b''"
  shows "taken b'' = taken b" "capacity b'' = capacity b"
proof -
  from set_taken [OF assms(1)] assms(3)
  have b': "capacity b' = capacity b" "taken b' = insert (unat i) (taken b)" by auto
  with clear_taken [of i b'] assms(1,4)
  have "capacity b'' = capacity b'" "taken b'' = taken b' - {unat i}" by auto
  with b' assms(2) show "taken b'' = taken b" "capacity b'' = capacity b" by auto
qed

end

interpretation bmi: slot_bitmap bitmap_test bitmap_set bitmap_clear bm_bits bm_size
proof unfold_locales
  fix i :: u32 and b assume i: "unat i < bm_size b"
  show "bitmap_test b i = Some (unat i \<in> bm_bits b)"
    using i by (rule bitmap_test_in)
  show "\<exists>b'. bitmap_set b i = Some b' \<and> bm_size b' = bm_size b \<and>
          bm_bits b' = insert (unat i) (bm_bits b)"
    using bitmap_set_in [OF i] by (metis bm_size_def)
  show "\<exists>b'. bitmap_clear b i = Some b' \<and> bm_size b' = bm_size b \<and>
          bm_bits b' = bm_bits b - {unat i}"
    using bitmap_clear_in [OF i] by (metis bm_size_def)
next
  fix k b assume "k \<in> bm_bits b"
  then show "k < bm_size b" by (rule bm_bits_bound)
qed

end
