(* ===== verification/Pmm.thy ===== *)
theory Pmm
  imports Bitmap Bootinfo
begin

text \<open>
  The physical memory manager of \<^verbatim>\<open>kernel/kmem.c\<close>: a bitmap with one bit per 4 KiB frame, a circular
  allocation hint, a counter of free frames, and the table of permanently reserved regions. The state
  extends the boot globals. \<open>bitmap_bytes\<close> is the array the pointer \<open>pagebitmap\<close> designates;
  \<open>mem_regions\<close> is the prefix of length \<^verbatim>\<open>mem_region_count\<close> of the C array.
\<close>

section \<open>Data\<close>

datatype mem_type = MEM_USABLE | MEM_RESERVED

datatype pmm_alloc_result =
    PMM_ALLOC_SUCCESS | PMM_ALLOC_OOM | PMM_NO_PAGES_INITIALIZED | PMM_BITMAP_NOT_INITIALIZED
  | PMM_BITMAP_INCONSISTENT_RESERVED | PMM_ALLOC_ALREADY_ALLOCATED | PMM_ALLOC_RESERVED
  | PMM_ALLOC_OUTOFBOUNDS | PMM_ALLOC_UNALIGNED_ADDR | PMM_ALLOC_ALREADY_FREE

datatype pmm_reserve_result =
    PMM_RESERVE_SUCCESS | PMM_NO_MORE_REGION_SLOTS | PMM_INVALID_REGION_LENGTH
  | PMM_UPDATED_EXISTING_REGION

datatype paging_status =
    PAGING_OK | PAGING_ERR_ALIGN | PAGING_ERR_NOMEM | PAGING_ERR_NOT_MAPPED
  | PAGING_ERR_ALREADY_MAPPED | PAGING_ERR_NOT_MAPPED_OR_ALREADY_MAPPED
  | PAGING_ERR_INIT_RESERVE_FAILED | PAGING_ERR_FRAME_RESERVE_FAILED | PAGING_ERR_NOT_PRESENT
  | PAGING_ERR_OUT_OF_BOUNDS | PAGING_ERR_FAILED_RETRIEVE_PT | PAGING_ERR_NOT_INITIALIZED
  | PAGING_ERR_EXCESS_PAGES_REQUESTED | PAGING_ERR_INVALID | PAGING_ERR_PT_USER_FLAG_MISMATCH
  | PAGING_ERR_USER_FLAG_IN_KERNEL_SPACE | PAGING_ERR_KERNEL_FLAG_IN_USER_SPACE

record mem_region =
  mr_base :: u32
  mr_length :: u32
  mr_type :: mem_type

definition MEM_REGIONS_MAX :: nat where "MEM_REGIONS_MAX = 256"

record pmm = boot +
  pagebitmap :: u32
  pagebitmap_phys :: u32
  pagebitmap_size_bytes :: u32
  frame_count :: u32
  frame_hint :: u32
  available_frames :: u64
  use_phys_window_alias :: bool
  bitmap_bytes :: bitmap
  mem_regions :: "mem_region list"


section \<open>Bitmap manipulation\<close>

definition bm_set :: "u32 \<Rightarrow> 'a pmm_scheme \<Rightarrow> 'a pmm_scheme option" where
  "bm_set f s = do {
     val \<leftarrow> bm_byte (bitmap_bytes s) f;
     bs \<leftarrow> bitmap_set (bitmap_bytes s) f;
     val' \<leftarrow> bm_byte bs f;
     Some (s\<lparr>bitmap_bytes := bs,
             available_frames := (if val \<noteq> val' then available_frames s - 1 else available_frames s)\<rparr>) }"

definition bm_clear :: "u32 \<Rightarrow> 'a pmm_scheme \<Rightarrow> 'a pmm_scheme option" where
  "bm_clear f s = do {
     val \<leftarrow> bm_byte (bitmap_bytes s) f;
     bs \<leftarrow> bitmap_clear (bitmap_bytes s) f;
     val' \<leftarrow> bm_byte bs f;
     Some (s\<lparr>bitmap_bytes := bs,
             available_frames := (if val \<noteq> val' then available_frames s + 1 else available_frames s)\<rparr>) }"

text \<open>\<^verbatim>\<open>for (f = start; f < end; ++f) bm_set(f)\<close>, with the number of frames left.\<close>

primrec bm_set_frames :: "nat \<Rightarrow> u32 \<Rightarrow> 'a pmm_scheme \<Rightarrow> 'a pmm_scheme option" where
  "bm_set_frames 0 f s = Some s"
| "bm_set_frames (Suc n) f s = do { s \<leftarrow> bm_set f s; bm_set_frames n (f + 1) s }"

primrec bm_clear_frames :: "nat \<Rightarrow> u32 \<Rightarrow> 'a pmm_scheme \<Rightarrow> 'a pmm_scheme option" where
  "bm_clear_frames 0 f s = Some s"
| "bm_clear_frames (Suc n) f s = do { s \<leftarrow> bm_clear f s; bm_clear_frames n (f + 1) s }"

definition bm_set_range_touched :: "u32 \<Rightarrow> u32 \<Rightarrow> 'a pmm_scheme \<Rightarrow> 'a pmm_scheme option" where
  "bm_set_range_touched base len s =
     (if len = 0 then Some s
      else let start = unat base div 4096;
               end' = (unat base + unat len + 0xFFF) div 4096;
               fin = (if end' > unat (frame_count s) then unat (frame_count s) else end')
           in bm_set_frames (fin - start) (of_nat start) s)"

definition bm_clear_range_full_pages :: "u32 \<Rightarrow> u32 \<Rightarrow> 'a pmm_scheme \<Rightarrow> 'a pmm_scheme option" where
  "bm_clear_range_full_pages base len s =
     (if len < 4096 then Some s
      else let start = (unat base + 0xFFF) div 4096 * 4096;
               end' = (unat base + unat len) div 4096 * 4096
           in if end' \<le> start then Some s
              else let fs = start div 4096;
                       fe = (if end' div 4096 > unat (frame_count s) then unat (frame_count s)
                             else end' div 4096)
                   in bm_clear_frames (fe - fs) (of_nat fs) s)"

definition pmm_init_single :: "mem_region \<Rightarrow> 'a pmm_scheme \<Rightarrow> 'a pmm_scheme option" where
  "pmm_init_single r s =
     (if pagebitmap s = 0 \<or> frame_count s = 0 then Some s
      else if mr_type r = MEM_RESERVED then bm_set_range_touched (mr_base r) (mr_length r) s
      else Some s)"


section \<open>Initialisation\<close>

primrec reserve_regions :: "mem_region list \<Rightarrow> 'a pmm_scheme \<Rightarrow> 'a pmm_scheme option" where
  "reserve_regions [] s = Some s"
| "reserve_regions (r # rs) s = do {
     s \<leftarrow> (if mr_type r = MEM_RESERVED then bm_set_range_touched (mr_base r) (mr_length r) s
          else Some s);
     reserve_regions rs s }"

text \<open>\<^verbatim>\<open>top_bytes64\<close>: the memory size in bytes, at most 4 GiB.\<close>

definition top_bytes :: "u32 \<Rightarrow> nat" where
  "top_bytes kib = (let t = unat kib * 1024 in if t > 0x100000000 then 0x100000000 else t)"

definition pmm_init :: "mem_region list \<Rightarrow> 'a pmm_scheme \<Rightarrow> 'a pmm_scheme option" where
  "pmm_init regions s =
     (let top = top_bytes (g_avail_memory_kib s);
          fc = of_nat (top div 4096) :: u32;
          size = drop_bit 3 (fc + 7);
          loc = (unat (kernel_end s) + 0xFFF) div 4096 * 4096;
          s = s\<lparr>frame_count := fc, pagebitmap_size_bytes := size, available_frames := 0\<rparr>
      in if loc + unat size > top then None
         else let s = s\<lparr>pagebitmap_phys := of_nat loc, pagebitmap := of_nat loc,
                        bitmap_bytes := replicate (unat size) 0xFF\<rparr>
              in do {
                s \<leftarrow> (if top > 0x100000
                     then let len = top - 0x100000
                          in bm_clear_range_full_pages 0x100000
                               (of_nat (if len > 0xFFFFFFFF then 0xFFFFFFFF else len)) s
                     else Some s);
                s \<leftarrow> reserve_regions regions s;
                bm_set_range_touched (of_nat loc) size s })"

definition pmm_switch_to_phys_window_alias :: "'a pmm_scheme \<Rightarrow> 'a pmm_scheme option" where
  "pmm_switch_to_phys_window_alias s =
     (if pagebitmap_phys s = 0 then Some s
      else do {
        v \<leftarrow> phys_to_virt (pagebitmap_phys s);
        Some (s\<lparr>pagebitmap := v, use_phys_window_alias := True\<rparr>) })"


section \<open>Queries\<close>

text \<open>The first reserved region that overlaps the span: the value of \<^verbatim>\<open>*out_overlap\<close>.\<close>

fun find_overlap :: "nat \<Rightarrow> nat \<Rightarrow> mem_region list \<Rightarrow> mem_region option" where
  "find_overlap address span_end [] = None"
| "find_overlap address span_end (r # rs) =
     (if mr_length r = 0 then find_overlap address span_end rs
      else if mr_type r = MEM_RESERVED \<and>
              address < unat (mr_base r) + unat (mr_length r) \<and> unat (mr_base r) < span_end
      then Some r
      else find_overlap address span_end rs)"

definition pmm_is_region_reserved :: "u32 \<Rightarrow> u32 \<Rightarrow> 'a pmm_scheme \<Rightarrow> bool" where
  "pmm_is_region_reserved address len s =
     (if len = 0 then False
      else find_overlap (unat address) (unat address + unat len) (mem_regions s) \<noteq> None)"

definition pmm_query_bitmap :: "u32 \<Rightarrow> 'a pmm_scheme \<Rightarrow> bool option" where
  "pmm_query_bitmap address s =
     (if address mod 4096 \<noteq> 0 then Some False
      else let f = drop_bit 12 address
           in if f \<ge> frame_count s then Some False else bitmap_test (bitmap_bytes s) f)"

definition get_estimated_available_frames :: "'a pmm_scheme \<Rightarrow> u64" where
  "get_estimated_available_frames s = available_frames s"


section \<open>Allocation\<close>

text \<open>The step of the circular loops, and the common tail of a successful search.\<close>

definition next_frame :: "'a pmm_scheme \<Rightarrow> u32 \<Rightarrow> u32" where
  "next_frame s f = (if f + 1 \<ge> frame_count s then 0 else f + 1)"

definition take_frame :: "u32 \<Rightarrow> 'a pmm_scheme \<Rightarrow> ((u32 \<times> pmm_alloc_result) \<times> 'a pmm_scheme) option" where
  "take_frame f s = do {
     s \<leftarrow> bm_set f s;
     Some ((push_bit 12 f, PMM_ALLOC_SUCCESS), s\<lparr>frame_hint := (f + 1) mod frame_count s\<rparr>) }"

primrec alloc_scan ::
  "nat \<Rightarrow> u32 \<Rightarrow> 'a pmm_scheme \<Rightarrow> ((u32 \<times> pmm_alloc_result) \<times> 'a pmm_scheme) option" where
  "alloc_scan 0 f s = Some ((0, PMM_ALLOC_OOM), s)"
| "alloc_scan (Suc n) f s = do {
     b \<leftarrow> bm_byte (bitmap_bytes s) f;
     if b = 0 then take_frame f s
     else if b AND bm_mask f = 0 then take_frame f s
     else alloc_scan n (next_frame s f) s }"

definition pmm_alloc_frame :: "'a pmm_scheme \<Rightarrow> ((u32 \<times> pmm_alloc_result) \<times> 'a pmm_scheme) option" where
  "pmm_alloc_frame s =
     (if frame_count s = 0 then Some ((0, PMM_NO_PAGES_INITIALIZED), s)
      else alloc_scan (unat (frame_count s)) (frame_hint s) s)"

primrec next_block_scan ::
  "nat \<Rightarrow> u32 \<Rightarrow> 'a pmm_scheme \<Rightarrow> ((u32 \<times> pmm_alloc_result) \<times> 'a pmm_scheme) option" where
  "next_block_scan 0 f s = Some ((0, PMM_ALLOC_OOM), s)"
| "next_block_scan (Suc n) f s = do {
     b \<leftarrow> bm_byte (bitmap_bytes s) f;
     if b = 0 then
       (if pmm_is_region_reserved (push_bit 12 f) 4096 s
        then Some ((0, PMM_BITMAP_INCONSISTENT_RESERVED), s) else take_frame f s)
     else if b AND bm_mask f = 0 then
       (if pmm_is_region_reserved (push_bit 12 f) 4096 s
        then Some ((0, PMM_BITMAP_INCONSISTENT_RESERVED), s) else take_frame f s)
     else next_block_scan n (next_frame s f) s }"

definition pmm_get_next_available_block ::
  "'a pmm_scheme \<Rightarrow> ((u32 \<times> pmm_alloc_result) \<times> 'a pmm_scheme) option" where
  "pmm_get_next_available_block s =
     (if frame_count s = 0 then Some ((0, PMM_NO_PAGES_INITIALIZED), s)
      else if pagebitmap s = 0 then Some ((0, PMM_BITMAP_NOT_INITIALIZED), s)
      else next_block_scan (unat (frame_count s)) (frame_hint s) s)"

definition pmm_alloc_specific_block :: "u32 \<Rightarrow> 'a pmm_scheme \<Rightarrow> (pmm_alloc_result \<times> 'a pmm_scheme) option" where
  "pmm_alloc_specific_block a s =
     (if a mod 4096 \<noteq> 0 then Some (PMM_ALLOC_UNALIGNED_ADDR, s)
      else let f = drop_bit 12 a
           in if f \<ge> frame_count s then Some (PMM_ALLOC_OUTOFBOUNDS, s)
              else if pmm_is_region_reserved a 4096 s then Some (PMM_ALLOC_RESERVED, s)
              else do {
                q \<leftarrow> pmm_query_bitmap a s;
                if q then Some (PMM_ALLOC_ALREADY_ALLOCATED, s)
                else do { s \<leftarrow> bm_set f s; Some (PMM_ALLOC_SUCCESS, s) } })"

definition pmm_dealloc_specific_block :: "u32 \<Rightarrow> 'a pmm_scheme \<Rightarrow> (pmm_alloc_result \<times> 'a pmm_scheme) option" where
  "pmm_dealloc_specific_block a s =
     (if a mod 4096 \<noteq> 0 then Some (PMM_ALLOC_UNALIGNED_ADDR, s)
      else if frame_count s = 0 then Some (PMM_NO_PAGES_INITIALIZED, s)
      else if pagebitmap s = 0 then Some (PMM_BITMAP_NOT_INITIALIZED, s)
      else let f = drop_bit 12 a
           in if f \<ge> frame_count s then Some (PMM_ALLOC_OUTOFBOUNDS, s)
              else if pmm_is_region_reserved a 4096 s then Some (PMM_ALLOC_RESERVED, s)
              else do {
                q \<leftarrow> pmm_query_bitmap a s;
                if \<not> q then Some (PMM_ALLOC_ALREADY_FREE, s)
                else do {
                  s \<leftarrow> bm_clear f (s\<lparr>frame_hint := f\<rparr>);
                  Some (PMM_ALLOC_SUCCESS, s) } })"


section \<open>Free, used and reserved frames\<close>

definition live_region :: "mem_region \<Rightarrow> bool" where
  "live_region r \<longleftrightarrow> mr_type r = MEM_RESERVED \<and> mr_length r \<noteq> 0"

text \<open>The frames a region touches, and the frames touched by some reserved region.\<close>

definition touched :: "u32 \<Rightarrow> u32 \<Rightarrow> nat set" where
  "touched base len =
     (if len = 0 then {} else {unat base div 4096 ..< (unat base + unat len + 4095) div 4096})"

definition reserved_frames :: "mem_region list \<Rightarrow> nat set" where
  "reserved_frames rs = (\<Union>r \<in> {r \<in> set rs. live_region r}. touched (mr_base r) (mr_length r))"

definition used_frames :: "'a pmm_scheme \<Rightarrow> nat set" where
  "used_frames s = bm_bits (bitmap_bytes s)"

definition free_frames :: "'a pmm_scheme \<Rightarrow> nat set" where
  "free_frames s = {..< unat (frame_count s)} - used_frames s"

text \<open>The part of the invariant about the bitmap, and the whole invariant.\<close>

definition pmm_core :: "'a pmm_scheme \<Rightarrow> bool" where
  "pmm_core s \<longleftrightarrow> unat (frame_count s) \<le> 1048576 \<and>
     length (bitmap_bytes s) = (unat (frame_count s) + 7) div 8 \<and>
     unat (available_frames s) = card (free_frames s)"

definition pmm_inv :: "'a pmm_scheme \<Rightarrow> bool" where
  "pmm_inv s \<longleftrightarrow> pmm_core s \<and> frame_hint s < frame_count s \<and> pagebitmap s \<noteq> 0 \<and>
     reserved_frames (mem_regions s) \<inter> free_frames s = {} \<and>
     length (mem_regions s) \<le> MEM_REGIONS_MAX"

text \<open>The steps of the allocator change these three fields and nothing else.\<close>

definition bm_only :: "'a pmm_scheme \<Rightarrow> 'a pmm_scheme \<Rightarrow> bool" where
  "bm_only s s' \<longleftrightarrow>
     s' = s\<lparr>bitmap_bytes := bitmap_bytes s', available_frames := available_frames s'\<rparr>"

definition pmm_only :: "'a pmm_scheme \<Rightarrow> 'a pmm_scheme \<Rightarrow> bool" where
  "pmm_only s s' \<longleftrightarrow>
     s' = s\<lparr>bitmap_bytes := bitmap_bytes s', available_frames := available_frames s',
            frame_hint := frame_hint s'\<rparr>"


lemma bm_size_core: "pmm_core s \<Longrightarrow> n < unat (frame_count s) \<Longrightarrow> n < bm_size (bitmap_bytes s)"
  unfolding pmm_core_def bm_size_def by linarith

lemma finite_free_frames [simp]: "finite (free_frames s)"
  by (simp add: free_frames_def)

lemma card_free_frames: "card (free_frames s) \<le> unat (frame_count s)"
  using card_mono [of "{..< unat (frame_count s)}" "free_frames s"] by (auto simp: free_frames_def)

lemma bm_onlyI [intro]: "bm_only s (s\<lparr>bitmap_bytes := b, available_frames := a\<rparr>)"
  by (simp add: bm_only_def)

lemma bm_onlyE:
  assumes "bm_only s s'"
  obtains b a where "s' = s\<lparr>bitmap_bytes := b, available_frames := a\<rparr>"
  using assms unfolding bm_only_def by blast

lemma bm_only_refl [simp]: "bm_only s s"
  by (simp add: bm_only_def)

lemma bm_only_trans: "bm_only s s' \<Longrightarrow> bm_only s' s'' \<Longrightarrow> bm_only s s''"
  by (elim bm_onlyE) (auto simp: bm_only_def)

lemma bm_onlyD:
  assumes "bm_only s s'"
  shows "frame_count s' = frame_count s" "frame_hint s' = frame_hint s" "pagebitmap s' = pagebitmap s"
    "mem_regions s' = mem_regions s" "mem s' = mem s"
    "use_phys_window_alias s' = use_phys_window_alias s"
  by (rule bm_onlyE [OF assms], simp)+

lemma byte_or_mask_iff: "(b OR bm_mask f) = b \<longleftrightarrow> bit b (unat f mod 8)"
proof -
  have "(b OR bm_mask f) = b \<longleftrightarrow> (\<forall>n<8. bit b n \<or> n = unat f mod 8 \<longleftrightarrow> bit b n)"
    by (simp add: bit_eq_iff bit_or_bm_mask del: bit_or_iff)
  moreover have "unat f mod 8 < 8" by simp
  ultimately show ?thesis by blast
qed

lemma byte_and_mask_iff: "(b AND NOT (bm_mask f)) = b \<longleftrightarrow> \<not> bit b (unat f mod 8)"
proof -
  have "(b AND NOT (bm_mask f)) = b \<longleftrightarrow> (\<forall>n<8. bit b n \<and> n \<noteq> unat f mod 8 \<longleftrightarrow> bit b n)"
    by (simp add: bit_eq_iff bit_and_not_bm_mask del: bit_and_iff)
  moreover have "unat f mod 8 < 8" by simp
  ultimately show ?thesis by blast
qed

lemma bm_set_eq:
  assumes "unat f < bm_size (bitmap_bytes s)"
  obtains bs where "bitmap_set (bitmap_bytes s) f = Some bs" "length bs = length (bitmap_bytes s)"
    "bm_bits bs = insert (unat f) (used_frames s)"
    "bm_set f s = Some (s\<lparr>bitmap_bytes := bs, available_frames :=
       (if unat f \<in> used_frames s then available_frames s else available_frames s - 1)\<rparr>)"
proof -
  obtain bs where bs: "bitmap_set (bitmap_bytes s) f = Some bs" "length bs = length (bitmap_bytes s)"
    "bm_bits bs = insert (unat f) (used_frames s)"
    using bitmap_set_in [OF assms] unfolding used_frames_def by blast
  let ?b = "bitmap_bytes s ! (unat f div 8)"
  have "bs ! (unat f div 8) = ?b OR bm_mask f"
    using bs(1) assms by (auto simp: bitmap_set_def bm_byte_in unat_page bm_size_def)
  moreover have "bit ?b (unat f mod 8) \<longleftrightarrow> unat f \<in> used_frames s"
    using assms by (simp add: used_frames_def bm_bits_def bm_size_def)
  ultimately have "bm_set f s = Some (s\<lparr>bitmap_bytes := bs, available_frames :=
       (if unat f \<in> used_frames s then available_frames s else available_frames s - 1)\<rparr>)"
    using assms bs(1,2) by (simp add: bm_set_def bm_byte_in bm_size_def byte_or_mask_iff eq_commute [of ?b])
  with bs show thesis by (rule that)
qed

lemma bm_clear_eq:
  assumes "unat f < bm_size (bitmap_bytes s)"
  obtains bs where "bitmap_clear (bitmap_bytes s) f = Some bs" "length bs = length (bitmap_bytes s)"
    "bm_bits bs = used_frames s - {unat f}"
    "bm_clear f s = Some (s\<lparr>bitmap_bytes := bs, available_frames :=
       (if unat f \<in> used_frames s then available_frames s + 1 else available_frames s)\<rparr>)"
proof -
  obtain bs where bs: "bitmap_clear (bitmap_bytes s) f = Some bs" "length bs = length (bitmap_bytes s)"
    "bm_bits bs = used_frames s - {unat f}"
    using bitmap_clear_in [OF assms] unfolding used_frames_def by blast
  let ?b = "bitmap_bytes s ! (unat f div 8)"
  have "bs ! (unat f div 8) = ?b AND NOT (bm_mask f)"
    using bs(1) assms by (auto simp: bitmap_clear_def bm_byte_in unat_page bm_size_def)
  moreover have "bit ?b (unat f mod 8) \<longleftrightarrow> unat f \<in> used_frames s"
    using assms by (simp add: used_frames_def bm_bits_def bm_size_def)
  ultimately have "bm_clear f s = Some (s\<lparr>bitmap_bytes := bs, available_frames :=
       (if unat f \<in> used_frames s then available_frames s + 1 else available_frames s)\<rparr>)"
    using assms bs(1,2) by (simp add: bm_clear_def bm_byte_in bm_size_def byte_and_mask_iff eq_commute [of ?b])
  with bs show thesis by (rule that)
qed

lemma bm_set_step:
  assumes "pmm_core s" "unat f < unat (frame_count s)"
  obtains s' where "bm_set f s = Some s'" "pmm_core s'" "bm_only s s'"
    "used_frames s' = insert (unat f) (used_frames s)"
proof -
  obtain bs where "bitmap_set (bitmap_bytes s) f = Some bs"
    and bs: "length bs = length (bitmap_bytes s)" "bm_bits bs = insert (unat f) (used_frames s)"
    "bm_set f s = Some (s\<lparr>bitmap_bytes := bs, available_frames :=
       (if unat f \<in> used_frames s then available_frames s else available_frames s - 1)\<rparr>)" (is "_ = Some ?s'")
    by (rule bm_set_eq [OF bm_size_core [OF assms]])
  have free: "free_frames ?s' = free_frames s - {unat f}"
    using bs(2) by (auto simp: free_frames_def used_frames_def)
  have "unat (available_frames ?s') = card (free_frames ?s')"
  proof (cases "unat f \<in> used_frames s")
    case True
    with free assms show ?thesis by (simp add: pmm_core_def free_frames_def)
  next
    case False
    then have "unat f \<in> free_frames s" using assms by (simp add: free_frames_def)
    then have "card (free_frames s) > 0" by (auto simp: card_gt_0_iff)
    moreover have "card (free_frames s - {unat f}) = card (free_frames s) - 1"
      using \<open>unat f \<in> free_frames s\<close> by simp
    moreover have "unat (available_frames s) = card (free_frames s)"
      using assms(1) by (simp add: pmm_core_def)
    ultimately show ?thesis
      using False free by (simp add: unat_minus_one flip: unat_gt_0)
  qed
  moreover have "bm_only s ?s'" by (rule bm_onlyI)
  ultimately show thesis
    using bs assms by (intro that [of ?s']) (simp_all add: pmm_core_def used_frames_def)
qed

lemma bm_clear_step:
  assumes "pmm_core s" "unat f < unat (frame_count s)"
  obtains s' where "bm_clear f s = Some s'" "pmm_core s'" "bm_only s s'"
    "used_frames s' = used_frames s - {unat f}"
proof -
  obtain bs where "bitmap_clear (bitmap_bytes s) f = Some bs"
    and bs: "length bs = length (bitmap_bytes s)" "bm_bits bs = used_frames s - {unat f}"
    "bm_clear f s = Some (s\<lparr>bitmap_bytes := bs, available_frames :=
       (if unat f \<in> used_frames s then available_frames s + 1 else available_frames s)\<rparr>)" (is "_ = Some ?s'")
    by (rule bm_clear_eq [OF bm_size_core [OF assms]])
  have free: "free_frames ?s' = insert (unat f) (free_frames s)"
    using bs(2) assms(2) by (auto simp: free_frames_def used_frames_def)
  have "unat (available_frames ?s') = card (free_frames ?s')"
  proof (cases "unat f \<in> used_frames s")
    case True
    then have "card (free_frames ?s') = card (free_frames s) + 1"
      unfolding free by (simp add: free_frames_def)
    moreover have "unat (available_frames s) \<le> 1048576"
      using card_free_frames [of s] assms(1) unfolding pmm_core_def by linarith
    then have "unat (available_frames s + 1) = unat (available_frames s) + 1"
      by (simp add: unat_word_ariths)
    ultimately show ?thesis using True assms(1) by (simp add: pmm_core_def)
  next
    case False
    with free assms show ?thesis by (simp add: pmm_core_def free_frames_def insert_absorb)
  qed
  moreover have "bm_only s ?s'" by (rule bm_onlyI)
  ultimately show thesis
    using bs assms by (intro that [of ?s']) (simp_all add: pmm_core_def used_frames_def)
qed


text \<open>The loops over a range of frames.\<close>

lemma unat_Suc_u32: "unat (f :: u32) < unat (n :: u32) \<Longrightarrow> unat (f + 1) = unat f + 1"
proof -
  assume "unat f < unat n"
  then have "unat f + 1 < 4294967296" using unat_u32_less [of n] by linarith
  then show ?thesis by (subst unat_add_u32) simp_all
qed

lemma bm_set_frames_step:
  assumes "pmm_core s" "unat f + n \<le> unat (frame_count s)"
  shows "\<exists>s'. bm_set_frames n f s = Some s' \<and> pmm_core s' \<and> bm_only s s' \<and>
    used_frames s' = used_frames s \<union> {unat f ..< unat f + n}"
  using assms
proof (induction n arbitrary: f s)
  case (Suc n)
  then have less: "unat f < unat (frame_count s)" by simp
  obtain s1 where s1: "bm_set f s = Some s1" "pmm_core s1" "bm_only s s1"
    "used_frames s1 = insert (unat f) (used_frames s)"
    by (rule bm_set_step [OF Suc.prems(1) less])
  moreover have "frame_count s1 = frame_count s" using s1(3) by (rule bm_onlyD)
  moreover have "unat (f + 1) = unat f + 1" using less by (rule unat_Suc_u32)
  ultimately obtain s2 where s2: "bm_set_frames n (f + 1) s1 = Some s2" "pmm_core s2" "bm_only s1 s2"
    "used_frames s2 = used_frames s1 \<union> {unat f + 1 ..< unat f + 1 + n}"
    using Suc.IH [of s1 "f + 1"] Suc.prems(2) by auto
  have "used_frames s2 = used_frames s \<union> {unat f ..< unat f + Suc n}"
    unfolding s2(4) s1(4) by auto
  with s1(1) s2(1,2) bm_only_trans [OF s1(3) s2(3)] show ?case by simp
qed simp

lemma bm_clear_frames_step:
  assumes "pmm_core s" "unat f + n \<le> unat (frame_count s)"
  shows "\<exists>s'. bm_clear_frames n f s = Some s' \<and> pmm_core s' \<and> bm_only s s' \<and>
    used_frames s' = used_frames s - {unat f ..< unat f + n}"
  using assms
proof (induction n arbitrary: f s)
  case (Suc n)
  then have less: "unat f < unat (frame_count s)" by simp
  obtain s1 where s1: "bm_clear f s = Some s1" "pmm_core s1" "bm_only s s1"
    "used_frames s1 = used_frames s - {unat f}"
    by (rule bm_clear_step [OF Suc.prems(1) less])
  moreover have "frame_count s1 = frame_count s" using s1(3) by (rule bm_onlyD)
  moreover have "unat (f + 1) = unat f + 1" using less by (rule unat_Suc_u32)
  ultimately obtain s2 where s2: "bm_clear_frames n (f + 1) s1 = Some s2" "pmm_core s2" "bm_only s1 s2"
    "used_frames s2 = used_frames s1 - {unat f + 1 ..< unat f + 1 + n}"
    using Suc.IH [of s1 "f + 1"] Suc.prems(2) by auto
  have "used_frames s2 = used_frames s - {unat f ..< unat f + Suc n}"
    unfolding s2(4) s1(4) by auto
  with s1(1) s2(1,2) bm_only_trans [OF s1(3) s2(3)] show ?case by simp
qed simp

text \<open>What a step on the bitmap does to the set of taken frames.\<close>

definition bm_step :: "'a pmm_scheme \<Rightarrow> nat set \<Rightarrow> 'a pmm_scheme \<Rightarrow> bool" where
  "bm_step s U s' \<longleftrightarrow> pmm_core s' \<and> bm_only s s' \<and> used_frames s' = U"

lemma bm_set_range_touched_step:
  assumes "pmm_core s"
  shows "\<exists>s'. bm_set_range_touched base len s = Some s' \<and>
    bm_step s (used_frames s \<union> touched base len \<inter> {..< unat (frame_count s)}) s'"
proof (cases "len = 0")
  case True
  with assms show ?thesis by (simp add: bm_set_range_touched_def bm_step_def touched_def)
next
  case False
  define start where "start = unat base div 4096"
  define fin where "fin = min ((unat base + unat len + 4095) div 4096) (unat (frame_count s))"
  have start: "unat (of_nat start :: u32) = start"
    unfolding start_def using unat_u32_less [of base] by (intro unat_of_nat_u32) linarith
  have eq: "bm_set_range_touched base len s = bm_set_frames (fin - start) (of_nat start) s"
    using False by (simp add: bm_set_range_touched_def start_def fin_def Let_def min_def)
  have T: "touched base len \<inter> {..< unat (frame_count s)} = {start ..< fin}"
    using False by (auto simp: touched_def start_def fin_def)
  show ?thesis
  proof (cases "start < fin")
    case True
    then have "start + (fin - start) \<le> unat (frame_count s)" by (simp add: fin_def)
    with bm_set_frames_step [OF assms, of "of_nat start" "fin - start"] start True
    show ?thesis unfolding eq T bm_step_def by auto
  next
    case False
    with assms show ?thesis unfolding eq T bm_step_def by auto
  qed
qed

lemma bm_clear_range_step:
  assumes "pmm_core s"
  shows "\<exists>s'. bm_clear_range_full_pages base len s = Some s' \<and>
    bm_step s (used_frames s - {(unat base + 4095) div 4096 ..<
       min ((unat base + unat len) div 4096) (unat (frame_count s))}) s'"
proof -
  define fs where "fs = (unat base + 4095) div 4096"
  define fe where "fe = min ((unat base + unat len) div 4096) (unat (frame_count s))"
  have small: "unat base + 4095 \<ge> unat base + unat len \<Longrightarrow> fe \<le> fs"
    unfolding fs_def fe_def by (simp add: div_le_mono min.coboundedI1)
  show ?thesis
  proof (cases "fs < fe")
    case True
    then have "\<not> unat len \<le> 4095" using small by auto
    then have "len \<ge> 4096" by (simp add: word_le_nat_alt)
    moreover have "fs < (unat base + unat len) div 4096" using True by (simp add: fe_def)
    ultimately have eq: "bm_clear_range_full_pages base len s = bm_clear_frames (fe - fs) (of_nat fs) s"
      by (simp add: bm_clear_range_full_pages_def Let_def fs_def fe_def min_def)
    have "fs < 1048576" using True assms by (simp add: fe_def pmm_core_def)
    then have "unat (of_nat fs :: u32) = fs" by (simp add: unat_of_nat_u32)
    moreover have "fs + (fe - fs) \<le> unat (frame_count s)" using True by (simp add: fe_def)
    ultimately show ?thesis
      using bm_clear_frames_step [OF assms, of "of_nat fs" "fe - fs"] True
      unfolding eq bm_step_def fs_def [symmetric] fe_def [symmetric] by auto
  next
    case False
    then have "bm_clear_range_full_pages base len s = Some s"
      by (auto simp: bm_clear_range_full_pages_def Let_def fs_def fe_def min_def split: if_splits)
    with False assms show ?thesis
      unfolding bm_step_def fs_def [symmetric] fe_def [symmetric] by auto
  qed
qed


section \<open>Initialisation establishes the invariant\<close>

lemma bm_step_refl: "pmm_core s \<Longrightarrow> bm_step s (used_frames s) s"
  by (simp add: bm_step_def)

lemma reserve_regions_step:
  "pmm_core s \<Longrightarrow> \<exists>s'. reserve_regions rs s = Some s' \<and>
     bm_step s (used_frames s \<union> reserved_frames rs \<inter> {..< unat (frame_count s)}) s'"
proof (induction rs arbitrary: s)
  case Nil
  then show ?case by (simp add: reserved_frames_def bm_step_def)
next
  case (Cons r rs)
  let ?T = "\<lambda>r. if live_region r then touched (mr_base r) (mr_length r) else {}"
  have R: "reserved_frames (r # rs) = ?T r \<union> reserved_frames rs"
    by (auto simp: reserved_frames_def)
  have "\<exists>s1. (if mr_type r = MEM_RESERVED then bm_set_range_touched (mr_base r) (mr_length r) s
      else Some s) = Some s1 \<and> bm_step s (used_frames s \<union> ?T r \<inter> {..< unat (frame_count s)}) s1"
    using bm_set_range_touched_step [OF Cons.prems, of "mr_base r" "mr_length r"] Cons.prems
    by (auto simp: bm_step_refl live_region_def touched_def)
  then obtain s1 where s1: "(if mr_type r = MEM_RESERVED
        then bm_set_range_touched (mr_base r) (mr_length r) s else Some s) = Some s1"
    and b1: "bm_step s (used_frames s \<union> ?T r \<inter> {..< unat (frame_count s)}) s1" by blast
  obtain s2 where s2: "reserve_regions rs s1 = Some s2"
    and b2: "bm_step s1 (used_frames s1 \<union> reserved_frames rs \<inter> {..< unat (frame_count s1)}) s2"
    using Cons.IH b1 unfolding bm_step_def by blast
  have fc: "frame_count s1 = frame_count s" using b1 bm_onlyD(1) unfolding bm_step_def by blast
  have "bm_step s (used_frames s \<union> reserved_frames (r # rs) \<inter> {..< unat (frame_count s)}) s2"
    using b1 b2 bm_only_trans unfolding bm_step_def R fc by blast
  then show ?case using s1 s2 by simp
qed

definition bitmap_loc :: "u32 \<Rightarrow> nat" where
  "bitmap_loc kend = (unat kend + 4095) div 4096 * 4096"

definition bitmap_len :: "u32 \<Rightarrow> nat" where
  "bitmap_len kib = (top_bytes kib div 4096 + 7) div 8"

lemma top_bytes_le: "top_bytes kib \<le> 4294967296"
  by (simp add: top_bytes_def Let_def)

lemma init_words:
  fixes fc :: u32
  assumes "fc = of_nat (top_bytes kib div 4096)"
  shows "unat fc = top_bytes kib div 4096" "unat (drop_bit 3 (fc + 7)) = bitmap_len kib"
    "unat fc \<le> 1048576"
proof -
  have le: "top_bytes kib div 4096 \<le> 1048576" using div_le_mono [OF top_bytes_le [of kib], of 4096] by simp
  show *: "unat fc = top_bytes kib div 4096" unfolding assms using le by (simp add: unat_of_nat_u32)
  with le have "unat (fc + 7) = unat fc + 7" by (subst unat_add_u32) simp_all
  with * show "unat (drop_bit 3 (fc + 7)) = bitmap_len kib" by (simp add: unat_page bitmap_len_def)
  show "unat fc \<le> 1048576" using * le by simp
qed

text \<open>The bitmap starts full; the megabyte above which memory is usable is frame 256.\<close>

definition init_frames :: "'a pmm_scheme \<Rightarrow> u32" where
  "init_frames s = of_nat (top_bytes (g_avail_memory_kib s) div 4096)"

definition init_full :: "'a pmm_scheme \<Rightarrow> 'a pmm_scheme" where
  "init_full s =
     (let size = drop_bit 3 (init_frames s + 7); loc = of_nat (bitmap_loc (kernel_end s))
      in s\<lparr>frame_count := init_frames s, pagebitmap_size_bytes := size, available_frames := 0,
           pagebitmap_phys := loc, pagebitmap := loc,
           bitmap_bytes := replicate (unat size) 0xFF\<rparr>)"

definition init_usable :: "'a pmm_scheme \<Rightarrow> 'a pmm_scheme option" where
  "init_usable s =
     (let top = top_bytes (g_avail_memory_kib s)
      in if top > 0x100000
         then let len = top - 0x100000
              in bm_clear_range_full_pages 0x100000
                   (of_nat (if len > 0xFFFFFFFF then 0xFFFFFFFF else len)) (init_full s)
         else Some (init_full s))"

lemma init_full_core:
  "pmm_core (init_full s)"
  "{..< unat (init_frames s)} \<subseteq> used_frames (init_full s)"
  "frame_count (init_full s) = init_frames s"
proof -
  note w = init_words [OF init_frames_def]
  have used: "used_frames (init_full s) = {..< 8 * unat (drop_bit 3 (init_frames s + 7))}"
    by (simp add: init_full_def Let_def used_frames_def bm_bits_ones)
  have "unat (init_frames s) \<le> 8 * unat (drop_bit 3 (init_frames s + 7))"
    unfolding w bitmap_len_def by linarith
  then show sub: "{..< unat (init_frames s)} \<subseteq> used_frames (init_full s)" unfolding used by auto
  show fc: "frame_count (init_full s) = init_frames s" by (simp add: init_full_def Let_def)
  have free: "free_frames (init_full s) = {}" using sub fc by (auto simp: free_frames_def)
  have "length (bitmap_bytes (init_full s)) = (unat (init_frames s) + 7) div 8"
    by (simp add: init_full_def Let_def w bitmap_len_def)
  moreover have "available_frames (init_full s) = 0" by (simp add: init_full_def Let_def)
  ultimately show "pmm_core (init_full s)" unfolding pmm_core_def fc free using w by simp
qed

lemma init_usable_step:
  "\<exists>s1. init_usable s = Some s1 \<and>
     bm_step (init_full s) (used_frames (init_full s) - {256 ..< unat (init_frames s)}) s1"
proof -
  define top where "top = top_bytes (g_avail_memory_kib s)"
  note w = init_words [OF init_frames_def [of s], folded top_def]
  show ?thesis
  proof (cases "top > 1048576")
    case True
    have le: "top - 1048576 \<le> 4293918720"
      using top_bytes_le [of "g_avail_memory_kib s"] by (simp add: top_def)
    then have "(1048576 + unat (of_nat (top - 1048576) :: u32)) div 4096 = unat (init_frames s)"
      unfolding w using True by (subst unat_of_nat_u32) simp_all
    then show ?thesis
      using True le bm_clear_range_step [OF init_full_core(1) [of s], of 1048576 "of_nat (top - 1048576)"]
      by (simp add: init_usable_def Let_def init_full_core top_def [symmetric])
  next
    case False
    then have "top div 4096 \<le> 256" using div_le_mono [of top 1048576 4096] by simp
    then have "{256 ..< unat (init_frames s)} = {}" using w(1) by simp
    with False show ?thesis
      by (simp add: init_usable_def Let_def bm_step_refl init_full_core top_def [symmetric])
  qed
qed

lemma pmm_init_eq:
  "pmm_init regions s =
     (if bitmap_loc (kernel_end s) + bitmap_len (g_avail_memory_kib s)
           > top_bytes (g_avail_memory_kib s) then None
      else do {
        s1 \<leftarrow> init_usable s;
        s2 \<leftarrow> reserve_regions regions s1;
        bm_set_range_touched (of_nat (bitmap_loc (kernel_end s)))
          (of_nat (bitmap_len (g_avail_memory_kib s))) s2 })"
proof -
  note w = init_words(2) [OF init_frames_def [of s]]
  have sz: "drop_bit 3 (init_frames s + 7) = of_nat (bitmap_len (g_avail_memory_kib s))"
    using w by (metis of_nat_unat ucast_id)
  show ?thesis
    unfolding pmm_init_def Let_def init_usable_def init_full_def bitmap_loc_def w sz
      init_frames_def [symmetric]
    by (simp add: w [unfolded sz])
qed

lemma bm_step_trans:
  "bm_step s U s' \<Longrightarrow> bm_step s' V s'' \<Longrightarrow> bm_step s V s''"
  unfolding bm_step_def using bm_only_trans by blast

lemma pmm_init_step:
  assumes fits: "bitmap_loc (kernel_end s) + bitmap_len (g_avail_memory_kib s)
      \<le> top_bytes (g_avail_memory_kib s)"
  shows "\<exists>s'. pmm_init regions s = Some s' \<and>
    bm_step (init_full s)
      (used_frames (init_full s) - {256 ..< unat (init_frames s)} \<union>
       (reserved_frames regions \<union> touched (of_nat (bitmap_loc (kernel_end s)))
         (of_nat (bitmap_len (g_avail_memory_kib s)))) \<inter> {..< unat (init_frames s)}) s'"
proof -
  let ?loc = "of_nat (bitmap_loc (kernel_end s)) :: u32"
    and ?size = "of_nat (bitmap_len (g_avail_memory_kib s)) :: u32"
  obtain s1 where s1: "init_usable s = Some s1"
    and b1: "bm_step (init_full s) (used_frames (init_full s) - {256 ..< unat (init_frames s)}) s1"
    using init_usable_step by blast
  obtain s2 where s2: "reserve_regions regions s1 = Some s2"
    and b2: "bm_step s1 (used_frames s1 \<union> reserved_frames regions \<inter> {..< unat (frame_count s1)}) s2"
    using reserve_regions_step b1 unfolding bm_step_def by blast
  obtain s3 where s3: "bm_set_range_touched ?loc ?size s2 = Some s3"
    and b3: "bm_step s2 (used_frames s2 \<union> touched ?loc ?size \<inter> {..< unat (frame_count s2)}) s3"
    using bm_set_range_touched_step b2 unfolding bm_step_def by blast
  have fc: "frame_count s1 = init_frames s" "frame_count s2 = init_frames s"
    using b1 b2 bm_onlyD(1) init_full_core(3) unfolding bm_step_def by metis+
  have "pmm_init regions s = Some s3"
    using fits s1 s2 s3 by (simp add: pmm_init_eq)
  moreover have "used_frames s3 = used_frames (init_full s) - {256 ..< unat (init_frames s)} \<union>
       (reserved_frames regions \<union> touched ?loc ?size) \<inter> {..< unat (init_frames s)}"
    using b1 b2 b3 unfolding bm_step_def fc by auto
  ultimately show ?thesis
    using bm_step_trans [OF bm_step_trans [OF b1 b2] b3] unfolding bm_step_def by blast
qed


section \<open>Queries\<close>

lemma find_overlap_iff:
  "find_overlap a e rs \<noteq> None \<longleftrightarrow>
   (\<exists>r \<in> set rs. live_region r \<and> a < unat (mr_base r) + unat (mr_length r) \<and> unat (mr_base r) < e)"
  by (induction rs) (auto simp: live_region_def)

lemma find_overlap_Some:
  "find_overlap a e rs = Some r \<Longrightarrow> r \<in> set rs \<and> live_region r"
  by (induction rs) (auto simp: live_region_def split: if_splits)

lemma touched_iff:
  assumes "len \<noteq> 0"
  shows "f \<in> touched base len \<longleftrightarrow> f * 4096 < unat base + unat len \<and> unat base < f * 4096 + 4096"
proof -
  have "unat base div 4096 \<le> f \<longleftrightarrow> unat base < f * 4096 + 4096"
    using div_less_iff_less_mult [of 4096 "unat base" "Suc f"] by auto
  moreover have "f < (n + 4095) div 4096 \<longleftrightarrow> f * 4096 < n" for n :: nat
    using less_eq_div_iff_mult_less_eq [of 4096 "Suc f" "n + 4095"] by auto
  ultimately show ?thesis using assms by (auto simp: touched_def)
qed

lemma frame_reserved_iff:
  assumes "unat f < 1048576"
  shows "pmm_is_region_reserved (push_bit 12 f) 4096 s \<longleftrightarrow> unat f \<in> reserved_frames (mem_regions s)"
proof -
  have "find_overlap (unat f * 4096) (unat f * 4096 + 4096) (mem_regions s) \<noteq> None \<longleftrightarrow>
      unat f \<in> reserved_frames (mem_regions s)"
    unfolding find_overlap_iff reserved_frames_def
    by (auto simp: touched_iff live_region_def)
  with assms show ?thesis by (simp add: pmm_is_region_reserved_def unat_page)
qed

lemma frame_query:
  assumes "pmm_core s" "unat f < unat (frame_count s)"
  shows "pmm_query_bitmap (push_bit 12 f) s = Some (unat f \<in> used_frames s)"
proof -
  have "unat f < 1048576" using assms by (simp add: pmm_core_def)
  then have "drop_bit 12 (push_bit 12 f) = f" "(push_bit 12 f) mod 4096 = 0"
    by (simp_all add: u32_eq_iff unat_mod_u32 unat_page)
  with assms show ?thesis
    by (simp add: pmm_query_bitmap_def word_le_nat_alt bitmap_test_in bm_size_core used_frames_def)
qed


section \<open>The circular search\<close>

lemma next_frame_unat:
  assumes "unat f < unat (frame_count s)"
  shows "unat (next_frame s f) = (unat f + 1) mod unat (frame_count s)"
proof (cases "unat f + 1 = unat (frame_count s)")
  case True
  with unat_Suc_u32 [OF assms] show ?thesis by (simp add: next_frame_def word_le_nat_alt)
next
  case False
  with assms unat_Suc_u32 [OF assms] show ?thesis by (simp add: next_frame_def word_le_nat_alt)
qed

lemma frame_bit:
  assumes "pmm_core s" "unat f < unat (frame_count s)"
  shows "bm_byte (bitmap_bytes s) f = Some (bitmap_bytes s ! (unat f div 8))"
    "bitmap_bytes s ! (unat f div 8) AND bm_mask f = 0 \<longleftrightarrow> unat f \<in> free_frames s"
    "bitmap_bytes s ! (unat f div 8) = 0 \<Longrightarrow> unat f \<in> free_frames s"
proof -
  have lt: "unat f < bm_size (bitmap_bytes s)" using bm_size_core [OF assms] .
  then show "bm_byte (bitmap_bytes s) f = Some (bitmap_bytes s ! (unat f div 8))" by (rule bm_byte_in)
  show *: "bitmap_bytes s ! (unat f div 8) AND bm_mask f = 0 \<longleftrightarrow> unat f \<in> free_frames s"
    using lt assms(2) and_bm_mask_iff [of "bitmap_bytes s ! (unat f div 8)" f]
    by (auto simp: free_frames_def used_frames_def bm_bits_def bm_size_def)
  show "unat f \<in> free_frames s" if "bitmap_bytes s ! (unat f div 8) = 0"
    using * that by simp
qed

text \<open>Both searches reduce to a test for a free frame; the byte shortcut changes nothing.\<close>

lemma next_block_scan_Suc:
  assumes "pmm_inv s" "unat f < unat (frame_count s)"
  shows "next_block_scan (Suc n) f s =
    (if unat f \<in> free_frames s then take_frame f s else next_block_scan n (next_frame s f) s)"
proof -
  have core: "pmm_core s" and "unat f < 1048576" using assms by (auto simp: pmm_inv_def pmm_core_def)
  moreover have "unat f \<in> free_frames s \<Longrightarrow> unat f \<notin> reserved_frames (mem_regions s)"
    using assms(1) by (auto simp: pmm_inv_def)
  ultimately show ?thesis
    using frame_bit [OF core assms(2)] by (auto simp: frame_reserved_iff)
qed

lemma alloc_scan_Suc:
  assumes "pmm_inv s" "unat f < unat (frame_count s)"
  shows "alloc_scan (Suc n) f s =
    (if unat f \<in> free_frames s then take_frame f s else alloc_scan n (next_frame s f) s)"
proof -
  have core: "pmm_core s" using assms by (simp add: pmm_inv_def)
  show ?thesis using frame_bit [OF core assms(2)] by auto
qed

text \<open>The search without the effects: the first free frame among the next \<open>n\<close>.\<close>

primrec scan_free :: "nat \<Rightarrow> u32 \<Rightarrow> 'a pmm_scheme \<Rightarrow> u32 option" where
  "scan_free 0 f s = None"
| "scan_free (Suc n) f s = (if unat f \<in> free_frames s then Some f else scan_free n (next_frame s f) s)"

definition take_found :: "u32 option \<Rightarrow> 'a pmm_scheme \<Rightarrow> ((u32 \<times> pmm_alloc_result) \<times> 'a pmm_scheme) option" where
  "take_found g s = (case g of None \<Rightarrow> Some ((0, PMM_ALLOC_OOM), s) | Some f \<Rightarrow> take_frame f s)"

lemma next_frame_less: "unat f < unat (frame_count s) \<Longrightarrow> unat (next_frame s f) < unat (frame_count s)"
  by (simp add: next_frame_unat)

lemma scans_eq:
  assumes "pmm_inv s" "unat f < unat (frame_count s)"
  shows "next_block_scan n f s = take_found (scan_free n f s) s"
    and "alloc_scan n f s = take_found (scan_free n f s) s"
  using assms(2)
proof (induction n arbitrary: f)
  case (Suc n)
  { case 1
    with Suc.IH(1) [OF next_frame_less] show ?case
      unfolding next_block_scan_Suc [OF assms(1) 1] by (simp add: take_found_def)
  next
    case 2
    with Suc.IH(2) [OF next_frame_less] show ?case
      unfolding alloc_scan_Suc [OF assms(1) 2] by (simp add: take_found_def) }
qed (simp_all add: take_found_def)

lemma scan_free_none: "free_frames s = {} \<Longrightarrow> scan_free n f s = None"
  by (induction n arbitrary: f) simp_all

lemma scan_free_first:
  assumes "unat f < unat (frame_count s)" "k < n"
    and "\<And>j. j < k \<Longrightarrow> (unat f + j) mod unat (frame_count s) \<notin> free_frames s"
    and "(unat f + k) mod unat (frame_count s) \<in> free_frames s"
  shows "scan_free n f s = Some (of_nat ((unat f + k) mod unat (frame_count s)))"
  using assms
proof (induction n arbitrary: f k)
  case (Suc n)
  have nf: "unat (next_frame s f) = (unat f + 1) mod unat (frame_count s)"
    using Suc.prems(1) by (rule next_frame_unat)
  show ?case
  proof (cases k)
    case 0
    with Suc.prems show ?thesis by simp
  next
    case (Suc k')
    have rot: "(unat (next_frame s f) + j) mod unat (frame_count s) =
        (unat f + Suc j) mod unat (frame_count s)" for j
      unfolding nf by (simp add: mod_simps)
    have "unat f \<notin> free_frames s" using Suc.prems(3) [of 0] Suc Suc.prems(1) by simp
    moreover have "scan_free n (next_frame s f) s =
        Some (of_nat ((unat (next_frame s f) + k') mod unat (frame_count s)))"
    proof (rule Suc.IH [OF next_frame_less [OF Suc.prems(1)]])
      show "(unat (next_frame s f) + j) mod unat (frame_count s) \<notin> free_frames s" if "j < k'" for j
        unfolding rot using Suc.prems(3) [of "Suc j"] Suc that by simp
    qed (use Suc Suc.prems(2,4) in \<open>simp_all add: rot\<close>)
    ultimately show ?thesis unfolding rot using Suc by simp
  qed
qed simp


section \<open>The frame allocator\<close>

lemma pmm_onlyE:
  assumes "pmm_only s s'"
  obtains b a h where "s' = s\<lparr>bitmap_bytes := b, available_frames := a, frame_hint := h\<rparr>"
  using assms unfolding pmm_only_def by blast

lemma pmm_only_refl [simp]: "pmm_only s s"
  by (simp add: pmm_only_def)

lemma pmm_only_trans: "pmm_only s s' \<Longrightarrow> pmm_only s' s'' \<Longrightarrow> pmm_only s s''"
  by (elim pmm_onlyE) (auto simp: pmm_only_def)

lemma pmm_onlyD:
  assumes "pmm_only s s'"
  shows "frame_count s' = frame_count s" "pagebitmap s' = pagebitmap s"
    "mem_regions s' = mem_regions s" "mem s' = mem s"
    "use_phys_window_alias s' = use_phys_window_alias s"
  by (rule pmm_onlyE [OF assms], simp)+

lemma bm_only_hint: "bm_only s s' \<Longrightarrow> pmm_only s (s'\<lparr>frame_hint := h\<rparr>)"
  by (elim bm_onlyE) (auto simp: pmm_only_def)

lemma inv_frame_small: "pmm_inv s \<Longrightarrow> n < unat (frame_count s) \<Longrightarrow> n < 1048576"
  by (simp add: pmm_inv_def pmm_core_def)

lemma take_frame_step:
  assumes "pmm_inv s" "unat f \<in> free_frames s"
  obtains s' where "take_frame f s = Some ((push_bit 12 f, PMM_ALLOC_SUCCESS), s')"
    "pmm_inv s'" "pmm_only s s'" "free_frames s' = free_frames s - {unat f}"
    "unat (frame_hint s') = (unat f + 1) mod unat (frame_count s)"
proof -
  have core: "pmm_core s" using assms(1) by (simp add: pmm_inv_def)
  have lt: "unat f < unat (frame_count s)" using assms(2) by (simp add: free_frames_def)
  obtain s1 where s1: "bm_set f s = Some s1" "pmm_core s1" "bm_only s s1"
    "used_frames s1 = insert (unat f) (used_frames s)"
    by (rule bm_set_step [OF core lt])
  note same = bm_onlyD [OF s1(3)]
  define s' where "s' = s1\<lparr>frame_hint := (f + 1) mod frame_count s1\<rparr>"
  have hint: "unat (frame_hint s') = (unat f + 1) mod unat (frame_count s)"
    unfolding s'_def by (simp add: unat_mod_u32 unat_Suc_u32 [OF lt] same)
  have free: "free_frames s' = free_frames s - {unat f}"
    using s1(4) same by (auto simp: s'_def free_frames_def used_frames_def)
  have core': "pmm_core s'"
    using s1(2) by (simp add: pmm_core_def s'_def free_frames_def used_frames_def)
  have "frame_hint s' < frame_count s'"
    using hint lt by (simp add: word_less_nat_alt s'_def same)
  with assms(1) core' free have "pmm_inv s'"
    by (auto simp: pmm_inv_def s'_def same)
  moreover have "pmm_only s s'" unfolding s'_def using s1(3) by (rule bm_only_hint)
  ultimately show thesis
    using s1(1) hint free by (intro that [of s']) (simp_all add: take_frame_def s'_def)
qed

text \<open>The frames in the order the search visits them, and the first free one.\<close>

definition visit :: "'a pmm_scheme \<Rightarrow> nat \<Rightarrow> nat" where
  "visit s k = (unat (frame_hint s) + k) mod unat (frame_count s)"

lemma visit_all:
  assumes "frame_hint s < frame_count s" "f < unat (frame_count s)"
  obtains k where "k < unat (frame_count s)" "visit s k = f"
proof
  let ?n = "unat (frame_count s)" and ?h = "unat (frame_hint s)"
  let ?k = "(f + ?n - ?h) mod ?n"
  show "?k < ?n" using assms(2) by simp
  have "(?h + ?k) mod ?n = (?h + (f + ?n - ?h)) mod ?n" by (simp add: mod_simps)
  also have "?h + (f + ?n - ?h) = f + ?n" using assms(1) by (simp add: word_less_nat_alt)
  finally show "visit s ?k = f" using assms(2) by (simp add: visit_def)
qed

lemma first_free:
  assumes "pmm_inv s" "free_frames s \<noteq> {}"
  obtains k where "k < unat (frame_count s)" "visit s k \<in> free_frames s"
    "\<And>j. j < k \<Longrightarrow> visit s j \<notin> free_frames s"
proof -
  from assms(2) obtain f where "f \<in> free_frames s" by blast
  moreover have hint: "frame_hint s < frame_count s" using assms(1) by (simp add: pmm_inv_def)
  ultimately obtain k where k: "k < unat (frame_count s)" "visit s k \<in> free_frames s"
    using visit_all [OF hint, of f] by (auto simp: free_frames_def)
  define m where "m = (LEAST k. visit s k \<in> free_frames s)"
  have "visit s m \<in> free_frames s" "m \<le> k"
    unfolding m_def using k(2) by (auto intro: LeastI Least_le)
  moreover have "visit s j \<notin> free_frames s" if "j < m" for j
    using that unfolding m_def by (rule not_less_Least)
  ultimately show thesis using k(1) by (intro that [of m]) auto
qed

text \<open>The allocator as the clients see it: the first free frame in search order, or no memory.\<close>

lemma inv_ready:
  assumes "pmm_inv s"
  shows "unat (frame_hint s) < unat (frame_count s)" "frame_count s \<noteq> 0" "pagebitmap s \<noteq> 0"
  using assms by (auto simp: pmm_inv_def word_less_nat_alt)

lemma get_next_oom:
  assumes "pmm_inv s" "free_frames s = {}"
  shows "pmm_get_next_available_block s = Some ((0, PMM_ALLOC_OOM), s)"
  using inv_ready [OF assms(1)] assms
  by (simp add: pmm_get_next_available_block_def scans_eq scan_free_none take_found_def)

lemma get_next_first:
  assumes "pmm_inv s" "k < unat (frame_count s)" "visit s k \<in> free_frames s"
    "\<And>j. j < k \<Longrightarrow> visit s j \<notin> free_frames s"
  shows "scan_free (unat (frame_count s)) (frame_hint s) s = Some (of_nat (visit s k))"
    "pmm_get_next_available_block s = take_frame (of_nat (visit s k)) s"
proof -
  note ready = inv_ready [OF assms(1)]
  show *: "scan_free (unat (frame_count s)) (frame_hint s) s = Some (of_nat (visit s k))"
    using scan_free_first [OF ready(1) assms(2)] assms(3,4) by (simp add: visit_def)
  show "pmm_get_next_available_block s = take_frame (of_nat (visit s k)) s"
    using ready * by (simp add: pmm_get_next_available_block_def scans_eq [OF assms(1)] take_found_def)
qed

lemma get_next_some:
  assumes "pmm_inv s" "free_frames s \<noteq> {}"
  obtains f s' where
    "pmm_get_next_available_block s = Some ((push_bit 12 f, PMM_ALLOC_SUCCESS), s')"
    "unat f \<in> free_frames s" "free_frames s' = free_frames s - {unat f}" "pmm_inv s'" "pmm_only s s'"
proof -
  obtain k where k: "k < unat (frame_count s)" "visit s k \<in> free_frames s"
    "\<And>j. j < k \<Longrightarrow> visit s j \<notin> free_frames s"
    using first_free [OF assms] by metis
  define f :: u32 where "f = of_nat (visit s k)"
  have "visit s k < 1048576"
    using k(2) inv_frame_small [OF assms(1)] by (simp add: free_frames_def)
  then have f: "unat f = visit s k" by (simp add: f_def unat_of_nat_u32)
  then have "unat f \<in> free_frames s" using k(2) by simp
  from take_frame_step [OF assms(1) this] this get_next_first(2) [OF assms(1) k] show thesis
    using that unfolding f_def by metis
qed


text \<open>Frames a client may give back: taken, and not in a reserved region.\<close>

definition owned_frames :: "'a pmm_scheme \<Rightarrow> nat set" where
  "owned_frames s = ({..< unat (frame_count s)} \<inter> used_frames s) - reserved_frames (mem_regions s)"

lemma owned_diff_free:
  assumes "pmm_inv s"
  shows "owned_frames s = {..< unat (frame_count s)} - reserved_frames (mem_regions s) - free_frames s"
  by (auto simp: owned_frames_def free_frames_def)

lemma dealloc_step:
  assumes "pmm_inv s" "unat f \<in> owned_frames s"
  obtains s' where "pmm_dealloc_specific_block (push_bit 12 f) s = Some (PMM_ALLOC_SUCCESS, s')"
    "pmm_inv s'" "pmm_only s s'" "free_frames s' = insert (unat f) (free_frames s)" "frame_hint s' = f"
proof -
  have lt: "unat f < unat (frame_count s)" using assms(2) by (simp add: owned_frames_def)
  have core: "pmm_core s" using assms(1) by (simp add: pmm_inv_def)
  define s1 where "s1 = s\<lparr>frame_hint := f\<rparr>"
  have core1: "pmm_core s1" and lt1: "unat f < unat (frame_count s1)"
    using core lt by (simp_all add: s1_def pmm_core_def free_frames_def used_frames_def)
  obtain s' where s': "bm_clear f s1 = Some s'" "pmm_core s'" "bm_only s1 s'"
    "used_frames s' = used_frames s1 - {unat f}"
    by (rule bm_clear_step [OF core1 lt1])
  note same = bm_onlyD [OF s'(3)]
  have small: "unat f < 1048576" using inv_frame_small [OF assms(1) lt] .
  have free: "free_frames s' = insert (unat f) (free_frames s)"
    using s'(4) lt same by (auto simp: free_frames_def s1_def used_frames_def)
  have hint: "frame_hint s' = f" using same by (simp add: s1_def)
  have "pmm_inv s'"
    using assms s'(2) free same lt
    by (auto simp: pmm_inv_def s1_def owned_frames_def word_less_nat_alt)
  moreover have "pmm_only s s'"
    using s'(3) unfolding s1_def by (elim bm_onlyE) (simp add: pmm_only_def)
  moreover have "pmm_dealloc_specific_block (push_bit 12 f) s = Some (PMM_ALLOC_SUCCESS, s')"
  proof -
    have "(push_bit 12 f) mod 4096 = 0"
      using small by (simp add: u32_eq_iff unat_mod_u32 unat_page)
    moreover have "frame_count s \<noteq> 0" "pagebitmap s \<noteq> 0" "\<not> frame_count s \<le> f"
      using assms(1) lt by (auto simp: pmm_inv_def word_le_nat_alt)
    moreover have "\<not> pmm_is_region_reserved (push_bit 12 f) 4096 s"
      using assms(2) small by (simp add: frame_reserved_iff owned_frames_def)
    moreover have "pmm_query_bitmap (push_bit 12 f) s = Some True"
      using frame_query [OF core lt] assms(2) by (simp add: owned_frames_def)
    ultimately show ?thesis
      using s'(1) small by (simp add: pmm_dealloc_specific_block_def Let_def s1_def)
  qed
  ultimately show thesis using free hint by (intro that [of s'])
qed

section \<open>The interface of a frame allocator\<close>

text \<open>
  Everything above the physical memory manager takes frames with one call and gives them back with
  another. The contract names the free frames and the frames that are out and may come back.
\<close>

primrec alloc_many ::
  "('s \<Rightarrow> ((u32 \<times> pmm_alloc_result) \<times> 's) option) \<Rightarrow> nat \<Rightarrow> 's \<Rightarrow> (u32 list \<times> 's) option" where
  "alloc_many alloc 0 s = Some ([], s)"
| "alloc_many alloc (Suc n) s = do {
     ((p, r), s) \<leftarrow> alloc s;
     (ps, s) \<leftarrow> alloc_many alloc n s;
     Some (p # ps, s) }"

primrec dealloc_many ::
  "(u32 \<Rightarrow> 's \<Rightarrow> (pmm_alloc_result \<times> 's) option) \<Rightarrow> u32 list \<Rightarrow> 's \<Rightarrow> 's option" where
  "dealloc_many dealloc [] s = Some s"
| "dealloc_many dealloc (p # ps) s = do { (r, s) \<leftarrow> dealloc p s; dealloc_many dealloc ps s }"

locale frame_allocator =
  fixes alloc :: "'s \<Rightarrow> ((u32 \<times> pmm_alloc_result) \<times> 's) option"
    and dealloc :: "u32 \<Rightarrow> 's \<Rightarrow> (pmm_alloc_result \<times> 's) option"
    and inv :: "'s \<Rightarrow> bool"
    and free :: "'s \<Rightarrow> nat set"
    and owned :: "'s \<Rightarrow> nat set"
  assumes alloc_ok: "inv s \<Longrightarrow> free s \<noteq> {} \<Longrightarrow>
      \<exists>f s'. alloc s = Some ((push_bit 12 f, PMM_ALLOC_SUCCESS), s') \<and> unat f \<in> free s \<and>
        free s' = free s - {unat f} \<and> owned s' = insert (unat f) (owned s) \<and> inv s'"
    and alloc_none: "inv s \<Longrightarrow> free s = {} \<Longrightarrow> alloc s = Some ((0, PMM_ALLOC_OOM), s)"
    and dealloc_ok: "inv s \<Longrightarrow> unat f \<in> owned s \<Longrightarrow>
      \<exists>s'. dealloc (push_bit 12 f) s = Some (PMM_ALLOC_SUCCESS, s') \<and>
        free s' = insert (unat f) (free s) \<and> owned s' = owned s - {unat f} \<and> inv s'"
    and free_finite: "finite (free s)"
    and free_small: "inv s \<Longrightarrow> k \<in> free s \<Longrightarrow> k < 1048576"
begin

lemma many_allocated:
  "inv s \<Longrightarrow> n \<le> card (free s) \<Longrightarrow>
   \<exists>fs s'. alloc_many alloc n s = Some (map (push_bit 12) fs, s') \<and> length fs = n \<and>
     distinct fs \<and> unat ` set fs \<subseteq> free s \<and> free s' = free s - unat ` set fs \<and>
     owned s' = owned s \<union> unat ` set fs \<and> inv s'"
proof (induction n arbitrary: s)
  case 0
  then show ?case by simp
next
  case (Suc n)
  then have "free s \<noteq> {}" by auto
  with alloc_ok [OF Suc.prems(1)] obtain f s1 where
    a: "alloc s = Some ((push_bit 12 f, PMM_ALLOC_SUCCESS), s1)" "unat f \<in> free s"
      "free s1 = free s - {unat f}" "owned s1 = insert (unat f) (owned s)" "inv s1" by blast
  have le: "n \<le> card (free s1)" using Suc.prems(2) a(2,3) free_finite by simp
  from Suc.IH [OF a(5) le] obtain fs s' where
    b: "alloc_many alloc n s1 = Some (map (push_bit 12) fs, s')" "length fs = n" "distinct fs"
      "unat ` set fs \<subseteq> free s1" "free s' = free s1 - unat ` set fs"
      "owned s' = owned s1 \<union> unat ` set fs" "inv s'" by (elim exE conjE) (rule that)
  have "f \<notin> set fs" using a(3) b(4) by auto
  then have "alloc_many alloc (Suc n) s = Some (map (push_bit 12) (f # fs), s')"
    "length (f # fs) = Suc n" "distinct (f # fs)" "unat ` set (f # fs) \<subseteq> free s"
    "free s' = free s - unat ` set (f # fs)" "owned s' = owned s \<union> unat ` set (f # fs)"
    using a b by auto
  with b(7) show ?case by (intro exI conjI)
qed

lemma many_returned:
  "inv s \<Longrightarrow> distinct fs \<Longrightarrow> unat ` set fs \<subseteq> owned s \<Longrightarrow>
   \<exists>s'. dealloc_many dealloc (map (push_bit 12) fs) s = Some s' \<and> inv s' \<and>
     free s' = free s \<union> unat ` set fs \<and> owned s' = owned s - unat ` set fs"
proof (induction fs arbitrary: s)
  case (Cons f fs)
  from dealloc_ok [OF Cons.prems(1), of f] Cons.prems(3) obtain s1 where
    a: "dealloc (push_bit 12 f) s = Some (PMM_ALLOC_SUCCESS, s1)"
      "free s1 = insert (unat f) (free s)" "owned s1 = owned s - {unat f}" "inv s1"
    by auto
  have "unat ` set fs \<subseteq> owned s1"
    using Cons.prems(2,3) a(3) by (auto simp flip: u32_eq_iff)
  with Cons.IH [OF a(4)] Cons.prems(2) obtain s' where
    "dealloc_many dealloc (map (push_bit 12) fs) s1 = Some s'" "inv s'"
    "free s' = free s1 \<union> unat ` set fs" "owned s' = owned s1 - unat ` set fs" by auto
  with a show ?case by auto
qed simp

text \<open>Any number of frames that are free can be taken, all different, and given back.\<close>

lemma take_and_return:
  assumes "inv s" "n \<le> card (free s)"
  shows "\<exists>ps s' s''. alloc_many alloc n s = Some (ps, s') \<and> length ps = n \<and> distinct ps \<and>
    dealloc_many dealloc ps s' = Some s'' \<and> inv s'' \<and> free s'' = free s"
proof -
  obtain fs s' where a: "alloc_many alloc n s = Some (map (push_bit 12) fs, s')" "length fs = n"
    "distinct fs" "unat ` set fs \<subseteq> free s" "free s' = free s - unat ` set fs"
    "owned s' = owned s \<union> unat ` set fs" "inv s'"
    using many_allocated [OF assms] by (elim exE conjE) (rule that)
  then have own: "unat ` set fs \<subseteq> owned s'" by simp
  from many_returned [OF a(7,3) own] obtain s'' where
    "dealloc_many dealloc (map (push_bit 12) fs) s' = Some s''" "inv s''"
    "free s'' = free s' \<union> unat ` set fs" by (elim exE conjE) (rule that)
  moreover have "inj_on (push_bit 12) (set fs)"
  proof (rule inj_onI)
    fix x y assume *: "x \<in> set fs" "y \<in> set fs" "push_bit 12 x = push_bit 12 y"
    then have "unat x < 1048576" "unat y < 1048576" using a(4) free_small [OF assms(1)] by auto
    with *(3) show "x = y" by (metis drop_push12)
  qed
  ultimately show ?thesis
    using a by (intro exI [of _ "map (push_bit 12) fs"]) (auto simp: distinct_map)
qed

end

interpretation pmm_fa: frame_allocator pmm_get_next_available_block pmm_dealloc_specific_block
  pmm_inv free_frames owned_frames
proof unfold_locales
  fix s :: "'a pmm_scheme" assume inv: "pmm_inv s"
  show "\<exists>f s'. pmm_get_next_available_block s = Some ((push_bit 12 f, PMM_ALLOC_SUCCESS), s') \<and>
      unat f \<in> free_frames s \<and> free_frames s' = free_frames s - {unat f} \<and>
      owned_frames s' = insert (unat f) (owned_frames s) \<and> pmm_inv s'" if ne: "free_frames s \<noteq> {}"
  proof -
    obtain f s' where f: "pmm_get_next_available_block s = Some ((push_bit 12 f, PMM_ALLOC_SUCCESS), s')"
      "unat f \<in> free_frames s" "free_frames s' = free_frames s - {unat f}" "pmm_inv s'" "pmm_only s s'"
      by (rule get_next_some [OF inv ne])
    moreover have "unat f \<notin> reserved_frames (mem_regions s)" "unat f < unat (frame_count s)"
      using f(2) inv by (auto simp: pmm_inv_def free_frames_def)
    ultimately have "owned_frames s' = insert (unat f) (owned_frames s)"
      unfolding owned_diff_free [OF inv] owned_diff_free [OF f(4)] pmm_onlyD [OF f(5)] by auto
    with f show ?thesis by blast
  qed
  show "pmm_get_next_available_block s = Some ((0, PMM_ALLOC_OOM), s)" if "free_frames s = {}"
    using inv that by (rule get_next_oom)
  fix f :: u32 assume own: "unat f \<in> owned_frames s"
  show "\<exists>s'. pmm_dealloc_specific_block (push_bit 12 f) s = Some (PMM_ALLOC_SUCCESS, s') \<and>
      free_frames s' = insert (unat f) (free_frames s) \<and>
      owned_frames s' = owned_frames s - {unat f} \<and> pmm_inv s'"
  proof -
    obtain s' where s': "pmm_dealloc_specific_block (push_bit 12 f) s = Some (PMM_ALLOC_SUCCESS, s')"
      "pmm_inv s'" "pmm_only s s'" "free_frames s' = insert (unat f) (free_frames s)"
      by (rule dealloc_step [OF inv own]) blast
    then have "owned_frames s' = owned_frames s - {unat f}"
      unfolding owned_diff_free [OF inv] owned_diff_free [OF s'(2)] pmm_onlyD [OF s'(3)] by auto
    with s' show ?thesis by blast
  qed
next
  show "finite (free_frames s)" for s :: "'a pmm_scheme" by simp
  show "k < 1048576" if "pmm_inv s" "k \<in> free_frames s" for s :: "'a pmm_scheme" and k
    using inv_frame_small that by (auto simp: free_frames_def)
qed


section \<open>Properties\<close>

text \<open>A concrete manager of 16 frames: the last four are free, the search starts at frame 10.\<close>

definition ex_pmm :: pmm where
  "ex_pmm =
     \<lparr>mem = (\<lambda>_. 0), cr3 = 0, cs_reg = 8, kernel_start = 0x100000, kernel_end = 0x110000,
      g_avail_memory_kib = 2048, g_memory_method = USE_E801, g_e820_descs = [],
      g_bootinfo_validated = True, g_kernel_phys_address = 0x100000, g_kernel_size_bytes = 0x10000,
      g_kparams_phys_address = 0, g_kparams_size_bytes = 0,
      pagebitmap = 0x9000, pagebitmap_phys = 0x9000, pagebitmap_size_bytes = 2, frame_count = 16,
      frame_hint = 10, available_frames = 4, use_phys_window_alias = False,
      bitmap_bytes = [0xFF, 0x0F],
      mem_regions = [\<lparr>mr_base = 0, mr_length = 0x8000, mr_type = MEM_RESERVED\<rparr>]\<rparr>"

lemma bm_bits_list: "bm_bits bs = set (filter (\<lambda>i. bit (bs ! (i div 8)) (i mod 8)) [0..<8 * length bs])"
  by (auto simp: bm_bits_def)

lemma ex_pmm_used: "used_frames ex_pmm = {..<12}"
proof -
  have "filter (\<lambda>i. bit ([0xFF, 0x0F :: u8] ! (i div 8)) (i mod 8)) [0..<16] = [0..<12]"
    by code_simp
  then show ?thesis by (auto simp: ex_pmm_def used_frames_def bm_bits_list)
qed

lemma ex_pmm_free: "free_frames ex_pmm = {12..<16}"
  unfolding free_frames_def ex_pmm_used by (auto simp: ex_pmm_def)

lemma reserved_frames_Nil [simp]: "reserved_frames [] = {}"
  by (simp add: reserved_frames_def)

lemma reserved_frames_Cons [simp]:
  "reserved_frames (r # rs) =
     (if live_region r then touched (mr_base r) (mr_length r) else {}) \<union> reserved_frames rs"
  by (auto simp: reserved_frames_def)

lemma ex_pmm_reserved: "reserved_frames (mem_regions ex_pmm) = {..<8}"
  by (auto simp: ex_pmm_def live_region_def touched_def)

lemma ex_pmm_inv: "pmm_inv ex_pmm"
  unfolding pmm_inv_def pmm_core_def ex_pmm_free ex_pmm_reserved
  by (auto simp: ex_pmm_def MEM_REGIONS_MAX_def)

lemma ex_pmm_first:
  assumes "visit ex_pmm k \<in> free_frames ex_pmm" "\<forall>j. j < k \<longrightarrow> visit ex_pmm j \<notin> free_frames ex_pmm"
  shows "visit ex_pmm k = 12"
proof -
  have v: "visit ex_pmm k = (10 + k) mod 16" for k by (simp add: visit_def ex_pmm_def)
  have "\<not> 2 < k" using assms(2) [rule_format, of 2] by (auto simp: v ex_pmm_free)
  moreover have "k \<noteq> 0" "k \<noteq> 1" using assms(1) by (auto simp: v ex_pmm_free)
  ultimately have "k = 2" by linarith
  then show ?thesis by (simp add: v)
qed

text \<open>
  (C5) Initialisation. If the bitmap fits between the kernel image and the top of memory, and memory
  extends beyond the frame the search starts at, \<^verbatim>\<open>pmm_init\<close> over the table of reserved regions
  succeeds, establishes the invariant, and leaves free exactly the frames above 1 MiB that no reserved
  region and no part of the bitmap touches.
\<close>

theorem pmm_init_establishes:
  assumes "bitmap_loc (kernel_end s) + bitmap_len (g_avail_memory_kib s) \<le> top_bytes (g_avail_memory_kib s)"
    and "kernel_end s \<noteq> 0"
    and "unat (frame_hint s) < top_bytes (g_avail_memory_kib s) div 4096"
    and "length (mem_regions s) \<le> MEM_REGIONS_MAX"
  shows "\<exists>s'. pmm_init (mem_regions s) s = Some s' \<and> pmm_inv s' \<and>
    unat (frame_count s') = top_bytes (g_avail_memory_kib s) div 4096 \<and>
    free_frames s' = {256 ..< unat (frame_count s')} - reserved_frames (mem_regions s)
      - touched (of_nat (bitmap_loc (kernel_end s))) (of_nat (bitmap_len (g_avail_memory_kib s)))"
proof -
  let ?loc = "bitmap_loc (kernel_end s)" and ?len = "bitmap_len (g_avail_memory_kib s)"
  obtain s' where s': "pmm_init (mem_regions s) s = Some s'"
    and b: "bm_step (init_full s) (used_frames (init_full s) - {256 ..< unat (init_frames s)} \<union>
       (reserved_frames (mem_regions s) \<union> touched (of_nat ?loc) (of_nat ?len))
         \<inter> {..< unat (init_frames s)}) s'"
    using pmm_init_step [OF assms(1)] by blast
  have same: "frame_count s' = init_frames s" "frame_hint s' = frame_hint s"
    "mem_regions s' = mem_regions s" "pagebitmap s' = of_nat ?loc"
    using b bm_onlyD [of "init_full s" s'] by (simp_all add: bm_step_def init_full_def Let_def)
  have fc: "unat (init_frames s) = top_bytes (g_avail_memory_kib s) div 4096"
    by (rule init_words(1)) (rule init_frames_def)
  have free: "free_frames s' = {256 ..< unat (frame_count s')} - reserved_frames (mem_regions s)
      - touched (of_nat ?loc) (of_nat ?len)"
    using b init_full_core(2) [of s] unfolding free_frames_def same bm_step_def by auto
  have "?len > 0" using assms(3) by (simp add: bitmap_len_def)
  then have "?loc < 4294967296" using assms(1) top_bytes_le [of "g_avail_memory_kib s"] by linarith
  moreover have "unat (kernel_end s) \<noteq> 0" using assms(2) by (simp add: unat_eq_0)
  then have "?loc \<noteq> 0" by (simp add: bitmap_loc_def div_eq_0_iff)
  ultimately have "(of_nat ?loc :: u32) \<noteq> 0" by (simp add: u32_eq_iff unat_of_nat_u32)
  then have "pmm_inv s'"
    using b assms(3,4) free unfolding pmm_inv_def same bm_step_def
    by (auto simp: word_less_nat_alt fc)
  with s' free same fc show ?thesis by auto
qed

theorem pmm_init_establishes_witness:
  "\<exists>s'. pmm_init (mem_regions ex_pmm) ex_pmm = Some s' \<and> pmm_inv s' \<and>
     free_frames s' = {256..<512} - {272}"
proof -
  have t: "top_bytes (g_avail_memory_kib ex_pmm) = 2097152" by (simp add: ex_pmm_def top_bytes_def)
  have l: "bitmap_len (g_avail_memory_kib ex_pmm) = 64" by (simp add: bitmap_len_def t)
  have k: "bitmap_loc (kernel_end ex_pmm) = 1114112" by (simp add: ex_pmm_def bitmap_loc_def)
  have m: "touched (1114112 :: u32) 64 = {272}" by (auto simp: touched_def)
  have h: "frame_hint ex_pmm = 10" "kernel_end ex_pmm \<noteq> 0" "length (mem_regions ex_pmm) \<le> MEM_REGIONS_MAX"
    by (simp_all add: ex_pmm_def MEM_REGIONS_MAX_def)
  have r: "{256..<512} - {..<8} - {272} = {256..<512 :: nat} - {272}" by auto
  show ?thesis
    using pmm_init_establishes [of ex_pmm] by (auto simp: t l k m h r ex_pmm_reserved)
qed

text \<open>
  (C6) Allocation. \<^verbatim>\<open>pmm_get_next_available_block\<close> on a state with the invariant always returns. With no
  frame free the result is 0 with \<^verbatim>\<open>PMM_ALLOC_OOM\<close> and nothing changes; otherwise it is the first free
  frame in the circular order from the hint, which becomes taken, the counter of free frames and the
  hint follow, and the invariant holds again.
\<close>

theorem pmm_get_next_available_block_correct:
  assumes "pmm_inv s"
  shows "(free_frames s = {} \<and> pmm_get_next_available_block s = Some ((0, PMM_ALLOC_OOM), s)) \<or>
    (\<exists>k s'. visit s k \<in> free_frames s \<and> (\<forall>j. j < k \<longrightarrow> visit s j \<notin> free_frames s) \<and>
       pmm_get_next_available_block s = Some ((push_bit 12 (of_nat (visit s k)), PMM_ALLOC_SUCCESS), s') \<and>
       pmm_inv s' \<and> pmm_only s s' \<and> free_frames s' = free_frames s - {visit s k} \<and>
       unat (available_frames s') + 1 = unat (available_frames s) \<and>
       unat (frame_hint s') = (visit s k + 1) mod unat (frame_count s))"
proof (cases "free_frames s = {}")
  case True
  with get_next_oom [OF assms] show ?thesis by simp
next
  case False
  obtain k where k: "k < unat (frame_count s)" "visit s k \<in> free_frames s"
    "\<And>j. j < k \<Longrightarrow> visit s j \<notin> free_frames s"
    using first_free [OF assms False] by metis
  define f :: u32 where "f = of_nat (visit s k)"
  have small: "visit s k < 1048576"
    using k(2) inv_frame_small [OF assms] by (simp add: free_frames_def)
  then have f: "unat f = visit s k" by (simp add: f_def unat_of_nat_u32)
  then have ff: "unat f \<in> free_frames s" using k(2) by simp
  obtain s' where s': "take_frame f s = Some ((push_bit 12 f, PMM_ALLOC_SUCCESS), s')"
    "pmm_inv s'" "pmm_only s s'" "free_frames s' = free_frames s - {unat f}"
    "unat (frame_hint s') = (unat f + 1) mod unat (frame_count s)"
    by (rule take_frame_step [OF assms ff])
  have "card (free_frames s') + 1 = card (free_frames s)"
    using s'(4) ff by (metis card.remove finite_free_frames add.commute plus_1_eq_Suc)
  then have "unat (available_frames s') + 1 = unat (available_frames s)"
    using assms s'(2) by (simp add: pmm_inv_def pmm_core_def)
  moreover have "pmm_get_next_available_block s = take_frame f s"
    unfolding f_def using assms k by (rule get_next_first(2))
  ultimately show ?thesis
    using s' k(2,3) f f_def by (intro disjI2 exI [of _ k] exI [of _ s']) auto
qed

theorem pmm_get_next_available_block_correct_witness:
  "\<exists>s'. pmm_get_next_available_block ex_pmm = Some ((0xC000, PMM_ALLOC_SUCCESS), s') \<and>
     free_frames s' = {13..<16} \<and> frame_hint s' = 13"
proof -
  have fc: "unat (frame_count ex_pmm) = 16" by (simp add: ex_pmm_def)
  have d: "{12..<16} - {12} = {13..<16 :: nat}" by auto
  have ne: "free_frames ex_pmm \<noteq> {}" by (simp add: ex_pmm_free)
  obtain k s' where k: "visit ex_pmm k \<in> free_frames ex_pmm"
      "\<forall>j. j < k \<longrightarrow> visit ex_pmm j \<notin> free_frames ex_pmm"
    and r: "pmm_get_next_available_block ex_pmm = Some ((push_bit 12 (of_nat (visit ex_pmm k)), PMM_ALLOC_SUCCESS), s')"
      "free_frames s' = free_frames ex_pmm - {visit ex_pmm k}"
      "unat (frame_hint s') = (visit ex_pmm k + 1) mod unat (frame_count ex_pmm)"
    using pmm_get_next_available_block_correct [OF ex_pmm_inv] ne by blast
  have "visit ex_pmm k = 12" using k by (rule ex_pmm_first)
  with r show ?thesis by (simp add: ex_pmm_free fc d u32_eq_iff)
qed

text \<open>
  (C14) The two allocators of the file, \<^verbatim>\<open>pmm_alloc_frame\<close> and \<^verbatim>\<open>pmm_get_next_available_block\<close>, agree: the
  check for a reserved frame that only the second makes never fires, and the test of a whole byte for
  zero finds the same frame as the test of one bit.
\<close>

theorem pmm_alloc_frame_equiv:
  assumes "pmm_inv s"
  shows "pmm_alloc_frame s = pmm_get_next_available_block s"
  using inv_ready [OF assms]
  by (simp add: pmm_alloc_frame_def pmm_get_next_available_block_def scans_eq [OF assms])

theorem pmm_alloc_frame_equiv_witness:
  "pmm_alloc_frame ex_pmm = pmm_get_next_available_block ex_pmm"
  using pmm_alloc_frame_equiv [OF ex_pmm_inv] .

text \<open>
  (C15) \<^verbatim>\<open>pmm_is_region_reserved\<close> answers whether some byte of the span lies in a reserved region, for
  every address and length (a span may run past 4 GiB).
\<close>

theorem pmm_is_region_reserved_iff:
  "pmm_is_region_reserved address len s \<longleftrightarrow>
   (\<exists>r \<in> set (mem_regions s). \<exists>x. mr_type r = MEM_RESERVED \<and>
      unat address \<le> x \<and> x < unat address + unat len \<and>
      unat (mr_base r) \<le> x \<and> x < unat (mr_base r) + unat (mr_length r))"
proof -
  have ov: "(\<exists>x. a \<le> x \<and> x < a + n \<and> b \<le> x \<and> x < b + l) \<longleftrightarrow> 0 < l \<and> 0 < n \<and> a < b + l \<and> b < a + n"
    for a b l n :: nat
    by (auto intro!: exI [of _ "max a b"])
  have "(\<exists>x. mr_type r = MEM_RESERVED \<and> unat address \<le> x \<and> x < unat address + unat len \<and>
      unat (mr_base r) \<le> x \<and> x < unat (mr_base r) + unat (mr_length r)) \<longleftrightarrow>
    mr_type r = MEM_RESERVED \<and> mr_length r \<noteq> 0 \<and> len \<noteq> 0 \<and>
      unat address < unat (mr_base r) + unat (mr_length r) \<and> unat (mr_base r) < unat address + unat len" for r
    using ov [of "unat address" "unat len" "unat (mr_base r)" "unat (mr_length r)"]
    by (auto simp: unat_gt_0)
  then show ?thesis
    unfolding pmm_is_region_reserved_def find_overlap_iff live_region_def by auto
qed

text \<open>
  (C13) Deallocation, every branch: an address that is not page aligned, past the end of memory, in a
  reserved region, or already free is refused with its own code and changes nothing; any other frame
  becomes free, the hint points at it, and the invariant holds again.
\<close>

theorem pmm_dealloc_specific_block_correct:
  assumes "pmm_inv s"
  shows "\<exists>r s'. pmm_dealloc_specific_block a s = Some (r, s') \<and> pmm_inv s' \<and>
    (let f = unat a div 4096
     in if \<not> page_aligned a then r = PMM_ALLOC_UNALIGNED_ADDR \<and> s' = s
        else if unat (frame_count s) \<le> f then r = PMM_ALLOC_OUTOFBOUNDS \<and> s' = s
        else if f \<in> reserved_frames (mem_regions s) then r = PMM_ALLOC_RESERVED \<and> s' = s
        else if f \<in> free_frames s then r = PMM_ALLOC_ALREADY_FREE \<and> s' = s
        else r = PMM_ALLOC_SUCCESS \<and> pmm_only s s' \<and> free_frames s' = insert f (free_frames s) \<and>
             unat (frame_hint s') = f)"
proof (cases "page_aligned a")
  case True
  then have a: "push_bit 12 (drop_bit 12 a) = a" "a mod 4096 = 0"
    by (simp_all add: push_drop12 page_aligned_mod)
  let ?f = "drop_bit 12 a"
  have uf: "unat ?f = unat a div 4096" by (simp add: unat_page)
  have small: "unat ?f < 1048576" using unat_u32_less [of a] unfolding uf by linarith
  have nz: "frame_count s \<noteq> 0" "pagebitmap s \<noteq> 0" and core: "pmm_core s"
    using assms by (auto simp: pmm_inv_def)
  show ?thesis
  proof (cases "unat ?f \<in> owned_frames s")
    case own: True
    then have "unat a div 4096 < unat (frame_count s)" "unat a div 4096 \<notin> reserved_frames (mem_regions s)"
      "unat a div 4096 \<notin> free_frames s"
      by (auto simp: owned_frames_def free_frames_def uf)
    moreover obtain s' where "pmm_dealloc_specific_block a s = Some (PMM_ALLOC_SUCCESS, s')"
      "pmm_inv s'" "pmm_only s s'" "free_frames s' = insert (unat a div 4096) (free_frames s)"
      "unat (frame_hint s') = unat a div 4096"
      using dealloc_step [OF assms own] unfolding a uf by (metis uf)
    ultimately show ?thesis using True by (simp add: Let_def)
  next
    case other: False
    have res: "pmm_is_region_reserved a 4096 s \<longleftrightarrow> unat a div 4096 \<in> reserved_frames (mem_regions s)"
      using frame_reserved_iff [OF small, of s] by (simp add: a uf)
    have bound: "frame_count s \<le> ?f \<longleftrightarrow> unat (frame_count s) \<le> unat a div 4096"
      by (simp add: word_le_nat_alt uf)
    have "pmm_query_bitmap a s = Some (unat a div 4096 \<in> used_frames s)"
      if "\<not> unat (frame_count s) \<le> unat a div 4096"
      using frame_query [OF core, of ?f] that by (simp add: a uf)
    with True a(2) nz res bound other assms show ?thesis
      by (auto simp: pmm_dealloc_specific_block_def Let_def owned_frames_def free_frames_def uf)
  qed
qed (use assms in \<open>auto simp: pmm_dealloc_specific_block_def page_aligned_mod\<close>)

theorem pmm_dealloc_specific_block_correct_witness:
  "\<exists>s'. pmm_dealloc_specific_block 0xA000 ex_pmm = Some (PMM_ALLOC_SUCCESS, s') \<and>
     free_frames s' = insert 10 {12..<16}"
proof -
  have "unat (frame_count ex_pmm) = 16" "page_aligned 0xA000" by (simp_all add: ex_pmm_def page_aligned_def)
  then show ?thesis
    using pmm_dealloc_specific_block_correct [OF ex_pmm_inv, of "0xA000"]
    by (auto simp: ex_pmm_reserved ex_pmm_free Let_def)
qed



end
