(* ===== verification/Pmm_Reserve.thy ===== *)
theory Pmm_Reserve
  imports Pmm
begin

text \<open>
  Permanent reservations of the physical memory manager (\<^verbatim>\<open>kernel/kmem.c\<close>): \<^verbatim>\<open>pmm_reserve_range\<close> merges
  the new span with every region that overlaps it or is adjacent to it, in a loop that runs until
  nothing changes; \<^verbatim>\<open>pmm_reserve_pageframe\<close> and \<^verbatim>\<open>pmm_reserve_pageframe_seq\<close> reserve free frames with it.
\<close>

section \<open>Permanent reservations\<close>

text \<open>
  The locals of \<^verbatim>\<open>pmm_reserve_range\<close>: the merged span, the index of the region it is merged into
  (\<^verbatim>\<open>primary_idx\<close>, present when \<^verbatim>\<open>found_merge_candidate\<close>), and the flag of the fixed-point loop.
\<close>

record merge_state =
  merged_base :: nat
  merged_end :: nat
  primary_idx :: "nat option"
  changed :: bool

text \<open>The body of the inner loop for region \<open>r\<close> at index \<open>i\<close>: the region and the locals after it.\<close>

definition merge_step :: "nat \<Rightarrow> mem_region \<Rightarrow> merge_state \<Rightarrow> mem_region \<times> merge_state" where
  "merge_step i r m =
     (if mr_type r \<noteq> MEM_RESERVED \<or> mr_length r = 0 then (r, m)
      else let r_base = unat (mr_base r);
               r_end = r_base + unat (mr_length r)
           in if \<not> (merged_base m \<le> r_end \<and> r_base \<le> merged_end m) then (r, m)
              else let m' = m\<lparr>merged_base := min (merged_base m) r_base,
                              merged_end := max (merged_end m) r_end\<rparr>;
                       grown = (merged_base m' \<noteq> merged_base m \<or> merged_end m' \<noteq> merged_end m)
                   in (case primary_idx m of
                         None \<Rightarrow> (r, m'\<lparr>primary_idx := Some i, changed := True\<rparr>)
                       | Some p \<Rightarrow>
                           if i \<noteq> p
                           then (r\<lparr>mr_length := 0, mr_type := MEM_USABLE\<rparr>, m'\<lparr>changed := True\<rparr>)
                           else (r, m'\<lparr>changed := (grown \<or> changed m)\<rparr>)))"

primrec merge_scan :: "nat \<Rightarrow> mem_region list \<Rightarrow> merge_state \<Rightarrow> mem_region list \<times> merge_state" where
  "merge_scan i [] m = ([], m)"
| "merge_scan i (r # rs) m =
     (let (r', m') = merge_step i r m; (rs', m'') = merge_scan (Suc i) rs m'
      in (r' # rs', m''))"


text \<open>
  The outer loop repeats the scan until nothing changes. It terminates: every scan that reports a
  change finds the first candidate, clears a region, or extends the span over a region it did not
  cover, and none of these can be undone.
\<close>

definition region_weight :: "nat \<Rightarrow> mem_region \<Rightarrow> merge_state \<Rightarrow> nat" where
  "region_weight i r m =
     (if live_region r
      then (if merged_base m \<le> unat (mr_base r) \<and>
               unat (mr_base r) + unat (mr_length r) \<le> merged_end m then 0 else 1)
           + (if primary_idx m = Some i then 0 else 1)
      else 0)"

primrec merge_weight :: "nat \<Rightarrow> mem_region list \<Rightarrow> merge_state \<Rightarrow> nat" where
  "merge_weight i [] m = 0"
| "merge_weight i (r # rs) m = region_weight i r m + merge_weight (Suc i) rs m"

definition merge_grows :: "merge_state \<Rightarrow> merge_state \<Rightarrow> bool" where
  "merge_grows m m' \<longleftrightarrow> merged_base m' \<le> merged_base m \<and> merged_end m \<le> merged_end m' \<and>
     (primary_idx m \<noteq> None \<longrightarrow> primary_idx m' = primary_idx m) \<and> (changed m \<longrightarrow> changed m')"

lemma merge_grows_refl [simp]: "merge_grows m m"
  by (simp add: merge_grows_def)

lemma merge_grows_trans: "merge_grows m m' \<Longrightarrow> merge_grows m' m'' \<Longrightarrow> merge_grows m m''"
  by (auto simp: merge_grows_def)

lemma region_weight_mono: "merge_grows m m' \<Longrightarrow> region_weight i r m' \<le> region_weight i r m"
  by (auto simp: region_weight_def merge_grows_def)

lemma merge_weight_mono: "merge_grows m m' \<Longrightarrow> merge_weight i rs m' \<le> merge_weight i rs m"
  by (induction rs arbitrary: i) (auto intro: add_mono region_weight_mono)

lemma merge_step_grows: "merge_step i r m = (r', m') \<Longrightarrow> merge_grows m m'"
  by (auto simp: merge_step_def merge_grows_def Let_def split: if_splits option.splits)

lemma merge_scan_grows: "merge_scan i rs m = (rs', m') \<Longrightarrow> merge_grows m m'"
  by (induction rs arbitrary: i m rs' m')
    (auto split: prod.splits dest!: merge_step_grows intro: merge_grows_trans)

lemma merge_step_weight:
  assumes "merge_step i r m = (r', m')"
  shows "region_weight i r' m' \<le> region_weight i r m"
    and "changed m' \<Longrightarrow> \<not> changed m \<Longrightarrow> region_weight i r' m' < region_weight i r m"
  using assms
  by (auto simp: merge_step_def region_weight_def live_region_def Let_def min_def max_def
      split: if_splits option.splits)

lemma merge_scan_weight:
  "merge_scan i rs m = (rs', m') \<Longrightarrow> merge_weight i rs' m' \<le> merge_weight i rs m \<and>
     (changed m' \<longrightarrow> \<not> changed m \<longrightarrow> merge_weight i rs' m' < merge_weight i rs m)"
proof (induction rs arbitrary: i m rs' m')
  case (Cons r rs)
  obtain r1 m1 where step: "merge_step i r m = (r1, m1)" by (meson surj_pair)
  obtain rs2 m2 where scan: "merge_scan (Suc i) rs m1 = (rs2, m2)" by (meson surj_pair)
  from Cons.prems step scan have "rs' = r1 # rs2" "m' = m2" by auto
  with Cons.IH [OF scan] merge_step_weight [OF step]
    region_weight_mono [OF merge_scan_grows [OF scan], of i r1]
    merge_weight_mono [OF merge_step_grows [OF step], of "Suc i" rs]
  show ?case by (cases "changed m1") fastforce+
qed simp

function merge_loop :: "mem_region list \<Rightarrow> merge_state \<Rightarrow> mem_region list \<times> merge_state" where
  "merge_loop rs m =
     (let (rs', m') = merge_scan 0 rs (m\<lparr>changed := False\<rparr>)
      in if changed m' then merge_loop rs' m' else (rs', m'))"
  by pat_completeness auto

lemma merge_weight_changed [simp]: "merge_weight i rs (m\<lparr>changed := b\<rparr>) = merge_weight i rs m"
  by (induction rs arbitrary: i) (simp_all add: region_weight_def)

termination merge_loop
  by (relation "measure (\<lambda>(rs, m). merge_weight 0 rs m)")
    (use merge_scan_weight in \<open>force split: prod.splits\<close>)+

declare merge_loop.simps [simp del]


section \<open>pmm_reserve_range\<close>

definition pmm_reserve_range ::
  "u32 \<Rightarrow> u32 \<Rightarrow> bool \<Rightarrow> 'a pmm_scheme \<Rightarrow> (pmm_reserve_result \<times> 'a pmm_scheme) option" where
  "pmm_reserve_range base len init s =
     (if len = 0 then Some (PMM_INVALID_REGION_LENGTH, s)
      else let (rs, m) = merge_loop (mem_regions s)
                 \<lparr>merged_base = unat base, merged_end = unat base + unat len,
                  primary_idx = None, changed = False\<rparr>;
               s = s\<lparr>mem_regions := rs\<rparr>
           in (case primary_idx m of
                 Some p \<Rightarrow>
                   let primary = \<lparr>mr_base = of_nat (merged_base m),
                                  mr_length = of_nat (merged_end m - merged_base m),
                                  mr_type = MEM_RESERVED\<rparr>;
                       rs = rs[p := primary]
                   in do {
                     s \<leftarrow> (if init then pmm_init_single primary s else Some s);
                     Some (PMM_UPDATED_EXISTING_REGION,
                           s\<lparr>mem_regions := filter (\<lambda>r. mr_length r \<noteq> 0) rs\<rparr>) }
               | None \<Rightarrow>
                   if length rs \<ge> MEM_REGIONS_MAX then Some (PMM_NO_MORE_REGION_SLOTS, s)
                   else let r = \<lparr>mr_base = base, mr_length = len, mr_type = MEM_RESERVED\<rparr>;
                            s = s\<lparr>mem_regions := rs @ [r]\<rparr>
                        in do {
                          s \<leftarrow> (if init then pmm_init_single r s else Some s);
                          Some (PMM_RESERVE_SUCCESS, s) }))"


section \<open>Reserving frames\<close>

text \<open>
  The circular search for a frame that is neither in a reserved region nor taken, the window in
  which a frame is reached (\<^verbatim>\<open>frame_ptr\<close>), and the zeroing of a frame. The result is \<open>Inl\<close> of the
  status on failure and \<open>Inr\<close> of the out-parameter when the status is \<^const>\<open>PAGING_OK\<close>.
\<close>

primrec find_unreserved :: "nat \<Rightarrow> u32 \<Rightarrow> 'a pmm_scheme \<Rightarrow> u32 option option" where
  "find_unreserved 0 f s = Some None"
| "find_unreserved (Suc n) f s = do {
     q \<leftarrow> (if pmm_is_region_reserved (push_bit 12 f) 4096 s then Some True
          else pmm_query_bitmap (push_bit 12 f) s);
     if q then find_unreserved n (next_frame s f) s else Some (Some f) }"

definition frame_ptr :: "u32 \<Rightarrow> 'a pmm_scheme \<Rightarrow> u32 option" where
  "frame_ptr p s = (if use_phys_window_alias s then phys_to_virt p else Some p)"

definition clear_frame :: "u32 \<Rightarrow> 'a pmm_scheme \<Rightarrow> 'a pmm_scheme option" where
  "clear_frame p s = do {
     ptr \<leftarrow> frame_ptr p s;
     Some (s\<lparr>mem := zero_bytes 4096 p (mem s)\<rparr>) }"

definition reserve_ok :: "pmm_reserve_result \<Rightarrow> bool" where
  "reserve_ok r \<longleftrightarrow> r = PMM_RESERVE_SUCCESS \<or> r = PMM_UPDATED_EXISTING_REGION"

definition pmm_reserve_pageframe ::
  "bool \<Rightarrow> 'a pmm_scheme \<Rightarrow> ((paging_status + u32) \<times> 'a pmm_scheme) option" where
  "pmm_reserve_pageframe clear s = do {
     found \<leftarrow> find_unreserved (unat (frame_count s)) (frame_hint s) s;
     case found of
       None \<Rightarrow> Some (Inl PAGING_ERR_NOMEM, s)
     | Some f \<Rightarrow> do {
         (r, s) \<leftarrow> pmm_reserve_range (push_bit 12 f) 4096 True s;
         if \<not> reserve_ok r then Some (Inl PAGING_ERR_FRAME_RESERVE_FAILED, s)
         else do {
           s \<leftarrow> bm_set f s;
           let s = s\<lparr>frame_hint := (f + 1) mod frame_count s\<rparr>;
           s \<leftarrow> (if clear then clear_frame (push_bit 12 f) s else Some s);
           Some (Inr (push_bit 12 f), s) } } }"

text \<open>
  The window of a sequence: from the largest index down, the loop stops at the first frame that
  cannot be taken and leaves \<^verbatim>\<open>*out_count\<close> one below it; a loop that meets none leaves \<open>requested\<close>.
\<close>

primrec seq_window :: "u32 \<Rightarrow> nat \<Rightarrow> nat \<Rightarrow> 'a pmm_scheme \<Rightarrow> nat option" where
  "seq_window cur 0 requested s = Some requested"
| "seq_window cur (Suc i) requested s =
     (let f = cur + of_nat i
      in if f \<ge> frame_count s then Some i
         else if pmm_is_region_reserved (push_bit 12 f) 4096 s then Some i
         else do {
           q \<leftarrow> pmm_query_bitmap (push_bit 12 f) s;
           if q then Some i else seq_window cur i requested s })"

primrec clear_frames :: "u32 list \<Rightarrow> 'a pmm_scheme \<Rightarrow> 'a pmm_scheme option" where
  "clear_frames [] s = Some s"
| "clear_frames (p # ps) s = do { s \<leftarrow> clear_frame p s; clear_frames ps s }"

definition pmm_reserve_pageframe_seq ::
  "u32 \<Rightarrow> bool \<Rightarrow> 'a pmm_scheme \<Rightarrow> ((paging_status + u32 list) \<times> 'a pmm_scheme) option" where
  "pmm_reserve_pageframe_seq requested clear s =
     (if requested = 0 then Some (Inl PAGING_ERR_INVALID, s)
      else do {
        found \<leftarrow> find_unreserved (unat (frame_count s)) (frame_hint s) s;
        case found of
          None \<Rightarrow> Some (Inl PAGING_ERR_NOMEM, s)
        | Some cur \<Rightarrow> do {
            count \<leftarrow> seq_window cur (unat requested) (unat requested) s;
            (r, s) \<leftarrow> pmm_reserve_range (push_bit 12 cur) (push_bit 12 (of_nat count)) True s;
            if \<not> reserve_ok r then Some (Inl PAGING_ERR_FRAME_RESERVE_FAILED, s)
            else do {
              s \<leftarrow> bm_set_frames count cur s;
              let frames = map (\<lambda>i. push_bit 12 (cur + of_nat i)) [0..<count];
              let s = s\<lparr>frame_hint := (cur + of_nat count) mod frame_count s\<rparr>;
              s \<leftarrow> (if clear then clear_frames frames s else Some s);
              Some (Inr frames, s) } } })"


section \<open>What the merge computes\<close>

definition region_span :: "mem_region \<Rightarrow> nat set" where
  "region_span r =
     (if live_region r then {unat (mr_base r) ..< unat (mr_base r) + unat (mr_length r)} else {})"

definition reserved_addrs :: "mem_region list \<Rightarrow> nat set" where
  "reserved_addrs rs = (\<Union>r \<in> set rs. region_span r)"

definition merge_span :: "merge_state \<Rightarrow> nat set" where
  "merge_span m = {merged_base m ..< merged_end m}"

definition touches :: "mem_region \<Rightarrow> merge_state \<Rightarrow> bool" where
  "touches r m \<longleftrightarrow> live_region r \<and>
     merged_base m \<le> unat (mr_base r) + unat (mr_length r) \<and> unat (mr_base r) \<le> merged_end m"

lemma reserved_addrs_Nil [simp]: "reserved_addrs [] = {}"
  by (simp add: reserved_addrs_def)

lemma reserved_addrs_Cons [simp]: "reserved_addrs (r # rs) = region_span r \<union> reserved_addrs rs"
  by (simp add: reserved_addrs_def)

lemma interval_join:
  "a < b \<Longrightarrow> c < d \<Longrightarrow> a \<le> d \<Longrightarrow> c \<le> b \<Longrightarrow> {a..<b} \<union> {c..<d} = {min a c ..< max b (d :: nat)}"
  by auto

lemma live_length: "live_region r \<Longrightarrow> 0 < unat (mr_length r)"
  by (simp add: live_region_def unat_gt_0)

text \<open>One region: left alone, chosen as the primary one, absorbed, or (the primary one) met again.\<close>

lemma merge_step_cases:
  assumes "merge_step i r m = (r', m')"
  obtains (apart) "\<not> touches r m" "r' = r" "m' = m"
  | (merge) "touches r m" "merged_base m' = min (merged_base m) (unat (mr_base r))"
      "merged_end m' = max (merged_end m) (unat (mr_base r) + unat (mr_length r))"
      "r' = r \<and> primary_idx m' = Some i \<and> (primary_idx m = None \<or> primary_idx m = Some i) \<or>
       \<not> live_region r' \<and> primary_idx m' = primary_idx m \<and> primary_idx m \<noteq> None \<and>
         primary_idx m \<noteq> Some i \<and> changed m'"
proof -
  consider "\<not> touches r m" | "touches r m" by blast
  then show thesis
  proof cases
    case 1
    then have "r' = r" "m' = m"
      using assms by (auto simp: merge_step_def touches_def live_region_def Let_def split: if_splits)
    with 1 show thesis by (rule apart)
  next
    case 2
    with assms show thesis
      by (intro merge) (auto simp: merge_step_def touches_def live_region_def Let_def
          split: if_splits option.splits)
  qed
qed

lemma merge_step_span:
  assumes "merge_step i r m = (r', m')" "merged_base m < merged_end m"
  shows "region_span r' \<union> merge_span m' = region_span r \<union> merge_span m \<and>
    merged_base m' < merged_end m'"
  using assms(1)
proof (cases rule: merge_step_cases)
  case merge
  then have eq: "region_span r \<union> merge_span m = merge_span m'"
    using interval_join [of "unat (mr_base r)" "unat (mr_base r) + unat (mr_length r)"
        "merged_base m" "merged_end m"] live_length [of r] assms(2)
    by (auto simp: region_span_def merge_span_def touches_def min.commute max.commute)
  have "region_span r' \<subseteq> region_span r"
    using merge(4) by (auto simp: region_span_def)
  with eq have "region_span r' \<union> merge_span m' = region_span r \<union> merge_span m" by blast
  moreover have "merged_base m' < merged_end m'" using merge(2,3) assms(2) by linarith
  ultimately show ?thesis ..
qed (use assms in simp)

lemma merge_scan_span:
  assumes "merge_scan i rs m = (rs', m')" "merged_base m < merged_end m"
  shows "reserved_addrs rs' \<union> merge_span m' = reserved_addrs rs \<union> merge_span m \<and>
    merged_base m' < merged_end m' \<and> length rs' = length rs"
  using assms
proof (induction rs arbitrary: i m rs' m')
  case (Cons r rs)
  obtain r1 m1 where step: "merge_step i r m = (r1, m1)" by (meson surj_pair)
  obtain rs2 m2 where scan: "merge_scan (Suc i) rs m1 = (rs2, m2)" by (meson surj_pair)
  from Cons.prems(1) step scan have eq: "rs' = r1 # rs2" "m' = m2" by auto
  have a: "region_span r1 \<union> merge_span m1 = region_span r \<union> merge_span m" "merged_base m1 < merged_end m1"
    using merge_step_span [OF step Cons.prems(2)] by auto
  have b: "reserved_addrs rs2 \<union> merge_span m2 = reserved_addrs rs \<union> merge_span m1"
    "merged_base m2 < merged_end m2" "length rs2 = length rs"
    using Cons.IH [OF scan a(2)] by auto
  have "region_span r1 \<union> reserved_addrs rs2 \<union> merge_span m2 = region_span r \<union> reserved_addrs rs \<union> merge_span m"
    using a(1) b(1) by blast
  with b eq show ?case by simp
qed simp

text \<open>A region is kept or cleared; the primary one is kept, and lies inside the span.\<close>

definition primary_in :: "nat \<Rightarrow> mem_region list \<Rightarrow> merge_state \<Rightarrow> bool" where
  "primary_in i rs m \<longleftrightarrow> (\<forall>k < length rs. primary_idx m = Some (i + k) \<longrightarrow>
     live_region (rs ! k) \<and> region_span (rs ! k) \<subseteq> merge_span m)"

lemma primary_in_Cons:
  "primary_in i (r # rs) m \<longleftrightarrow>
     (primary_idx m = Some i \<longrightarrow> live_region r \<and> region_span r \<subseteq> merge_span m) \<and>
     primary_in (Suc i) rs m"
  unfolding primary_in_def by (auto simp: nth_Cons' less_Suc_eq_0_disj)


lemma span_mono: "merge_grows m m' \<Longrightarrow> merge_span m \<subseteq> merge_span m'"
  by (auto simp: merge_grows_def merge_span_def)

lemma merge_step_primary:
  assumes "merge_step i r m = (r', m')"
  shows "primary_idx m' = primary_idx m \<or> primary_idx m = None \<and> primary_idx m' = Some i"
    and "primary_idx m' = None \<Longrightarrow> r' = r \<and> m' = m"
    and "r' = r \<or> \<not> live_region r'"
  by (use assms in \<open>cases rule: merge_step_cases; auto\<close>)+

lemma merge_step_keeps_primary:
  assumes "merge_step i r m = (r', m')" "primary_idx m' = Some i"
    and "primary_idx m = Some i \<Longrightarrow> live_region r \<and> region_span r \<subseteq> merge_span m"
  shows "r' = r \<and> live_region r \<and> region_span r \<subseteq> merge_span m'"
  using assms(1)
proof (cases rule: merge_step_cases)
  case merge
  moreover have "r' = r" "live_region r" using merge assms(2) by (auto simp: touches_def)
  ultimately show ?thesis by (auto simp: region_span_def merge_span_def)
qed (use assms in auto)

definition scan_rel :: "nat \<Rightarrow> mem_region list \<Rightarrow> merge_state \<Rightarrow> mem_region list \<Rightarrow> merge_state \<Rightarrow> bool" where
  "scan_rel i rs m rs' m' \<longleftrightarrow>
     (\<forall>p. primary_idx m' = Some p \<longrightarrow> primary_idx m = Some p \<or>
        primary_idx m = None \<and> i \<le> p \<and> p < i + length rs) \<and>
     (primary_idx m' = None \<longrightarrow> rs' = rs \<and> m' = m) \<and>
     list_all2 (\<lambda>r r'. r' = r \<or> \<not> live_region r') rs rs' \<and>
     (primary_in i rs m \<longrightarrow> primary_in i rs' m')"

lemma merge_scan_rel:
  "merge_scan i rs m = (rs', m') \<Longrightarrow> scan_rel i rs m rs' m'"
proof (induction rs arbitrary: i m rs' m')
  case (Cons r rs)
  obtain r1 m1 where step: "merge_step i r m = (r1, m1)" by (meson surj_pair)
  obtain rs2 m2 where scan: "merge_scan (Suc i) rs m1 = (rs2, m2)" by (meson surj_pair)
  from Cons.prems step scan have eq: "rs' = r1 # rs2" "m' = m2" by auto
  note IH = Cons.IH [OF scan, unfolded scan_rel_def]
  note st = merge_step_primary [OF step]
  have grows: "merge_span m \<subseteq> merge_span m1" "merge_span m1 \<subseteq> merge_span m2"
    by (auto intro: span_mono [THEN subsetD] merge_step_grows [OF step] merge_scan_grows [OF scan])
  have "primary_in i (r1 # rs2) m2" if pin: "primary_in i (r # rs) m"
  proof -
    have "primary_in (Suc i) rs m1"
      using pin st(1) grows(1) by (auto simp: primary_in_def primary_in_Cons) blast+
    with IH have "primary_in (Suc i) rs2 m2" by blast
    moreover have "live_region r1 \<and> region_span r1 \<subseteq> merge_span m2" if "primary_idx m2 = Some i"
    proof -
      have "primary_idx m1 = Some i" using IH that by auto
      with merge_step_keeps_primary [OF step] pin grows(2) show ?thesis
        by (auto simp: primary_in_Cons)
    qed
    ultimately show ?thesis by (simp add: primary_in_Cons)
  qed
  moreover have "primary_idx m2 = None \<longrightarrow> r1 # rs2 = r # rs \<and> m2 = m" using IH st by auto
  moreover have "primary_idx m = Some p \<or> primary_idx m = None \<and> i \<le> p \<and> p < i + length (r # rs)"
    if "primary_idx m2 = Some p" for p
    using IH that st(1) by fastforce
  moreover have "list_all2 (\<lambda>r r'. r' = r \<or> \<not> live_region r') (r # rs) (r1 # rs2)"
    using IH st(3) by simp
  ultimately show ?case unfolding scan_rel_def eq by blast
qed (simp add: scan_rel_def)

text \<open>A scan that reports no change changed nothing, and met no live region but the primary one.\<close>

lemma merge_scan_done:
  assumes "merge_scan i rs m = (rs', m')" "\<not> changed m'"
  shows "rs' = rs \<and> m' = m \<and> (\<forall>k < length rs. touches (rs ! k) m \<longrightarrow> primary_idx m = Some (i + k))"
  using assms
proof (induction rs arbitrary: i m rs' m')
  case (Cons r rs)
  obtain r1 m1 where step: "merge_step i r m = (r1, m1)" by (meson surj_pair)
  obtain rs2 m2 where scan: "merge_scan (Suc i) rs m1 = (rs2, m2)" by (meson surj_pair)
  from Cons.prems step scan have eq: "rs' = r1 # rs2" "m' = m2" by auto
  have "\<not> changed m1" using merge_scan_grows [OF scan] Cons.prems(2) eq by (auto simp: merge_grows_def)
  then have "r1 = r \<and> m1 = m \<and> (touches r m \<longrightarrow> primary_idx m = Some i)"
    using step by (auto simp: merge_step_def touches_def live_region_def Let_def
        split: if_splits option.splits)
  with Cons.IH [OF scan] Cons.prems(2) eq show ?case
    by (auto simp: nth_Cons' less_Suc_eq_0_disj)
qed simp


definition loop_rel :: "mem_region list \<Rightarrow> merge_state \<Rightarrow> mem_region list \<Rightarrow> merge_state \<Rightarrow> bool" where
  "loop_rel rs m rs' m' \<longleftrightarrow>
     reserved_addrs rs' \<union> merge_span m' = reserved_addrs rs \<union> merge_span m \<and>
     merged_base m' < merged_end m' \<and>
     list_all2 (\<lambda>r r'. r' = r \<or> \<not> live_region r') rs rs' \<and>
     primary_in 0 rs' m' \<and>
     (\<forall>k < length rs'. touches (rs' ! k) m' \<longrightarrow> primary_idx m' = Some k) \<and>
     (\<forall>p. primary_idx m' = Some p \<longrightarrow> primary_idx m = Some p \<or> p < length rs') \<and>
     (primary_idx m \<noteq> None \<longrightarrow> primary_idx m' = primary_idx m) \<and>
     (primary_idx m' = None \<longrightarrow> rs' = rs \<and> merge_span m' = merge_span m)"

lemma loop_relD:
  assumes "loop_rel rs m rs' m'"
  shows "reserved_addrs rs' \<union> merge_span m' = reserved_addrs rs \<union> merge_span m"
    and "merged_base m' < merged_end m'"
    and "list_all2 (\<lambda>r r'. r' = r \<or> \<not> live_region r') rs rs'"
    and "primary_in 0 rs' m'"
    and "k < length rs' \<Longrightarrow> touches (rs' ! k) m' \<Longrightarrow> primary_idx m' = Some k"
    and "primary_idx m' = Some p \<Longrightarrow> primary_idx m = Some p \<or> p < length rs'"
    and "primary_idx m \<noteq> None \<Longrightarrow> primary_idx m' = primary_idx m"
    and "primary_idx m' = None \<Longrightarrow> rs' = rs \<and> merge_span m' = merge_span m"
  using assms unfolding loop_rel_def by blast+

lemma kept_trans:
  "list_all2 (\<lambda>r r'. r' = r \<or> \<not> live_region r') rs1 rs2 \<Longrightarrow>
   list_all2 (\<lambda>r r'. r' = r \<or> \<not> live_region r') rs2 rs3 \<Longrightarrow>
   list_all2 (\<lambda>r r'. r' = r \<or> \<not> live_region r') rs1 rs3"
  by (rule list_all2_trans [where ?P1.0 = "\<lambda>r r'. r' = r \<or> \<not> live_region r'"
        and ?P2.0 = "\<lambda>r r'. r' = r \<or> \<not> live_region r'"]) auto

lemma changed_update [simp]:
  "merge_span (m\<lparr>changed := b\<rparr>) = merge_span m" "touches r (m\<lparr>changed := b\<rparr>) = touches r m"
  "primary_in i rs (m\<lparr>changed := b\<rparr>) = primary_in i rs m"
  by (simp_all add: merge_span_def touches_def primary_in_def)

lemma merge_loop_rel:
  "merged_base m < merged_end m \<Longrightarrow> primary_in 0 rs m \<Longrightarrow> merge_loop rs m = (rs', m') \<Longrightarrow>
   loop_rel rs m rs' m'"
proof (induction rs m arbitrary: rs' m' rule: merge_loop.induct)
  case (1 rs m)
  obtain rs1 m1 where scan: "merge_scan 0 rs (m\<lparr>changed := False\<rparr>) = (rs1, m1)" by (meson surj_pair)
  have span: "reserved_addrs rs1 \<union> merge_span m1 = reserved_addrs rs \<union> merge_span m"
    "merged_base m1 < merged_end m1" "length rs1 = length rs"
    using merge_scan_span [OF scan] "1.prems"(1) by auto
  have rel: "(\<forall>p. primary_idx m1 = Some p \<longrightarrow> primary_idx m = Some p \<or> p < length rs)"
    "primary_idx m1 = None \<Longrightarrow> rs1 = rs \<and> merge_span m1 = merge_span m"
    "list_all2 (\<lambda>r r'. r' = r \<or> \<not> live_region r') rs rs1" "primary_in 0 rs1 m1"
    using merge_scan_rel [OF scan] "1.prems"(2) by (auto simp: scan_rel_def)
  have prim: "primary_idx m \<noteq> None \<Longrightarrow> primary_idx m1 = primary_idx m"
    using merge_scan_grows [OF scan] by (simp add: merge_grows_def)
  show ?case
  proof (cases "changed m1")
    case True
    have "merge_loop rs m = merge_loop rs1 m1"
      by (subst merge_loop.simps) (simp add: scan True)
    then have "merge_loop rs1 m1 = (rs', m')" using "1.prems"(3) by simp
    then have "loop_rel rs1 m1 rs' m'"
      by (rule "1.IH" [of "(rs1, m1)" rs1 m1 rs' m', OF scan [symmetric] refl True span(2) rel(4)])
    note L = loop_relD [OF this]
    have len: "length rs' = length rs"
      using list_all2_lengthD [OF L(3)] span(3) by simp
    show ?thesis
      unfolding loop_rel_def
    proof (intro conjI allI impI)
      show "reserved_addrs rs' \<union> merge_span m' = reserved_addrs rs \<union> merge_span m"
        using L(1) span(1) by simp
      show "list_all2 (\<lambda>r r'. r' = r \<or> \<not> live_region r') rs rs'"
        using rel(3) L(3) by (rule kept_trans)
      show "primary_idx m = Some p \<or> p < length rs'" if "primary_idx m' = Some p" for p
        using L(6) [OF that] rel(1) len by auto
      show prim': "primary_idx m' = primary_idx m" if "primary_idx m \<noteq> None"
        using L(7) prim [OF that] that by simp
      show "rs' = rs" "merge_span m' = merge_span m" if none: "primary_idx m' = None"
      proof -
        have "primary_idx m1 = None" using L(7) none by fastforce
        with L(8) [OF none] rel(2) show "rs' = rs" "merge_span m' = merge_span m" by simp_all
      qed
    qed (use L in blast)+
  next
    case False
    then have eq: "rs' = rs1" "m' = m1" 
      using "1.prems"(3) by (subst (asm) merge_loop.simps, simp add: scan)+
    have same: "rs1 = rs" "m1 = m\<lparr>changed := False\<rparr>"
      "\<forall>k < length rs. touches (rs ! k) m \<longrightarrow> primary_idx m = Some k"
      using merge_scan_done [OF scan False] by simp_all
    show ?thesis
      unfolding loop_rel_def eq same
    proof (intro conjI allI impI)
      show "list_all2 (\<lambda>r r'. r' = r \<or> \<not> live_region r') rs rs" by (rule list_all2_refl) simp
      show "primary_idx (m\<lparr>changed := False\<rparr>) = Some k"
        if "k < length rs" "touches (rs ! k) (m\<lparr>changed := False\<rparr>)" for k
        using same(3) that by simp
    qed (use "1.prems"(1,2) in simp_all)
  qed
qed


section \<open>The table after a reservation\<close>

definition regions_ok :: "mem_region list \<Rightarrow> bool" where
  "regions_ok rs \<longleftrightarrow> (\<forall>r \<in> set rs. live_region r \<longrightarrow> unat (mr_base r) + unat (mr_length r) \<le> 4294967296)"

definition apart_regions :: "mem_region \<Rightarrow> mem_region \<Rightarrow> bool" where
  "apart_regions r r' \<longleftrightarrow> (live_region r \<and> live_region r' \<longrightarrow>
     unat (mr_base r) + unat (mr_length r) < unat (mr_base r') \<or>
     unat (mr_base r') + unat (mr_length r') < unat (mr_base r))"

text \<open>No two live regions overlap or are adjacent: the table is fully coalesced.\<close>

definition coalesced :: "mem_region list \<Rightarrow> bool" where
  "coalesced rs \<longleftrightarrow> sorted_wrt apart_regions rs"

lemma apart_sym: "apart_regions r r' \<Longrightarrow> apart_regions r' r"
  by (auto simp: apart_regions_def)

lemma regions_ok_addrs: "regions_ok rs \<longleftrightarrow> reserved_addrs rs \<subseteq> {..<4294967296}"
proof -
  have ivl: "{a..<b} \<subseteq> {..<c} \<longleftrightarrow> b \<le> c" if "a < b" for a b c :: nat
    using that by (auto dest: subsetD [of _ _ "b - 1"])
  have "region_span r \<subseteq> {..<4294967296} \<longleftrightarrow>
      (live_region r \<longrightarrow> unat (mr_base r) + unat (mr_length r) \<le> 4294967296)" for r
    using live_length [of r] ivl by (simp add: region_span_def)
  then show ?thesis by (auto simp: regions_ok_def reserved_addrs_def)
qed

definition start_merge :: "u32 \<Rightarrow> u32 \<Rightarrow> merge_state" where
  "start_merge base len = \<lparr>merged_base = unat base, merged_end = unat base + unat len,
     primary_idx = None, changed = False\<rparr>"

definition merged_region :: "merge_state \<Rightarrow> mem_region" where
  "merged_region m = \<lparr>mr_base = of_nat (merged_base m), mr_length = of_nat (merged_end m - merged_base m),
     mr_type = MEM_RESERVED\<rparr>"

lemma start_merge_ok:
  "len \<noteq> 0 \<Longrightarrow> merged_base (start_merge base len) < merged_end (start_merge base len)"
  "primary_in 0 rs (start_merge base len)"
  "merge_span (start_merge base len) = {unat base ..< unat base + unat len}"
  "primary_idx (start_merge base len) = None"
  by (simp_all add: start_merge_def primary_in_def merge_span_def unat_gt_0)

text \<open>The region written back is exactly the span, unless the span is the whole address space.\<close>

lemma merged_region_span:
  assumes "merged_base m < merged_end m" "merge_span m \<subseteq> A" "A \<subseteq> {..<4294967296}"
    and "x < 4294967296" "x \<notin> A"
  shows "region_span (merged_region m) = merge_span m" "live_region (merged_region m)"
    "unat (mr_base (merged_region m)) = merged_base m"
    "unat (mr_base (merged_region m)) + unat (mr_length (merged_region m)) = merged_end m"
proof -
  have "merged_end m - 1 \<in> merge_span m" using assms(1) by (auto simp: merge_span_def)
  with assms(2,3) have e: "merged_end m - 1 < 4294967296" by blast
  moreover have "\<not> (merged_base m = 0 \<and> merged_end m = 4294967296)"
    using assms(2,4,5) by (auto simp: merge_span_def)
  ultimately have d: "merged_end m - merged_base m < 4294967296" "merged_base m < 4294967296"
    using assms(1) by linarith+
  have w: "unat (of_nat (merged_end m - merged_base m) :: u32) = merged_end m - merged_base m"
    using d(1) by (rule unat_of_nat_u32)
  have "unat (mr_length (merged_region m)) \<noteq> 0"
    unfolding merged_region_def mem_region.select_convs w using assms(1) by simp
  then show l: "live_region (merged_region m)"
    by (auto simp: live_region_def merged_region_def)
  show b: "unat (mr_base (merged_region m)) = merged_base m"
    using d by (simp add: merged_region_def unat_of_nat_u32)
  show e: "unat (mr_base (merged_region m)) + unat (mr_length (merged_region m)) = merged_end m"
    unfolding b unfolding merged_region_def mem_region.select_convs w using assms(1) by simp
  show "region_span (merged_region m) = merge_span m"
    unfolding region_span_def merge_span_def e unfolding b using l by simp
qed

lemma reserved_addrs_update:
  assumes "p < length rs"
  shows "reserved_addrs (rs[p := r]) = region_span r \<union> (\<Union>k \<in> {..<length rs} - {p}. region_span (rs ! k))"
proof -
  have "reserved_addrs (rs[p := r]) = (\<Union>k \<in> {..<length rs}. region_span (rs[p := r] ! k))"
    unfolding reserved_addrs_def set_conv_nth by auto
  also have "\<dots> = region_span (rs[p := r] ! p) \<union> (\<Union>k \<in> {..<length rs} - {p}. region_span (rs[p := r] ! k))"
    using assms by blast
  finally show ?thesis using assms by (auto simp: nth_list_update)
qed

lemma reserved_addrs_filter: "reserved_addrs (filter (\<lambda>r. mr_length r \<noteq> 0) rs) = reserved_addrs rs"
  by (auto simp: reserved_addrs_def region_span_def live_region_def split: if_splits)

lemma reserved_addrs_append: "reserved_addrs (rs @ [r]) = reserved_addrs rs \<union> region_span r"
  by (auto simp: reserved_addrs_def)

text \<open>The table when a region was found to merge into, and when none was.\<close>

definition compacted :: "mem_region list \<Rightarrow> nat \<Rightarrow> merge_state \<Rightarrow> mem_region list" where
  "compacted rs p m = filter (\<lambda>r. mr_length r \<noteq> 0) (rs[p := merged_region m])"

lemma compacted_addrs:
  assumes loop: "merge_loop rs (start_merge base len) = (rs', m')" and p: "primary_idx m' = Some p"
    and len: "len \<noteq> 0" and ok: "regions_ok rs" "unat base + unat len \<le> 4294967296"
    and x: "x < 4294967296" "x \<notin> reserved_addrs rs \<union> {unat base ..< unat base + unat len}"
  shows "reserved_addrs (compacted rs' p m') = reserved_addrs rs \<union> {unat base ..< unat base + unat len}"
    and "p < length rs'"
    and "coalesced rs \<Longrightarrow> coalesced (compacted rs' p m')"
proof -
  note L = loop_relD [OF merge_loop_rel [OF start_merge_ok(1) [OF len] start_merge_ok(2) loop],
      unfolded start_merge_ok]
  show pl: "p < length rs'" using L(6) [OF p] by simp
  let ?A = "reserved_addrs rs \<union> {unat base ..< unat base + unat len}"
  have sub: "merge_span m' \<subseteq> ?A" using L(1) by blast
  have A: "?A \<subseteq> {..<4294967296}" using ok unfolding regions_ok_addrs by auto
  note M = merged_region_span [OF L(2) sub A x]
  have inner: "region_span (rs' ! p) \<subseteq> merge_span m'"
    using L(4) pl p by (simp add: primary_in_def)
  have "reserved_addrs rs' = region_span (rs' ! p) \<union> (\<Union>k \<in> {..<length rs'} - {p}. region_span (rs' ! k))"
    using reserved_addrs_update [OF pl, of "rs' ! p"] by simp
  with inner have "reserved_addrs (rs'[p := merged_region m']) = reserved_addrs rs' \<union> merge_span m'"
    unfolding reserved_addrs_update [OF pl] M(1) by blast
  with L(1) show "reserved_addrs (compacted rs' p m') = ?A"
    by (simp add: compacted_def reserved_addrs_filter)
  assume co: "coalesced rs"
  have old: "apart_regions (rs' ! i) (rs' ! j)" if "i < j" "j < length rs'" for i j
  proof -
    have "apart_regions (rs ! i) (rs ! j)" 
      using co that list_all2_lengthD [OF L(3)] by (auto simp: coalesced_def sorted_wrt_iff_nth_less)
    moreover have "rs' ! i = rs ! i \<or> \<not> live_region (rs' ! i)" "rs' ! j = rs ! j \<or> \<not> live_region (rs' ! j)"
      using list_all2_nthD2 [OF L(3)] that by auto
    ultimately show ?thesis by (auto simp: apart_regions_def)
  qed
  have new: "apart_regions (rs' ! k) (merged_region m')" if "k < length rs'" "k \<noteq> p" for k
  proof -
    have "\<not> touches (rs' ! k) m'" using L(5) [of k] that p by auto
    with M(4) show ?thesis unfolding apart_regions_def M(3) by (auto simp: touches_def)
  qed
  have "sorted_wrt apart_regions (rs'[p := merged_region m'])"
    unfolding sorted_wrt_iff_nth_less
  proof (intro allI impI)
    fix i j assume "i < j" "j < length (rs'[p := merged_region m'])"
    then show "apart_regions (rs'[p := merged_region m'] ! i) (rs'[p := merged_region m'] ! j)"
      using old [of i j] new [of i] new [of j, THEN apart_sym] by (cases "i = p"; cases "j = p") auto
  qed
  then show "coalesced (compacted rs' p m')"
    by (simp add: coalesced_def compacted_def sorted_wrt_filter)
qed


lemma appended_addrs:
  assumes loop: "merge_loop rs (start_merge base len) = (rs', m')" and p: "primary_idx m' = None"
    and len: "len \<noteq> 0"
  defines "r \<equiv> \<lparr>mr_base = base, mr_length = len, mr_type = MEM_RESERVED\<rparr>"
  shows "rs' = rs" "reserved_addrs (rs @ [r]) = reserved_addrs rs \<union> {unat base ..< unat base + unat len}"
    "coalesced rs \<Longrightarrow> coalesced (rs @ [r])"
proof -
  note L = loop_relD [OF merge_loop_rel [OF start_merge_ok(1) [OF len] start_merge_ok(2) loop],
      unfolded start_merge_ok]
  show rs: "rs' = rs" using L(8) [OF p] by simp
  have live: "live_region r" using len by (simp add: live_region_def r_def)
  then show "reserved_addrs (rs @ [r]) = reserved_addrs rs \<union> {unat base ..< unat base + unat len}"
    by (auto simp: reserved_addrs_append region_span_def r_def)
  assume co: "coalesced rs"
  have span: "{merged_base m' ..< merged_end m'} = {unat base ..< unat base + unat len}"
    using L(8) [OF p] by (simp add: merge_span_def)
  then have b: "merged_base m' = unat base" "merged_end m' = unat base + unat len"
    using L(2) len by (auto simp: unat_gt_0 atLeastLessThan_eq_iff)
  have "apart_regions q r" if q: "q \<in> set rs" for q
  proof -
    obtain k where "k < length rs" "q = rs ! k" using q by (auto simp: in_set_conv_nth)
    then have "\<not> touches q m'" using L(5) [of k] p rs by auto
    then show ?thesis by (auto simp: apart_regions_def touches_def b r_def)
  qed
  then show "coalesced (rs @ [r])" using co by (simp add: coalesced_def sorted_wrt_append)
qed

lemma pmm_reserve_range_eq:
  assumes "merge_loop (mem_regions s) (start_merge base len) = (rs, m)" "len \<noteq> 0"
  shows "pmm_reserve_range base len init s =
    (case primary_idx m of
       Some p \<Rightarrow> do {
         s \<leftarrow> (if init then pmm_init_single (merged_region m) (s\<lparr>mem_regions := rs\<rparr>)
              else Some (s\<lparr>mem_regions := rs\<rparr>));
         Some (PMM_UPDATED_EXISTING_REGION, s\<lparr>mem_regions := compacted rs p m\<rparr>) }
     | None \<Rightarrow>
         if length rs \<ge> MEM_REGIONS_MAX then Some (PMM_NO_MORE_REGION_SLOTS, s\<lparr>mem_regions := rs\<rparr>)
         else do {
           s \<leftarrow> (let s' = s\<lparr>mem_regions := rs @ [\<lparr>mr_base = base, mr_length = len, mr_type = MEM_RESERVED\<rparr>]\<rparr>
                in if init then pmm_init_single \<lparr>mr_base = base, mr_length = len, mr_type = MEM_RESERVED\<rparr> s'
                else Some s');
           Some (PMM_RESERVE_SUCCESS, s) })"
  using assms unfolding pmm_reserve_range_def start_merge_def
  by (simp add: Let_def merged_region_def compacted_def split: option.split)


section \<open>Frames of the reserved addresses\<close>

lemma frames_of_interval:
  assumes "len \<noteq> 0"
  shows "(\<lambda>x. x div 4096) ` {unat base ..< unat base + unat len} = touched base len"
proof (rule set_eqI)
  fix f
  have "f \<in> (\<lambda>x. x div 4096) ` {a..<b} \<longleftrightarrow> f * 4096 < b \<and> a < f * 4096 + 4096" if "a < b" for a b :: nat
  proof
    assume "f * 4096 < b \<and> a < f * 4096 + 4096"
    then have "max a (f * 4096) \<in> {a..<b}" "max a (f * 4096) div 4096 = f" using that by auto
    then show "f \<in> (\<lambda>x. x div 4096) ` {a..<b}" by (metis image_eqI)
  qed auto
  then show "f \<in> (\<lambda>x. x div 4096) ` {unat base ..< unat base + unat len} \<longleftrightarrow> f \<in> touched base len"
    using assms by (simp add: touched_iff unat_gt_0)
qed

lemma reserved_frames_addrs: "reserved_frames rs = (\<lambda>x. x div 4096) ` reserved_addrs rs"
proof (induction rs)
  case (Cons r rs)
  have "(\<lambda>x. x div 4096) ` region_span r = (if live_region r then touched (mr_base r) (mr_length r) else {})"
    by (simp add: region_span_def live_region_def frames_of_interval)
  with Cons show ?case by (simp add: image_Un)
qed simp

lemma compacted_frames:
  assumes "list_all2 (\<lambda>r r'. r' = r \<or> \<not> live_region r') rs rs'"
  shows "reserved_frames (compacted rs' p m) \<subseteq>
    touched (mr_base (merged_region m)) (mr_length (merged_region m)) \<union> reserved_frames rs"
proof -
  have "r \<in> set rs" if "r \<in> set rs'" "live_region r" for r
    using assms that by (induction rs rs' rule: list_all2_induct) auto
  moreover have "set (compacted rs' p m) \<subseteq> insert (merged_region m) (set rs')"
    unfolding compacted_def using set_update_subset_insert [of rs' p "merged_region m"] by auto
  ultimately show ?thesis by (fastforce simp: reserved_frames_def)
qed

lemma pmm_init_single_step:
  assumes "pmm_core s" "pagebitmap s \<noteq> 0" "mr_type r = MEM_RESERVED"
  shows "\<exists>s'. pmm_init_single r s = Some s' \<and>
    bm_step s (used_frames s \<union> touched (mr_base r) (mr_length r) \<inter> {..< unat (frame_count s)}) s'"
proof (cases "frame_count s = 0")
  case True
  with assms show ?thesis by (simp add: pmm_init_single_def bm_step_def)
next
  case False
  with assms bm_set_range_touched_step [OF assms(1)] show ?thesis by (simp add: pmm_init_single_def)
qed

text \<open>Replacing the table keeps the invariant when the new reservations are taken.\<close>

lemma replace_regions:
  assumes inv: "pmm_inv s" and len: "length rs \<le> MEM_REGIONS_MAX"
    and step: "bm_step (s\<lparr>mem_regions := rs0\<rparr>) U s1"
    and U: "U = used_frames s \<union> T \<inter> {..< unat (frame_count s)}"
    and new: "reserved_frames rs \<subseteq> T \<union> reserved_frames (mem_regions s)"
  defines "s' \<equiv> s1\<lparr>mem_regions := rs\<rparr>"
  shows "pmm_inv s'" "free_frames s' = free_frames s - T"
    "pmm_only (s\<lparr>mem_regions := rs\<rparr>) s'"
proof -
  have only: "bm_only (s\<lparr>mem_regions := rs0\<rparr>) s1" and core: "pmm_core s1" and used: "used_frames s1 = U"
    using step by (simp_all add: bm_step_def)
  note same = bm_onlyD [OF only]
  show free: "free_frames s' = free_frames s - T"
    using used same U by (auto simp: s'_def free_frames_def used_frames_def)
  have "pmm_core s'" using core by (simp add: pmm_core_def s'_def free_frames_def used_frames_def)
  with inv len new free same show "pmm_inv s'"
    by (auto simp: pmm_inv_def s'_def)
  show "pmm_only (s\<lparr>mem_regions := rs\<rparr>) s'"
    using only unfolding s'_def by (elim bm_onlyE) (simp add: pmm_only_def)
qed


lemma regions_core:
  assumes "pmm_inv s"
  shows "pmm_core (s\<lparr>mem_regions := rs\<rparr>)" "pagebitmap (s\<lparr>mem_regions := rs\<rparr>) \<noteq> 0"
    "reserved_frames (mem_regions s) \<inter> free_frames s = {}" "length (mem_regions s) \<le> MEM_REGIONS_MAX"
  using assms by (simp_all add: pmm_inv_def pmm_core_def free_frames_def used_frames_def)

text \<open>The effect of a reservation on the table and on the free frames.\<close>

definition reserved_now :: "u32 \<Rightarrow> u32 \<Rightarrow> 'a pmm_scheme \<Rightarrow> 'a pmm_scheme \<Rightarrow> bool" where
  "reserved_now base len s s' \<longleftrightarrow> pmm_inv s' \<and> pmm_only (s\<lparr>mem_regions := mem_regions s'\<rparr>) s' \<and>
     reserved_addrs (mem_regions s') = reserved_addrs (mem_regions s) \<union> {unat base ..< unat base + unat len} \<and>
     (coalesced (mem_regions s) \<longrightarrow> coalesced (mem_regions s')) \<and>
     free_frames s' = free_frames s - touched base len"

lemma new_frames:
  "len \<noteq> 0 \<Longrightarrow> (\<lambda>x. x div 4096) ` (reserved_addrs rs \<union> {unat base ..< unat base + unat len}) =
     reserved_frames rs \<union> touched base len"
  by (simp add: image_Un frames_of_interval reserved_frames_addrs)

lemma reserve_range_merged:
  assumes inv: "pmm_inv s" and ok: "regions_ok (mem_regions s)" and len: "len \<noteq> 0"
    and bound: "unat base + unat len \<le> 4294967296"
    and x: "x < 4294967296" "x \<notin> reserved_addrs (mem_regions s) \<union> {unat base ..< unat base + unat len}"
    and loop: "merge_loop (mem_regions s) (start_merge base len) = (rs, m)"
    and p: "primary_idx m = Some p"
  shows "\<exists>s'. pmm_reserve_range base len True s = Some (PMM_UPDATED_EXISTING_REGION, s') \<and>
    reserved_now base len s s'"
proof -
  note L = loop_relD [OF merge_loop_rel [OF start_merge_ok(1) [OF len] start_merge_ok(2) loop],
      unfolded start_merge_ok]
  note C = compacted_addrs [OF loop p len ok bound x]
  let ?T = "touched (mr_base (merged_region m)) (mr_length (merged_region m))"
    and ?new = "{unat base ..< unat base + unat len}"
  obtain s1 where s1: "pmm_init_single (merged_region m) (s\<lparr>mem_regions := rs\<rparr>) = Some s1"
    and b: "bm_step (s\<lparr>mem_regions := rs\<rparr>) (used_frames s \<union> ?T \<inter> {..< unat (frame_count s)}) s1"
    using pmm_init_single_step [OF regions_core(1,2) [OF inv], of "merged_region m" rs]
    by (auto simp: merged_region_def used_frames_def)
  have "length (compacted rs p m) \<le> length rs"
    unfolding compacted_def by (rule le_trans [OF length_filter_le]) simp
  then have n: "length (compacted rs p m) \<le> MEM_REGIONS_MAX"
    using regions_core(4) [OF inv] list_all2_lengthD [OF L(3)] by simp
  note R = replace_regions [OF inv n b refl compacted_frames [OF L(3)]]
  have sub: "merge_span m \<subseteq> reserved_addrs (mem_regions s) \<union> ?new" using L(1) by blast
  have A: "reserved_addrs (mem_regions s) \<union> ?new \<subseteq> {..<4294967296}"
    using ok bound unfolding regions_ok_addrs by auto
  note M = merged_region_span [OF L(2) sub A x]
  have "?T = (\<lambda>x. x div 4096) ` merge_span m"
    using M(2) frames_of_interval [of "mr_length (merged_region m)" "mr_base (merged_region m)"]
    by (simp add: M(3,4) merge_span_def live_region_def flip: M(4))
  then have T: "?T \<subseteq> reserved_frames (mem_regions s) \<union> touched base len"
    using image_mono [OF sub, of "\<lambda>x. x div 4096"] unfolding new_frames [OF len] by simp
  let ?s' = "s1\<lparr>mem_regions := compacted rs p m\<rparr>"
  have "touched base len \<subseteq> reserved_frames (mem_regions ?s')"
    using new_frames [OF len] C(1) by (auto simp: reserved_frames_addrs)
  then have "touched base len \<inter> free_frames ?s' = {}"
    using R(1) by (auto simp: pmm_inv_def)
  with R(2) T regions_core(3) [OF inv] have "free_frames ?s' = free_frames s - touched base len" by blast
  with R C have "reserved_now base len s ?s'" by (simp add: reserved_now_def)
  with pmm_reserve_range_eq [OF loop len, of True] p s1 show ?thesis by auto
qed

lemma reserve_range_appended:
  assumes inv: "pmm_inv s" and len: "len \<noteq> 0" and room: "length (mem_regions s) < MEM_REGIONS_MAX"
    and loop: "merge_loop (mem_regions s) (start_merge base len) = (rs, m)"
    and p: "primary_idx m = None"
  shows "\<exists>s'. pmm_reserve_range base len True s = Some (PMM_RESERVE_SUCCESS, s') \<and>
    reserved_now base len s s'"
proof -
  note N = appended_addrs [OF loop p len]
  let ?r = "\<lparr>mr_base = base, mr_length = len, mr_type = MEM_RESERVED\<rparr>"
  let ?rs = "mem_regions s @ [?r]"
  obtain s1 where s1: "pmm_init_single ?r (s\<lparr>mem_regions := ?rs\<rparr>) = Some s1"
    and b: "bm_step (s\<lparr>mem_regions := ?rs\<rparr>)
      (used_frames s \<union> touched base len \<inter> {..< unat (frame_count s)}) s1"
    using pmm_init_single_step [OF regions_core(1,2) [OF inv], of ?r ?rs] by (auto simp: used_frames_def)
  have n: "length ?rs \<le> MEM_REGIONS_MAX" using room by simp
  have new: "reserved_frames ?rs \<subseteq> touched base len \<union> reserved_frames (mem_regions s)"
    unfolding reserved_frames_addrs N(2) using new_frames [OF len] by (auto simp: reserved_frames_addrs)
  note R = replace_regions [OF inv n b refl new]
  have r: "mem_regions s1 = ?rs" using b bm_onlyD(4) by (fastforce simp: bm_step_def)
  then have "s1\<lparr>mem_regions := ?rs\<rparr> = s1" by (metis pmm.surjective pmm.update_convs(9))
  with R N r have "reserved_now base len s s1" by (simp add: reserved_now_def)
  with pmm_reserve_range_eq [OF loop len, of True] p room s1 N(1) show ?thesis by auto
qed

lemma reserve_range_step:
  assumes inv: "pmm_inv s" and ok: "regions_ok (mem_regions s)" and len: "len \<noteq> 0"
    and bound: "unat base + unat len \<le> 4294967296"
    and x: "x < 4294967296" "x \<notin> reserved_addrs (mem_regions s) \<union> {unat base ..< unat base + unat len}"
  shows "\<exists>r s'. pmm_reserve_range base len True s = Some (r, s') \<and>
    (r = PMM_NO_MORE_REGION_SLOTS \<and> s' = s \<and> length (mem_regions s) = MEM_REGIONS_MAX \<or>
     reserve_ok r \<and> reserved_now base len s s')"
proof -
  obtain rs m where loop: "merge_loop (mem_regions s) (start_merge base len) = (rs, m)" by (meson surj_pair)
  show ?thesis
  proof (cases "primary_idx m")
    case (Some p)
    with reserve_range_merged [OF inv ok len bound x loop] show ?thesis by (auto simp: reserve_ok_def)
  next
    case None
    note N = appended_addrs [OF loop None len]
    show ?thesis
    proof (cases "length (mem_regions s) < MEM_REGIONS_MAX")
      case True
      with reserve_range_appended [OF inv len _ loop None] show ?thesis by (auto simp: reserve_ok_def)
    next
      case False
      with pmm_reserve_range_eq [OF loop len, of True] None N(1) regions_core(4) [OF inv]
      show ?thesis by (simp add: reserve_ok_def)
    qed
  qed
qed


section \<open>Reserving a frame\<close>

lemma find_unreserved_Suc:
  assumes "pmm_inv s" "unat f < unat (frame_count s)"
  shows "find_unreserved (Suc n) f s =
    (if unat f \<in> free_frames s then Some (Some f) else find_unreserved n (next_frame s f) s)"
proof -
  have core: "pmm_core s" and "unat f < 1048576" using assms by (auto simp: pmm_inv_def pmm_core_def)
  then have "pmm_is_region_reserved (push_bit 12 f) 4096 s \<longleftrightarrow> unat f \<in> reserved_frames (mem_regions s)"
    by (simp add: frame_reserved_iff)
  moreover have "unat f \<in> free_frames s \<longleftrightarrow> unat f \<notin> used_frames s"
    using assms(2) by (simp add: free_frames_def)
  ultimately show ?thesis
    using frame_query [OF core assms(2)] assms(1) by (auto simp: pmm_inv_def)
qed

lemma find_unreserved_eq:
  assumes "pmm_inv s" "unat f < unat (frame_count s)"
  shows "find_unreserved n f s = Some (scan_free n f s)"
  using assms(2)
proof (induction n arbitrary: f)
  case (Suc n)
  then show ?case
    unfolding find_unreserved_Suc [OF assms(1) Suc.prems] by (simp add: next_frame_less)
qed simp

lemma touched_frame:
  assumes "unat f < 1048576"
  shows "touched (push_bit 12 f) 4096 = {unat f}"
    "{unat (push_bit 12 f) ..< unat (push_bit 12 f) + unat (4096 :: u32)} = {unat f * 4096 ..< unat f * 4096 + 4096}"
  using assms by (auto simp: touched_def unat_push12)

text \<open>Zeroing a frame that is reachable: below the end of the window once it is in use.\<close>

definition reachable_frames :: "'a pmm_scheme \<Rightarrow> bool" where
  "reachable_frames s \<longleftrightarrow> (use_phys_window_alias s \<longrightarrow> unat (frame_count s) \<le> 0x30000)"

lemma clear_frame_eq:
  assumes "reachable_frames s" "unat f < unat (frame_count s)" "unat f < 1048576"
  shows "clear_frame (push_bit 12 f) s = Some (s\<lparr>mem := zero_bytes 4096 (push_bit 12 f) (mem s)\<rparr>)"
proof -
  have "in_window (push_bit 12 f)" if "use_phys_window_alias s"
    using assms that by (simp add: reachable_frames_def in_window_def unat_push12)
  then have "frame_ptr (push_bit 12 f) s \<noteq> None"
    by (simp add: frame_ptr_def phys_to_virt_in_window)
  then show ?thesis by (auto simp: clear_frame_def)
qed

lemma pmm_inv_mem [simp]: "pmm_inv (s\<lparr>mem := m\<rparr>) = pmm_inv s" "free_frames (s\<lparr>mem := m\<rparr>) = free_frames s"
  by (simp_all add: pmm_inv_def pmm_core_def free_frames_def used_frames_def)

text \<open>Setting the bit of a frame that is taken already, and moving the hint.\<close>

lemma set_taken_frame:
  assumes "pmm_inv s" "unat f < unat (frame_count s)" "unat f \<notin> free_frames s"
  shows "\<exists>s1. bm_set f s = Some s1 \<and> (\<forall>h. h < frame_count s \<longrightarrow> pmm_inv (s1\<lparr>frame_hint := h\<rparr>)) \<and>
    free_frames s1 = free_frames s \<and> bm_only s s1"
proof -
  have core: "pmm_core s" using assms(1) by (simp add: pmm_inv_def)
  obtain s1 where s1: "bm_set f s = Some s1" "pmm_core s1" "bm_only s s1"
    "used_frames s1 = insert (unat f) (used_frames s)"
    by (rule bm_set_step [OF core assms(2)])
  note same = bm_onlyD [OF s1(3)]
  have free: "free_frames s1 = free_frames s"
    using s1(4) assms(2,3) same by (auto simp: free_frames_def)
  have "pmm_inv (s1\<lparr>frame_hint := h\<rparr>)" if "h < frame_count s" for h
    using assms(1) s1(2) free same that
    by (simp add: pmm_inv_def pmm_core_def free_frames_def used_frames_def)
  with s1 free show ?thesis by blast
qed

definition frame_reserved :: "u32 \<Rightarrow> 'a pmm_scheme \<Rightarrow> 'a pmm_scheme \<Rightarrow> bool" where
  "frame_reserved f s s' \<longleftrightarrow> pmm_inv s' \<and> free_frames s' = free_frames s - {unat f} \<and>
     reserved_addrs (mem_regions s') =
       reserved_addrs (mem_regions s) \<union> {unat f * 4096 ..< unat f * 4096 + 4096} \<and>
     mem s' = zero_bytes 4096 (push_bit 12 f) (mem s) \<and>
     frame_count s' = frame_count s \<and> pagebitmap s' = pagebitmap s \<and>
     s' = s\<lparr>bitmap_bytes := bitmap_bytes s', available_frames := available_frames s',
            frame_hint := frame_hint s', mem_regions := mem_regions s', mem := mem s'\<rparr>"

lemma reserve_pageframe_step:
  assumes inv: "pmm_inv s" and ok: "regions_ok (mem_regions s)" and reach: "reachable_frames s"
    and x: "x < 4294967296" "x \<notin> reserved_addrs (mem_regions s)" "x div 4096 \<notin> free_frames s"
    and found: "scan_free (unat (frame_count s)) (frame_hint s) s = Some f" "unat f \<in> free_frames s"
  shows "\<exists>res s'. pmm_reserve_pageframe True s = Some (res, s') \<and>
    (res = Inl PAGING_ERR_FRAME_RESERVE_FAILED \<and> s' = s \<and> length (mem_regions s) = MEM_REGIONS_MAX \<or>
     res = Inr (push_bit 12 f) \<and> frame_reserved f s s')"
proof -
  have lt: "unat f < unat (frame_count s)" using found(2) by (simp add: free_frames_def)
  have small: "unat f < 1048576" using inv_frame_small [OF inv lt] .
  note T = touched_frame [OF small]
  have b: "unat (push_bit 12 f) + unat (4096 :: u32) \<le> 4294967296" using small by (simp add: unat_push12)
  have "y div 4096 = k" if "k * 4096 \<le> y" "y < k * 4096 + 4096" for y k :: nat using that by linarith
  then have "x \<notin> {unat f * 4096 ..< unat f * 4096 + 4096}" using x(3) found(2) by force
  then have x': "x \<notin> reserved_addrs (mem_regions s) \<union> {unat (push_bit 12 f) ..< unat (push_bit 12 f) + unat (4096 :: u32)}"
    using x(2) by (simp add: unat_push12 [OF small])
  obtain r s1 where s1: "pmm_reserve_range (push_bit 12 f) 4096 True s = Some (r, s1)"
    and r: "r = PMM_NO_MORE_REGION_SLOTS \<and> s1 = s \<and> length (mem_regions s) = MEM_REGIONS_MAX \<or>
     reserve_ok r \<and> reserved_now (push_bit 12 f) 4096 s s1"
    using reserve_range_step [OF inv ok _ b x(1) x'] by auto
  have fnd: "find_unreserved (unat (frame_count s)) (frame_hint s) s = Some (Some f)"
    using find_unreserved_eq [OF inv inv_ready(1) [OF inv]] found(1) by simp
  show ?thesis
  proof (cases "reserve_ok r")
    case False
    with r s1 fnd show ?thesis by (auto simp: pmm_reserve_pageframe_def reserve_ok_def)
  next
    case True
    with r have N: "reserved_now (push_bit 12 f) 4096 s s1" by (auto simp: reserve_ok_def)
    then have inv1: "pmm_inv s1" and free1: "free_frames s1 = free_frames s - {unat f}"
      and only1: "pmm_only (s\<lparr>mem_regions := mem_regions s1\<rparr>) s1"
      by (simp_all add: reserved_now_def T)
    note same1 = pmm_onlyD [OF only1]
    have lt1: "unat f < unat (frame_count s1)" using lt same1 by simp
    have nf: "unat f \<notin> free_frames s1" by (simp add: free1)
    obtain s2 where s2: "bm_set f s1 = Some s2" "\<And>h. h < frame_count s1 \<Longrightarrow> pmm_inv (s2\<lparr>frame_hint := h\<rparr>)"
      "free_frames s2 = free_frames s1" "bm_only s1 s2"
      using set_taken_frame [OF inv1 lt1 nf] by blast
    note same2 = bm_onlyD [OF s2(4)]
    define s3 where "s3 = s2\<lparr>frame_hint := (f + 1) mod frame_count s2\<rparr>"
    have "(f + 1) mod frame_count s2 < frame_count s1"
      using lt1 by (simp add: word_less_nat_alt unat_mod_u32 same2)
    then have inv3: "pmm_inv s3" unfolding s3_def by (rule s2(2))
    have reach3: "reachable_frames s3"
      using reach same1 same2 by (simp add: s3_def reachable_frames_def)
    have clr: "clear_frame (push_bit 12 f) s3 = Some (s3\<lparr>mem := zero_bytes 4096 (push_bit 12 f) (mem s3)\<rparr>)"
      using lt1 small same2 by (intro clear_frame_eq [OF reach3]) (simp_all add: s3_def)
    let ?s' = "s3\<lparr>mem := zero_bytes 4096 (push_bit 12 f) (mem s3)\<rparr>"
    define R where "R = mem_regions s1"
    have eq: "?s' = s\<lparr>bitmap_bytes := bitmap_bytes ?s', available_frames := available_frames ?s',
            frame_hint := frame_hint ?s', mem_regions := mem_regions ?s', mem := mem ?s'\<rparr>"
      using only1 [folded R_def] s2(4) unfolding s3_def by (elim pmm_onlyE bm_onlyE) simp
    have "free_frames s3 = free_frames s2" by (simp add: s3_def free_frames_def used_frames_def)
    then have free: "free_frames ?s' = free_frames s - {unat f}" using s2(3) free1 by simp
    have "reserved_addrs (mem_regions s1) =
        reserved_addrs (mem_regions s) \<union> {unat f * 4096 ..< unat f * 4096 + 4096}"
      using N T(2) unfolding reserved_now_def by metis
    then have "frame_reserved f s ?s'"
      unfolding frame_reserved_def using inv3 free
      by (intro conjI eq) (simp_all add: s3_def same1(1,2,4) same2)
    moreover have "pmm_reserve_pageframe True s = Some (Inr (push_bit 12 f), ?s')"
      using fnd s1 True s2(1) clr by (simp add: pmm_reserve_pageframe_def s3_def)
    ultimately show ?thesis by blast
  qed
qed


section \<open>Properties\<close>

text \<open>
  (C1) \<^verbatim>\<open>pmm_reserve_range\<close> with \<^verbatim>\<open>init\<close>: its merge loop terminates, and unless the table is full and no
  region can be extended, the addresses of the table grow by exactly the new span, the table stays
  coalesced, the frames of the span are no longer free and no other frame is affected. The span must
  end below 4 GiB and may not complete a reservation of the whole address space.
\<close>

theorem pmm_reserve_range_correct:
  assumes "pmm_inv s" "regions_ok (mem_regions s)" "len \<noteq> 0" "unat base + unat len \<le> 4294967296"
    and "x < 4294967296" "x \<notin> reserved_addrs (mem_regions s) \<union> {unat base ..< unat base + unat len}"
  shows "\<exists>r s'. pmm_reserve_range base len True s = Some (r, s') \<and> pmm_inv s' \<and>
    (r = PMM_NO_MORE_REGION_SLOTS \<and> s' = s \<and> length (mem_regions s) = MEM_REGIONS_MAX \<or>
     (r = PMM_RESERVE_SUCCESS \<or> r = PMM_UPDATED_EXISTING_REGION) \<and>
     reserved_addrs (mem_regions s') = reserved_addrs (mem_regions s) \<union> {unat base ..< unat base + unat len} \<and>
     (coalesced (mem_regions s) \<longrightarrow> coalesced (mem_regions s')) \<and>
     free_frames s' = free_frames s - touched base len)"
  using reserve_range_step [OF assms] assms(1) by (auto simp: reserved_now_def reserve_ok_def)

theorem pmm_reserve_range_correct_witness:
  "\<exists>r s'. pmm_reserve_range 0xC000 0x1000 True ex_pmm = Some (r, s') \<and>
     free_frames s' = {13..<16} \<and> reserved_addrs (mem_regions s') = {..<0x8000} \<union> {0xC000..<0xD000}"
proof -
  have a: "reserved_addrs (mem_regions ex_pmm) = {..<0x8000}"
    by (auto simp: ex_pmm_def region_span_def live_region_def)
  have ok: "regions_ok (mem_regions ex_pmm)" unfolding regions_ok_addrs a by auto
  have n: "length (mem_regions ex_pmm) \<noteq> MEM_REGIONS_MAX" by (simp add: ex_pmm_def MEM_REGIONS_MAX_def)
  have t: "touched 0xC000 0x1000 = {12}" by (auto simp: touched_def)
  have d: "{12..<16} - {12} = {13..<16 :: nat}" by auto
  show ?thesis
    using pmm_reserve_range_correct [OF ex_pmm_inv ok, of "0x1000" "0xC000" "0xF000"] n
    by (auto simp: a t d ex_pmm_free)
qed


text \<open>
  (C10) \<^verbatim>\<open>pmm_reserve_pageframe\<close> with \<^verbatim>\<open>clear\<close>: with no frame free it returns \<^verbatim>\<open>PAGING_ERR_NOMEM\<close>; otherwise it
  picks the first free frame in search order, adds it to the reserved regions and to the bitmap, and
  zeroes its 4096 bytes and no others (or, with a full region table, fails and changes nothing).
\<close>

theorem pmm_reserve_pageframe_correct:
  assumes "pmm_inv s" "regions_ok (mem_regions s)" "reachable_frames s"
    and "x < 4294967296" "x \<notin> reserved_addrs (mem_regions s)" "x div 4096 \<notin> free_frames s"
  shows "\<exists>res s'. pmm_reserve_pageframe True s = Some (res, s') \<and>
    (free_frames s = {} \<and> res = Inl PAGING_ERR_NOMEM \<and> s' = s \<or>
     res = Inl PAGING_ERR_FRAME_RESERVE_FAILED \<and> s' = s \<and> length (mem_regions s) = MEM_REGIONS_MAX \<or>
     (\<exists>k. visit s k \<in> free_frames s \<and> (\<forall>j. j < k \<longrightarrow> visit s j \<notin> free_frames s) \<and>
        res = Inr (push_bit 12 (of_nat (visit s k))) \<and> frame_reserved (of_nat (visit s k)) s s'))"
proof (cases "free_frames s = {}")
  case True
  with find_unreserved_eq [OF assms(1) inv_ready(1) [OF assms(1)]] show ?thesis
    by (simp add: pmm_reserve_pageframe_def scan_free_none)
next
  case False
  obtain k where k: "k < unat (frame_count s)" "visit s k \<in> free_frames s"
    "\<And>j. j < k \<Longrightarrow> visit s j \<notin> free_frames s"
    using first_free [OF assms(1) False] by metis
  have "visit s k < 1048576" using k(2) inv_frame_small [OF assms(1)] by (simp add: free_frames_def)
  then have "unat (of_nat (visit s k) :: u32) = visit s k" by (intro unat_of_nat_u32) simp
  with reserve_pageframe_step [OF assms get_next_first(1) [OF assms(1) k]] k(2,3) show ?thesis
    by auto
qed

theorem pmm_reserve_pageframe_correct_witness:
  "\<exists>s'. pmm_reserve_pageframe True ex_pmm = Some (Inr 0xC000, s') \<and> free_frames s' = {13..<16}"
proof -
  have a: "reserved_addrs (mem_regions ex_pmm) = {..<0x8000}"
    by (auto simp: ex_pmm_def region_span_def live_region_def)
  have ok: "regions_ok (mem_regions ex_pmm)" unfolding regions_ok_addrs a by auto
  have rf: "reachable_frames ex_pmm" by (simp add: reachable_frames_def ex_pmm_def)
  have n: "length (mem_regions ex_pmm) \<noteq> MEM_REGIONS_MAX" by (simp add: ex_pmm_def MEM_REGIONS_MAX_def)
  have d: "{12..<16} - {12} = {13..<16 :: nat}" by auto
  have x: "36864 < (4294967296 :: nat)" "36864 \<notin> reserved_addrs (mem_regions ex_pmm)"
    "36864 div 4096 \<notin> free_frames ex_pmm" by (simp_all add: a ex_pmm_free)
  obtain res s' where r: "pmm_reserve_pageframe True ex_pmm = Some (res, s')"
    and c: "free_frames ex_pmm = {} \<and> res = Inl PAGING_ERR_NOMEM \<and> s' = ex_pmm \<or>
     res = Inl PAGING_ERR_FRAME_RESERVE_FAILED \<and> s' = ex_pmm \<and> length (mem_regions ex_pmm) = MEM_REGIONS_MAX \<or>
     (\<exists>k. visit ex_pmm k \<in> free_frames ex_pmm \<and> (\<forall>j. j < k \<longrightarrow> visit ex_pmm j \<notin> free_frames ex_pmm) \<and>
        res = Inr (push_bit 12 (of_nat (visit ex_pmm k))) \<and> frame_reserved (of_nat (visit ex_pmm k)) ex_pmm s')"
    using pmm_reserve_pageframe_correct [OF ex_pmm_inv ok rf x] by (elim exE conjE) (rule that)
  have "free_frames ex_pmm \<noteq> {}" by (simp add: ex_pmm_free)
  with c n obtain k where k: "visit ex_pmm k \<in> free_frames ex_pmm"
      "\<forall>j. j < k \<longrightarrow> visit ex_pmm j \<notin> free_frames ex_pmm"
    and f: "res = Inr (push_bit 12 (of_nat (visit ex_pmm k)))" "frame_reserved (of_nat (visit ex_pmm k)) ex_pmm s'"
    by blast
  have "visit ex_pmm k = 12" using k by (rule ex_pmm_first)
  with r f show ?thesis by (simp add: frame_reserved_def ex_pmm_free d)
qed




text \<open>A manager in which frames 12 and 14 are free and their neighbours are taken.\<close>

definition ex_seq :: pmm where
  "ex_seq = ex_pmm\<lparr>bitmap_bytes := [0xFF, 0xAF], available_frames := 2\<rparr>"


lemmas scan_numeral =
  find_unreserved.simps(2) [of "pred_numeral k" for k, folded numeral_eq_Suc]
  seq_window.simps(2) [of _ "pred_numeral k" for k, folded numeral_eq_Suc]
  bm_set_frames.simps(2) [of "pred_numeral k" for k, folded numeral_eq_Suc]

lemma ex_seq_search:
  "find_unreserved 16 10 ex_seq = Some (Some 12)" "seq_window 12 4 4 ex_seq = Some 3"
  "pmm_query_bitmap 0xD000 ex_seq = Some True"
  by (simp_all add: scan_numeral ex_seq_def ex_pmm_def pmm_is_region_reserved_def pmm_query_bitmap_def
      next_frame_def bitmap_test_def bm_byte_def bm_mask_def)

lemma ex_seq_reserve:
  "pmm_reserve_range 0xC000 0x3000 True ex_seq =
     Some (PMM_RESERVE_SUCCESS, ex_seq\<lparr>bitmap_bytes := [0xFF, 0xFF], available_frames := 0,
       mem_regions := mem_regions ex_seq @ [\<lparr>mr_base = 0xC000, mr_length = 0x3000, mr_type = MEM_RESERVED\<rparr>]\<rparr>)"
  by (simp add: pmm_reserve_range_def merge_loop.simps merge_step_def Let_def ex_seq_def ex_pmm_def
      MEM_REGIONS_MAX_def pmm_init_single_def bm_set_range_touched_def scan_numeral bm_set_def
      bm_byte_def bm_mask_def bitmap_set_def)


end
