(* ===== verification/Paging.thy ===== *)
theory Paging
  imports Pmm_Reserve
begin

text \<open>
  The paging manager, \<^verbatim>\<open>kernel/paging.c\<close> and \<^verbatim>\<open>kernel/include/paging.h\<close>: the kernel's page directory and page
  tables are ordinary frames of physical memory; the manager keeps the physical address of the
  directory, the address of the table behind each directory entry, and their number.
  \<^verbatim>\<open>paging_init_identity_window\<close> builds the boot address space before paging is on, through physical
  addresses; every later operation goes through the physical window, whose overflow check is the
  only way they can panic besides being called outside ring 0.

  The translation look-aside buffer is not modelled: a flush reloads \<^verbatim>\<open>CR3\<close> with itself.
\<close>

section \<open>Entries and indices\<close>

definition PG_PRESENT :: u32 where "PG_PRESENT = 1"
definition PG_RW :: u32 where "PG_RW = 2"
definition PG_USER :: u32 where "PG_USER = 4"
definition PT_MAX :: u32 where "PT_MAX = 1024"

lemmas pg_defs = PG_PRESENT_def PG_RW_def PG_USER_def PT_MAX_def

record page_table_decoded =
  pd_present :: bool
  pd_rw :: bool
  pd_user :: bool
  kAttributes :: u8
  pfAddress :: u32

definition decode_pte :: "u32 \<Rightarrow> page_table_decoded" where
  "decode_pte pte =
     \<lparr>pd_present = (pte AND PG_PRESENT \<noteq> 0), pd_rw = (pte AND PG_RW \<noteq> 0), pd_user = (pte AND PG_USER \<noteq> 0),
      kAttributes = ucast (drop_bit 9 pte AND 7), pfAddress = drop_bit 12 (pte AND 0xFFFFF000)\<rparr>"

definition pde_index :: "u32 \<Rightarrow> u32" where
  "pde_index la = drop_bit 22 la AND 0x3FF"

definition pte_index :: "u32 \<Rightarrow> u32" where
  "pte_index la = drop_bit 12 la AND 0x3FF"

definition page_offset :: "u32 \<Rightarrow> u32" where
  "page_offset la = la AND 0xFFF"

definition is_page_aligned :: "u32 \<Rightarrow> bool" where
  "is_page_aligned addr \<longleftrightarrow> addr AND 0xFFF = 0"

record paging = pmm +
  page_directory_loc_phys :: u32
  page_tables_loc_phys :: "u32 list" \<comment> \<open>\<^verbatim>\<open>PT_MAX\<close> entries, indexed by directory index\<close>
  page_table_count :: u32
  cr0 :: u32

record paging_query_result =
  q_mapped :: bool
  q_phys_addr :: u32
  q_flags :: u32


section \<open>The boot address space\<close>

text \<open>
  \<^verbatim>\<open>while (remaining > 0)\<close> around \<^verbatim>\<open>pmm_reserve_pageframe_seq\<close>, with the frames written so far to the
  buffer: a round that fails, or reserves nothing, ends it without a result.
\<close>

lemma seq_window_le:
  "seq_window cur n req s = Some c \<Longrightarrow> n \<le> req \<Longrightarrow> c \<le> req"
  by (induction n) (auto simp: Let_def bind_eq_Some_iff split: if_splits)

lemma seq_length:
  assumes "pmm_reserve_pageframe_seq req clr s = Some (Inr fs, s')"
  shows "length fs \<le> unat req"
  using assms seq_window_le [of _ "unat req" "unat req"]
  by (auto simp: pmm_reserve_pageframe_seq_def bind_eq_Some_iff Let_def split: if_splits option.splits)

function reserve_loop ::
  "u32 \<Rightarrow> u32 list \<Rightarrow> 'a paging_scheme \<Rightarrow> (u32 list option \<times> 'a paging_scheme) option" where
  "reserve_loop remaining frames s =
     (if remaining = 0 then Some (Some frames, s)
      else (case pmm_reserve_pageframe_seq remaining True s of
              None \<Rightarrow> None
            | Some (Inl e, s') \<Rightarrow> Some (None, s')
            | Some (Inr fs, s') \<Rightarrow>
                if fs = [] then Some (None, s')
                else reserve_loop (remaining - of_nat (length fs)) (frames @ fs) s'))"
  by pat_completeness auto

lemma reserve_loop_decreases:
  assumes "pmm_reserve_pageframe_seq r c s = Some (Inr fs, s')" "fs \<noteq> []"
  shows "unat (r - of_nat (length fs)) < unat r"
proof -
  have le: "length fs \<le> unat r" using seq_length [OF assms(1)] .
  then have "length fs < 4294967296" using unat_u32_less [of r] by linarith
  then have "unat (of_nat (length fs) :: u32) = length fs" by (rule unat_of_nat_u32)
  moreover from this le have "of_nat (length fs) \<le> r" by (simp add: word_le_nat_alt)
  ultimately have "unat (r - of_nat (length fs)) = unat r - length fs" by (simp add: unat_sub_u32)
  with assms(2) le show ?thesis by (cases fs) auto
qed

termination reserve_loop
  by (relation "measure (\<lambda>(r, _, _). unat r)") (auto intro: reserve_loop_decreases)

declare reserve_loop.simps [simp del]

text \<open>Directory entry \<open>i\<close> and the record of its table.\<close>

definition set_table :: "u32 \<Rightarrow> u32 \<Rightarrow> 'a paging_scheme \<Rightarrow> 'a paging_scheme" where
  "set_table i pt s =
     s\<lparr>page_tables_loc_phys := (page_tables_loc_phys s)[unat i := pt],
       mem := st32 (mem s) (tbl (page_directory_loc_phys s) i) (pt OR PG_PRESENT OR PG_RW)\<rparr>"

text \<open>The first \<open>n\<close> rounds of the loop that installs the identity tables.\<close>

primrec identity_tables :: "nat \<Rightarrow> u32 list \<Rightarrow> 'a paging_scheme \<Rightarrow> 'a paging_scheme" where
  "identity_tables 0 frames s = s"
| "identity_tables (Suc n) frames s =
     set_table (of_nat n) (frames ! (n + 1)) (identity_tables n frames s)"

text \<open>The first \<open>n\<close> entries of a table that maps consecutive pages from \<open>base\<close>.\<close>

primrec fill_table :: "nat \<Rightarrow> u32 \<Rightarrow> u32 \<Rightarrow> pmem \<Rightarrow> pmem" where
  "fill_table 0 pt base m = m"
| "fill_table (Suc n) pt base m =
     st32 (fill_table n pt base m) (tbl pt (of_nat n))
       ((base + push_bit 12 (of_nat n)) OR PG_PRESENT OR PG_RW)"

text \<open>The physical window, \<open>n\<close> tables from \<open>p\<close> on; \<open>frames\<close> starts with the frame of table \<open>p\<close>.\<close>

fun physwin_tables :: "nat \<Rightarrow> u32 \<Rightarrow> u32 list \<Rightarrow> 'a paging_scheme \<Rightarrow> paging_status \<times> 'a paging_scheme" where
  "physwin_tables 0 p frames s = (PAGING_OK, s)"
| "physwin_tables (Suc n) p frames s =
     (let pt = hd frames; pdi = drop_bit 22 PHYS_WINDOW_BASE + p
      in if pdi \<ge> PT_MAX then (PAGING_ERR_EXCESS_PAGES_REQUESTED, s)
         else let s = set_table pdi pt s;
                  s = s\<lparr>page_table_count := page_table_count s + 1,
                        mem := fill_table 1024 pt (push_bit 22 p) (mem s)\<rparr>
              in physwin_tables n (p + 1) (tl frames) s)"

text \<open>The identity mapping, \<open>n\<close> pages from page \<open>i\<close> on.\<close>

primrec identity_pages :: "nat \<Rightarrow> u32 \<Rightarrow> 'a paging_scheme \<Rightarrow> paging_status \<times> 'a paging_scheme" where
  "identity_pages 0 i s = (PAGING_OK, s)"
| "identity_pages (Suc n) i s =
     (let virt = push_bit 12 i;
          dirIndex = drop_bit 22 virt AND 0x3FF;
          pt = page_tables_loc_phys s ! unat dirIndex
      in if dirIndex \<ge> PT_MAX \<or> pt = 0 then (PAGING_ERR_NOT_MAPPED_OR_ALREADY_MAPPED, s)
         else identity_pages n (i + 1)
                (s\<lparr>mem := st32 (mem s) (tbl pt (drop_bit 12 virt AND 0x3FF))
                     ((push_bit 12 i AND 0xFFFFF000) OR PG_PRESENT OR PG_RW)\<rparr>))"

definition kernel_pages :: "'a machine_scheme \<Rightarrow> u32" where
  "kernel_pages s =
     drop_bit 12 (((kernel_end s + 0xFFF) AND 0xFFFFF000) - (kernel_start s AND 0xFFFFF000))"

text \<open>From the frames on: directory, identity tables, kernel table, window, identity pages.\<close>

definition paging_build ::
  "u32 \<Rightarrow> u32 \<Rightarrow> u32 list \<Rightarrow> 'a paging_scheme \<Rightarrow> paging_status \<times> 'a paging_scheme" where
  "paging_build needed_pts pages_mapped frames s =
     (let s = s\<lparr>page_directory_loc_phys := frames ! 0, page_tables_loc_phys := replicate 1024 0,
                page_table_count := 0, mem := zero_words 1024 (frames ! 0) (mem s)\<rparr>;
          s = (identity_tables (unat needed_pts) frames s)\<lparr>page_table_count := needed_pts\<rparr>;
          hi_pt = frames ! (unat needed_pts + 1);
          s = set_table (drop_bit 22 KERNEL_VIRTUAL_BASE) hi_pt s;
          s = s\<lparr>page_table_count := page_table_count s + 1, mem := zero_words 1024 hi_pt (mem s)\<rparr>
      in if kernel_pages s > 1024 then (PAGING_ERR_EXCESS_PAGES_REQUESTED, s)
         else let s = s\<lparr>mem := fill_table (unat (kernel_pages s)) hi_pt (kernel_start s AND 0xFFFFF000) (mem s)\<rparr>;
                  (r, s) = physwin_tables (unat needed_pts) 0 (drop (unat needed_pts + 2) frames) s
              in if r \<noteq> PAGING_OK then (r, s)
                 else identity_pages (unat pages_mapped) 0 s)"

text \<open>
  \<^verbatim>\<open>identity_bytes\<close> is a \<^verbatim>\<open>uint64_t\<close>; the default is computed with a 32-bit shift of the memory size and
  then rounded up to 4 MiB. The result is the directory's address (0 on failure) and the status.
\<close>

definition paging_init_identity_window ::
  "nat \<Rightarrow> 'a paging_scheme \<Rightarrow> ((u32 \<times> paging_status) \<times> 'a paging_scheme) option" where
  "paging_init_identity_window identity_bytes s =
     (if identity_bytes mod 4096 \<noteq> 0 then Some ((0, PAGING_ERR_ALIGN), s)
      else let bytes = (if identity_bytes = 0
                 then (unat (push_bit 10 (g_avail_memory_kib s)) + 0x3FFFFF) div 0x400000 * 0x400000
                 else identity_bytes);
               needed_frames = of_nat (bytes div 0x400000 + (if bytes mod 0x400000 \<noteq> 0 then 1 else 0) + 1) :: u32;
               needed_pts = needed_frames - 1;
               needed_frames_total = needed_frames + 1 + needed_pts
           in if needed_frames_total > PT_MAX + 1
              then Some ((0, PAGING_ERR_EXCESS_PAGES_REQUESTED), s)
              else do {
                (fs, s) \<leftarrow> reserve_loop needed_frames_total [] s;
                case fs of
                  None \<Rightarrow> Some ((0, PAGING_ERR_INIT_RESERVE_FAILED), s)
                | Some frames \<Rightarrow>
                    let (r, s) = paging_build needed_pts (of_nat ((bytes + 0xFFF) div 4096)) frames s
                    in if r \<noteq> PAGING_OK then Some ((0, r), s)
                       else let s = s\<lparr>cr3 := page_directory_loc_phys s, cr0 := cr0 s OR 0x80000000\<rparr>
                            in Some ((page_directory_loc_phys s, PAGING_OK), s) })"


section \<open>Pointers to the tables\<close>

definition pd_ptr :: "'a paging_scheme \<Rightarrow> u32 option" where
  "pd_ptr s = phys_to_virt (page_directory_loc_phys s)"

definition paging_get_kernel_pd_phys :: "'a paging_scheme \<Rightarrow> u32" where
  "paging_get_kernel_pd_phys s = page_directory_loc_phys s"

text \<open>\<open>pd[pdi]\<close>, read through the pointer \<^verbatim>\<open>pd_ptr()\<close>.\<close>

definition read_pde :: "u32 \<Rightarrow> 'a paging_scheme \<Rightarrow> u32 option" where
  "read_pde pdi s = do { _ \<leftarrow> pd_ptr s; Some (ld32 (mem s) (tbl (page_directory_loc_phys s) pdi)) }"

text \<open>\<open>Some None\<close> is the null pointer; \<open>Some (Some pt)\<close> a pointer to the table at physical address \<open>pt\<close>.\<close>

definition pt_ptr_from_pdi :: "u32 \<Rightarrow> 'a paging_scheme \<Rightarrow> u32 option option" where
  "pt_ptr_from_pdi pdi s =
     (if pdi > 0x3FF \<or> page_tables_loc_phys s ! unat pdi = 0 then Some None
      else do {
        pde \<leftarrow> read_pde pdi s;
        if pde AND PG_PRESENT = 0 then Some None
        else do {
          _ \<leftarrow> phys_to_virt (page_tables_loc_phys s ! unat pdi);
          Some (Some (page_tables_loc_phys s ! unat pdi)) } })"

definition pt_ptr_from_virt :: "u32 \<Rightarrow> 'a paging_scheme \<Rightarrow> u32 option option" where
  "pt_ptr_from_virt virt s = pt_ptr_from_pdi (drop_bit 22 virt AND 0x3FF) s"

definition paging_flush_tlb :: "'a paging_scheme \<Rightarrow> 'a paging_scheme" where
  "paging_flush_tlb s = (let ptbase = cr3 s in s\<lparr>cr3 := ptbase\<rparr>)"

definition paging_flush_tlb_single :: "u32 \<Rightarrow> 'a paging_scheme \<Rightarrow> 'a paging_scheme" where
  "paging_flush_tlb_single virt s = paging_flush_tlb s"

definition is_paging_ready :: "'a paging_scheme \<Rightarrow> bool option" where
  "is_paging_ready s =
     (if page_directory_loc_phys s = 0 then Some False
      else do { v \<leftarrow> pd_ptr s; Some (v \<noteq> 0) })"


section \<open>Operations\<close>

text \<open>\<^verbatim>\<open>*out_result\<close> is \<^term>\<open>None\<close> when it is not written.\<close>

definition paging_query_page ::
  "u32 \<Rightarrow> 'a paging_scheme \<Rightarrow> (paging_status \<times> paging_query_result option) option" where
  "paging_query_page virt s =
     (if page_directory_loc_phys s = 0 then Some (PAGING_ERR_NOT_INITIALIZED, None)
      else if get_current_cpl s \<noteq> CPL_KERNEL then None
      else let pdi = drop_bit 22 virt AND 0x3FF;
               pti = drop_bit 12 virt AND 0x3FF;
               zero = \<lparr>q_mapped = False, q_phys_addr = 0, q_flags = 0\<rparr>;
               pd = cr3 s AND 0xFFFFF000
           in do {
             _ \<leftarrow> phys_to_virt pd;
             let pd_entry = ld32 (mem s) (tbl pd pdi);
             if pd_entry AND PG_PRESENT = 0 then Some (PAGING_ERR_NOT_MAPPED, Some zero)
             else do {
               let pt_phys = pd_entry AND 0xFFFFF000;
               _ \<leftarrow> phys_to_virt pt_phys;
               let pt_entry = ld32 (mem s) (tbl pt_phys pti);
               if pt_entry AND PG_PRESENT = 0 then Some (PAGING_ERR_NOT_MAPPED, Some zero)
               else Some (PAGING_OK, Some \<lparr>q_mapped = True, q_phys_addr = pt_entry AND 0xFFFFF000,
                                           q_flags = pt_entry AND 0xFFF\<rparr>) } })"

text \<open>The check both \<^verbatim>\<open>paging_map_page\<close> and \<^verbatim>\<open>paging_set_flags\<close> make of the user flag.\<close>

definition flag_error :: "u32 \<Rightarrow> u32 \<Rightarrow> paging_status option" where
  "flag_error virt flags =
     (if virt \<ge> KERNEL_VIRTUAL_BASE \<and> flags AND PG_USER \<noteq> 0 then Some PAGING_ERR_USER_FLAG_IN_KERNEL_SPACE
      else if virt < KERNEL_VIRTUAL_BASE \<and> flags AND PG_USER = 0 then Some PAGING_ERR_KERNEL_FLAG_IN_USER_SPACE
      else None)"

text \<open>
  The branch of \<^verbatim>\<open>paging_map_page\<close> for an absent directory entry. The new table's frame is installed as
  it comes from the physical memory manager: the code does not clear it.
\<close>

definition install_table :: "u32 \<Rightarrow> u32 \<Rightarrow> 'a paging_scheme \<Rightarrow> (paging_status \<times> 'a paging_scheme) option" where
  "install_table pdi flags s =
     (if page_table_count s \<ge> PT_MAX then Some (PAGING_ERR_NOMEM, s)
      else do {
        ((pt, r), s) \<leftarrow> pmm_get_next_available_block s;
        if r \<noteq> PMM_ALLOC_SUCCESS then Some (PAGING_ERR_NOMEM, s)
        else let user = (if flags AND PG_USER \<noteq> 0 then PG_USER else 0)
             in Some (PAGING_OK,
               s\<lparr>mem := st32 (mem s) (tbl (page_directory_loc_phys s) pdi) (pt OR user OR PG_PRESENT OR PG_RW),
                 page_tables_loc_phys := (page_tables_loc_phys s)[unat pdi := pt],
                 page_table_count := page_table_count s + 1\<rparr>) })"

text \<open>\<^verbatim>\<open>*out_addr\<close>, when given, receives \<open>phys\<close> itself on \<^const>\<open>PAGING_OK\<close>.\<close>

definition paging_map_page ::
  "u32 \<Rightarrow> u32 \<Rightarrow> u32 \<Rightarrow> 'a paging_scheme \<Rightarrow> (paging_status \<times> 'a paging_scheme) option" where
  "paging_map_page virt phys flags s =
     (if get_current_cpl s \<noteq> CPL_KERNEL then None
      else if page_directory_loc_phys s = 0 then Some (PAGING_ERR_NOT_INITIALIZED, s)
      else if virt AND 0xFFF \<noteq> 0 \<or> phys AND 0xFFF \<noteq> 0 then Some (PAGING_ERR_ALIGN, s)
      else (case flag_error virt flags of
        Some e \<Rightarrow> Some (e, s)
      | None \<Rightarrow>
          let pdi = drop_bit 22 virt AND 0x3FF;
              pti = drop_bit 12 virt AND 0x3FF
          in do {
            pde \<leftarrow> read_pde pdi s;
            (r, s) \<leftarrow> (if pde AND PG_PRESENT = 0 then install_table pdi flags s
                      else if flags AND PG_USER \<noteq> 0 \<and> pde AND PG_USER = 0
                      then Some (PAGING_ERR_PT_USER_FLAG_MISMATCH, s)
                      else Some (PAGING_OK, s));
            if r \<noteq> PAGING_OK then Some (r, s)
            else do {
              ptr \<leftarrow> pt_ptr_from_pdi pdi s;
              case ptr of
                None \<Rightarrow> Some (PAGING_ERR_FAILED_RETRIEVE_PT, s)
              | Some pt \<Rightarrow>
                  if ld32 (mem s) (tbl pt pti) AND PG_PRESENT \<noteq> 0 then Some (PAGING_ERR_ALREADY_MAPPED, s)
                  else let s = s\<lparr>mem := st32 (mem s) (tbl pt pti)
                                    ((phys AND 0xFFFFF000) OR (flags AND 0xFFF) OR PG_PRESENT)\<rparr>
                       in Some (PAGING_OK, paging_flush_tlb_single virt s) } }))"

text \<open>The status and \<^verbatim>\<open>*out_phys_addr\<close>, 0 on every failure.\<close>

definition paging_unmap_page ::
  "u32 \<Rightarrow> 'a paging_scheme \<Rightarrow> ((paging_status \<times> u32) \<times> 'a paging_scheme) option" where
  "paging_unmap_page virt s =
     (if get_current_cpl s \<noteq> CPL_KERNEL then None
      else if page_directory_loc_phys s = 0 then Some ((PAGING_ERR_NOT_INITIALIZED, 0), s)
      else if virt AND 0xFFF \<noteq> 0 then Some ((PAGING_ERR_ALIGN, 0), s)
      else let pdi = drop_bit 22 virt AND 0x3FF;
               pti = drop_bit 12 virt AND 0x3FF
           in do {
             pd \<leftarrow> pd_ptr s;
             if pd = 0 then Some ((PAGING_ERR_NOT_INITIALIZED, 0), s)
             else do {
               pde \<leftarrow> read_pde pdi s;
               if pde AND PG_PRESENT = 0 then Some ((PAGING_ERR_NOT_MAPPED, 0), s)
               else do {
                 ptr \<leftarrow> pt_ptr_from_pdi pdi s;
                 case ptr of
                   None \<Rightarrow> Some ((PAGING_ERR_FAILED_RETRIEVE_PT, 0), s)
                 | Some pt \<Rightarrow>
                     if ld32 (mem s) (tbl pt pti) AND PG_PRESENT = 0 then Some ((PAGING_ERR_NOT_MAPPED, 0), s)
                     else let phys = ld32 (mem s) (tbl pt pti) AND 0xFFFFF000;
                              s = s\<lparr>mem := st32 (mem s) (tbl pt pti) 0\<rparr>
                          in Some ((PAGING_OK, phys), paging_flush_tlb_single virt s) } } })"

definition paging_unmap_and_free_page :: "u32 \<Rightarrow> 'a paging_scheme \<Rightarrow> (paging_status \<times> 'a paging_scheme) option" where
  "paging_unmap_and_free_page virt s =
     (if get_current_cpl s \<noteq> CPL_KERNEL then None
      else do {
        ((r, phys), s) \<leftarrow> paging_unmap_page virt s;
        if r \<noteq> PAGING_OK then Some (r, s)
        else if phys \<noteq> 0 then do { (_, s) \<leftarrow> pmm_dealloc_specific_block phys s; Some (PAGING_OK, s) }
        else Some (PAGING_ERR_NOT_MAPPED, s) })"

definition paging_set_flags :: "u32 \<Rightarrow> u32 \<Rightarrow> 'a paging_scheme \<Rightarrow> (paging_status \<times> 'a paging_scheme) option" where
  "paging_set_flags virt flags s =
     (if get_current_cpl s \<noteq> CPL_KERNEL then None
      else if page_directory_loc_phys s = 0 then Some (PAGING_ERR_NOT_INITIALIZED, s)
      else if virt AND 0xFFF \<noteq> 0 then Some (PAGING_ERR_ALIGN, s)
      else (case flag_error virt flags of
        Some e \<Rightarrow> Some (e, s)
      | None \<Rightarrow>
          let pdi = drop_bit 22 virt AND 0x3FF;
              pti = drop_bit 12 virt AND 0x3FF
          in do {
            pde \<leftarrow> read_pde pdi s;
            if pde AND PG_PRESENT = 0 then Some (PAGING_ERR_NOT_MAPPED, s)
            else if flags AND PG_USER \<noteq> 0 \<and> pde AND PG_USER = 0
            then Some (PAGING_ERR_PT_USER_FLAG_MISMATCH, s)
            else do {
              ptr \<leftarrow> pt_ptr_from_pdi pdi s;
              case ptr of
                None \<Rightarrow> Some (PAGING_ERR_FAILED_RETRIEVE_PT, s)
              | Some pt \<Rightarrow>
                  let pte = ld32 (mem s) (tbl pt pti)
                  in if pte AND PG_PRESENT = 0 then Some (PAGING_ERR_NOT_MAPPED, s)
                     else let s = s\<lparr>mem := st32 (mem s) (tbl pt pti)
                                       ((pte AND 0xFFFFF000) OR (flags AND 0xFFF) OR PG_PRESENT)\<rparr>
                          in Some (PAGING_OK, paging_flush_tlb_single virt s) } }))"

end
