(* ===== verification/Paging_Map.thy ===== *)
theory Paging_Map
  imports Paging
begin

text \<open>
  What the operations of the paging manager do to the translation from virtual to physical pages.
  \<open>walk\<close> is the translation a directory defines, as the hardware reads it; the invariant ties the
  manager's own records to it. An address space in the sense of the locale \<open>address_space\<close> is a
  finite map from pages to frames; the paging manager implements it as long as no free frame holds
  something that reads as a page table entry, because a new table is not cleared.
\<close>

section \<open>The translation a directory defines\<close>

definition walk :: "pmem \<Rightarrow> u32 \<Rightarrow> u32 \<Rightarrow> (u32 \<times> u32) option" where
  "walk m pd v =
     (let pde = ld32 m (tbl pd (pde_index v))
      in if pde AND PG_PRESENT = 0 then None
         else let pte = ld32 m (tbl (pde AND 0xFFFFF000) (pte_index v))
              in if pte AND PG_PRESENT = 0 then None else Some (pte AND 0xFFFFF000, pte AND 0xFFF))"

definition table_at :: "'a paging_scheme \<Rightarrow> u32 \<Rightarrow> u32" where
  "table_at s i = page_tables_loc_phys s ! unat i"

definition pde_at :: "'a paging_scheme \<Rightarrow> u32 \<Rightarrow> u32" where
  "pde_at s i = ld32 (mem s) (tbl (page_directory_loc_phys s) i)"

text \<open>A frame that holds a table: aligned, reachable through the window, and not free.\<close>

definition table_frame :: "'a paging_scheme \<Rightarrow> u32 \<Rightarrow> bool" where
  "table_frame s p \<longleftrightarrow> p \<noteq> 0 \<and> page_aligned p \<and> in_window p \<and> unat p div 4096 \<notin> free_frames s"

text \<open>
  The invariant: the recorded tables are those the directory entries point to, they are pairwise
  different and different from the directory, and none of their frames is free.
\<close>

definition pg_inv :: "'a paging_scheme \<Rightarrow> bool" where
  "pg_inv s \<longleftrightarrow> get_current_cpl s = CPL_KERNEL \<and> length (page_tables_loc_phys s) = 1024 \<and>
     unat (frame_count s) \<le> 0x30000 \<and> 0 \<notin> free_frames s \<and> table_frame s (page_directory_loc_phys s) \<and>
     (\<forall>i. unat i < 1024 \<longrightarrow>
        (pde_at s i AND PG_PRESENT = 0 \<longleftrightarrow> table_at s i = 0) \<and>
        (table_at s i \<noteq> 0 \<longrightarrow> table_frame s (table_at s i) \<and> table_at s i \<noteq> page_directory_loc_phys s \<and>
           pde_at s i AND 0xFFFFF000 = table_at s i)) \<and>
     (\<forall>i j. unat i < 1024 \<longrightarrow> unat j < 1024 \<longrightarrow> table_at s i \<noteq> 0 \<longrightarrow> table_at s i = table_at s j \<longrightarrow> i = j)"

lemma pde_index_less [simp]: "unat (pde_index v) < 1024" "pde_index v \<le> 0x3FF"
  by (simp_all add: pde_index_def unat_page word_le_nat_alt) 

lemma pte_index_less [simp]: "unat (pte_index v) < 1024"
  by (simp add: pte_index_def unat_page)

lemma index_page_eq:
  assumes "page_aligned v" "page_aligned w"
  shows "pde_index v = pde_index w \<and> pte_index v = pte_index w \<longleftrightarrow> v = w"
proof -
  obtain a where a: "unat v = 4096 * a" "a < 1048576" using assms(1) by (rule page_alignedE)
  obtain b where b: "unat w = 4096 * b" "b < 1048576" using assms(2) by (rule page_alignedE)
  have "unat (pde_index v) = a div 1024" "unat (pte_index v) = a mod 1024"
    "unat (pde_index w) = b div 1024" "unat (pte_index w) = b mod 1024"
    using a b by (simp_all add: pde_index_def pte_index_def unat_page div_mult2_eq [of _ 4096 1024, simplified] less_mult_imp_div_less)
  then have "pde_index v = pde_index w \<and> pte_index v = pte_index w \<longleftrightarrow> a div 1024 = b div 1024 \<and> a mod 1024 = b mod 1024"
    by (simp add: u32_eq_iff)
  also have "\<dots> \<longleftrightarrow> a = b" by (metis div_mult_mod_eq)
  finally show ?thesis using a b by (simp add: u32_eq_iff)
qed

lemma pg_invD:
  assumes "pg_inv s"
  shows "get_current_cpl s = CPL_KERNEL" "length (page_tables_loc_phys s) = 1024"
    "unat (frame_count s) \<le> 0x30000" "table_frame s (page_directory_loc_phys s)"
    and "unat i < 1024 \<Longrightarrow> pde_at s i AND PG_PRESENT = 0 \<longleftrightarrow> table_at s i = 0"
    and "unat i < 1024 \<Longrightarrow> table_at s i \<noteq> 0 \<Longrightarrow> table_frame s (table_at s i)"
    and "unat i < 1024 \<Longrightarrow> table_at s i \<noteq> 0 \<Longrightarrow> table_at s i \<noteq> page_directory_loc_phys s"
    and "unat i < 1024 \<Longrightarrow> table_at s i \<noteq> 0 \<Longrightarrow> pde_at s i AND 0xFFFFF000 = table_at s i"
    and "unat i < 1024 \<Longrightarrow> unat j < 1024 \<Longrightarrow> table_at s i \<noteq> 0 \<Longrightarrow> table_at s i = table_at s j \<Longrightarrow> i = j"
    and "0 \<notin> free_frames s"
  using assms unfolding pg_inv_def by blast+

lemma walk_eq:
  assumes "pg_inv s"
  shows "walk (mem s) (page_directory_loc_phys s) v =
    (if table_at s (pde_index v) = 0 then None
     else let pte = ld32 (mem s) (tbl (table_at s (pde_index v)) (pte_index v))
          in if pte AND PG_PRESENT = 0 then None else Some (pte AND 0xFFFFF000, pte AND 0xFFF))"
  using pg_invD(5,8) [OF assms, of "pde_index v"] by (auto simp: walk_def pde_at_def Let_def)

text \<open>Writing an entry of a recorded table changes one translation and keeps the invariant.\<close>

definition set_pte :: "u32 \<Rightarrow> u32 \<Rightarrow> 'a paging_scheme \<Rightarrow> 'a paging_scheme" where
  "set_pte v e s = s\<lparr>mem := st32 (mem s) (tbl (table_at s (pde_index v)) (pte_index v)) e\<rparr>"

lemma pde_at_set_pte:
  assumes "pg_inv s" "table_at s (pde_index v) \<noteq> 0" "unat i < 1024"
  shows "pde_at (set_pte v e s) i = pde_at s i"
  using pg_invD(4) [OF assms(1)] pg_invD(6,7) [OF assms(1), of "pde_index v"] assms
  by (simp add: pde_at_def set_pte_def ld32_st32_tbl table_frame_def)

lemma set_pte_inv:
  assumes "pg_inv s" "table_at s (pde_index v) \<noteq> 0"
  shows "pg_inv (set_pte v e s)"
proof -
  have t: "table_at (set_pte v e s) i = table_at s i" "table_frame (set_pte v e s) p = table_frame s p" for i p
    by (simp_all add: table_at_def table_frame_def set_pte_def)
  have "get_current_cpl (set_pte v e s) = get_current_cpl s" by (simp add: get_current_cpl_def set_pte_def)
  with assms(1) pde_at_set_pte [OF assms] show ?thesis
    unfolding pg_inv_def t by (simp add: set_pte_def free_frames_def used_frames_def)
qed

definition entry_of :: "u32 \<Rightarrow> (u32 \<times> u32) option" where
  "entry_of e = (if e AND PG_PRESENT = 0 then None else Some (e AND 0xFFFFF000, e AND 0xFFF))"

lemma walk_set_pte:
  assumes inv: "pg_inv s" and pt: "table_at s (pde_index v) \<noteq> 0"
  shows "walk (mem (set_pte v e s)) (page_directory_loc_phys s) w =
    (if pde_index w = pde_index v \<and> pte_index w = pte_index v then entry_of e
     else walk (mem s) (page_directory_loc_phys s) w)"
proof -
  have t: "table_at (set_pte v e s) i = table_at s i" for i by (simp add: table_at_def set_pte_def)
  have d: "page_directory_loc_phys (set_pte v e s) = page_directory_loc_phys s" by (simp add: set_pte_def)
  show ?thesis
  proof (cases "table_at s (pde_index w) = 0")
    case True
    with pt have "pde_index w \<noteq> pde_index v" by auto
    with True show ?thesis
      unfolding walk_eq [OF set_pte_inv [OF assms, of e], unfolded d t] walk_eq [OF inv] by simp
  next
    case False
    have al: "page_aligned (table_at s (pde_index v))" "page_aligned (table_at s (pde_index w))"
      using pg_invD(6) [OF inv] pt False by (simp_all add: table_frame_def)
    have eq: "table_at s (pde_index v) = table_at s (pde_index w) \<longleftrightarrow> pde_index v = pde_index w"
      using pg_invD(9) [OF inv, of "pde_index v" "pde_index w"] pt by auto
    have l: "ld32 (mem (set_pte v e s)) (tbl (table_at s (pde_index w)) (pte_index w)) =
        (if pde_index w = pde_index v \<and> pte_index w = pte_index v then e
         else ld32 (mem s) (tbl (table_at s (pde_index w)) (pte_index w)))"
      using ld32_st32_tbl [OF al pte_index_less pte_index_less, of "mem s" v e w] eq
      by (auto simp: set_pte_def)
    show ?thesis
      unfolding walk_eq [OF set_pte_inv [OF assms, of e], unfolded d t] walk_eq [OF inv] l
      using False by (auto simp: entry_of_def Let_def)
  qed
qed

text \<open>The pointer to the table of a page, on a state with the invariant.\<close>

lemma table_ptr:
  assumes "pg_inv s" "unat i < 1024"
  shows "pd_ptr s = Some (PHYS_WINDOW_BASE + page_directory_loc_phys s)"
    "PHYS_WINDOW_BASE + page_directory_loc_phys s \<noteq> 0"
    "read_pde i s = Some (pde_at s i)"
    "pt_ptr_from_pdi i s = Some (if table_at s i = 0 then None else Some (table_at s i))"
proof -
  have w: "in_window (page_directory_loc_phys s)" using pg_invD(4) [OF assms(1)] by (simp add: table_frame_def)
  then show p: "pd_ptr s = Some (PHYS_WINDOW_BASE + page_directory_loc_phys s)"
    by (simp add: pd_ptr_def phys_to_virt_in_window)
  have "unat (PHYS_WINDOW_BASE + page_directory_loc_phys s) = unat PHYS_WINDOW_BASE + unat (page_directory_loc_phys s)"
    using w by (intro unat_add_u32) (simp add: in_window_def PHYS_WINDOW_BASE_def)
  then show "PHYS_WINDOW_BASE + page_directory_loc_phys s \<noteq> 0"
    by (simp add: u32_eq_iff PHYS_WINDOW_BASE_def)
  show r: "read_pde i s = Some (pde_at s i)" by (simp add: read_pde_def p pde_at_def)
  have "\<not> i > 0x3FF" using assms(2) by (simp add: word_less_nat_alt)
  moreover have "in_window (table_at s i)" if "table_at s i \<noteq> 0"
    using pg_invD(6) [OF assms that] by (simp add: table_frame_def)
  ultimately show "pt_ptr_from_pdi i s = Some (if table_at s i = 0 then None else Some (table_at s i))"
    using pg_invD(5) [OF assms] r
    by (auto simp: pt_ptr_from_pdi_def table_at_def phys_to_virt_in_window)
qed

lemma entry_bits:
  assumes "page_aligned p"
  shows "entry_of ((p AND 0xFFFFF000) OR (f AND 0xFFF) OR PG_PRESENT) = Some (p, (f AND 0xFFF) OR PG_PRESENT)"
proof -
  have p: "p AND 0xFFFFF000 = p"
    using assms by (simp add: and_not_FFF push_drop12 page_aligned_mod)
  have p0: "p AND 0xFFF = 0" using assms by (simp add: page_aligned_def)
  have f: "(f AND 0xFFF) AND 0xFFFFF000 = 0" by (simp add: and.assoc)
  have 1: "(p OR (f AND 0xFFF) OR 1) AND 1 \<noteq> 0"
    by (simp add: bit.conj_disj_distrib2)
  have 2: "(p OR (f AND 0xFFF) OR 1) AND 0xFFFFF000 = p"
    by (simp add: bit.conj_disj_distrib2 p f)
  have 3: "(p OR (f AND 0xFFF) OR 1) AND 0xFFF = (f AND 0xFFF) OR 1"
    by (simp add: bit.conj_disj_distrib2 p0 and.assoc)
  show ?thesis unfolding entry_of_def p PG_PRESENT_def using 1 2 3 by simp
qed

abbreviation translate :: "'a paging_scheme \<Rightarrow> u32 \<Rightarrow> (u32 \<times> u32) option" where
  "translate s \<equiv> walk (mem s) (page_directory_loc_phys s)"

lemma aligned_mask: "virt AND 0xFFF \<noteq> 0 \<longleftrightarrow> \<not> page_aligned virt"
  by (simp add: page_aligned_def)

lemma flush_id [simp]: "paging_flush_tlb_single v s = s"
  by (simp add: paging_flush_tlb_single_def paging_flush_tlb_def Let_def)

lemma index_fold: "drop_bit 22 v AND 0x3FF = pde_index v" "drop_bit 12 v AND 0x3FF = pte_index v"
  by (simp_all add: pde_index_def pte_index_def)

lemma query_spec:
  assumes "pg_inv s" "cr3 s AND 0xFFFFF000 = page_directory_loc_phys s"
  shows "paging_query_page v s = Some (case translate s v of
      None \<Rightarrow> (PAGING_ERR_NOT_MAPPED, Some \<lparr>q_mapped = False, q_phys_addr = 0, q_flags = 0\<rparr>)
    | Some (p, f) \<Rightarrow> (PAGING_OK, Some \<lparr>q_mapped = True, q_phys_addr = p, q_flags = f\<rparr>))"
proof -
  let ?i = "pde_index v"
  have d: "page_directory_loc_phys s \<noteq> 0" "phys_to_virt (page_directory_loc_phys s) \<noteq> None"
    using pg_invD(4) [OF assms(1)] by (simp_all add: table_frame_def phys_to_virt_in_window)
  have t: "phys_to_virt (pde_at s ?i AND 0xFFFFF000) \<noteq> None" if "pde_at s ?i AND PG_PRESENT \<noteq> 0"
    using pg_invD(5,6,8) [OF assms(1), of ?i] that by (simp add: table_frame_def phys_to_virt_in_window)
  show ?thesis
    using d t pg_invD(1) [OF assms(1)]
    by (auto simp: paging_query_page_def assms(2) index_fold walk_def Let_def pde_at_def)
qed

lemma unmap_spec:
  assumes "pg_inv s" "page_aligned v"
  shows "paging_unmap_page v s = Some (case translate s v of
      None \<Rightarrow> ((PAGING_ERR_NOT_MAPPED, 0), s) | Some (p, f) \<Rightarrow> ((PAGING_OK, p), set_pte v 0 s))"
proof -
  note T = table_ptr [OF assms(1) pde_index_less(1) [of v]]
  have "page_directory_loc_phys s \<noteq> 0" using pg_invD(4) [OF assms(1)] by (simp add: table_frame_def)
  then show ?thesis
    using T pg_invD(1) [OF assms(1)] pg_invD(5) [OF assms(1) pde_index_less(1) [of v]] assms(2)
    by (auto simp: paging_unmap_page_def index_fold aligned_mask walk_eq [OF assms(1)] Let_def set_pte_def)
qed

lemma set_flags_spec:
  assumes "pg_inv s" "page_aligned v" "flag_error v fl = None"
  shows "paging_set_flags v fl s = Some
    (if table_at s (pde_index v) = 0 then (PAGING_ERR_NOT_MAPPED, s)
     else if fl AND PG_USER \<noteq> 0 \<and> pde_at s (pde_index v) AND PG_USER = 0
     then (PAGING_ERR_PT_USER_FLAG_MISMATCH, s)
     else (case translate s v of
         None \<Rightarrow> (PAGING_ERR_NOT_MAPPED, s)
       | Some (p, f) \<Rightarrow> (PAGING_OK, set_pte v (p OR (fl AND 0xFFF) OR PG_PRESENT) s)))"
proof -
  note T = table_ptr [OF assms(1) pde_index_less(1) [of v]]
  have "page_directory_loc_phys s \<noteq> 0" using pg_invD(4) [OF assms(1)] by (simp add: table_frame_def)
  then show ?thesis
    using T pg_invD(1) [OF assms(1)] pg_invD(5) [OF assms(1) pde_index_less(1) [of v]] assms(2,3)
    by (auto simp: paging_set_flags_def index_fold aligned_mask walk_eq [OF assms(1)] Let_def set_pte_def)
qed

text \<open>Mapping a page whose table exists.\<close>

lemma map_present:
  assumes "pg_inv s" "page_aligned v" "page_aligned p" "flag_error v fl = None"
    and "table_at s (pde_index v) \<noteq> 0"
  shows "paging_map_page v p fl s = Some
    (if fl AND PG_USER \<noteq> 0 \<and> pde_at s (pde_index v) AND PG_USER = 0
     then (PAGING_ERR_PT_USER_FLAG_MISMATCH, s)
     else if translate s v \<noteq> None then (PAGING_ERR_ALREADY_MAPPED, s)
     else (PAGING_OK, set_pte v ((p AND 0xFFFFF000) OR (fl AND 0xFFF) OR PG_PRESENT) s))"
proof -
  note T = table_ptr [OF assms(1) pde_index_less(1) [of v]]
  have "page_directory_loc_phys s \<noteq> 0" using pg_invD(4) [OF assms(1)] by (simp add: table_frame_def)
  then show ?thesis
    using T pg_invD(1) [OF assms(1)] pg_invD(5) [OF assms(1) pde_index_less(1) [of v]] assms(2-5)
    by (auto simp: paging_map_page_def index_fold aligned_mask walk_eq [OF assms(1)] Let_def set_pte_def)
qed

text \<open>The physical memory manager's invariant depends on its own fields only.\<close>

lemma pmm_inv_cong:
  assumes "bitmap_bytes s' = bitmap_bytes s" "frame_count s' = frame_count s" "frame_hint s' = frame_hint s"
    "pagebitmap s' = pagebitmap s" "available_frames s' = available_frames s" "mem_regions s' = mem_regions s"
  shows "pmm_inv s' = pmm_inv s" "free_frames s' = free_frames s"
  using assms by (simp_all add: pmm_inv_def pmm_core_def free_frames_def used_frames_def)

lemma set_pte_pmm [simp]: "pmm_inv (set_pte v e s) = pmm_inv s" "free_frames (set_pte v e s) = free_frames s"
  by (rule pmm_inv_cong; simp add: set_pte_def)+

lemma new_pde_bits:
  assumes "page_aligned p" "u = 0 \<or> u = PG_USER"
  shows "(p OR u OR PG_PRESENT OR PG_RW) AND 0xFFFFF000 = p" "(p OR u OR PG_PRESENT OR PG_RW) AND PG_PRESENT \<noteq> 0"
    "(p OR u OR PG_PRESENT OR PG_RW) AND PG_USER = u"
proof -
  have p: "p AND 0xFFFFF000 = p" using assms(1) by (simp add: and_not_FFF push_drop12 page_aligned_mod)
  have "p AND 4 = (p AND 0xFFFFF000) AND 4" by (simp only: p)
  also have "\<dots> = p AND (0xFFFFF000 AND 4)" by (rule and.assoc)
  finally have p4: "p AND 4 = 0" by simp
  show "(p OR u OR PG_PRESENT OR PG_RW) AND 0xFFFFF000 = p" "(p OR u OR PG_PRESENT OR PG_RW) AND PG_PRESENT \<noteq> 0"
    "(p OR u OR PG_PRESENT OR PG_RW) AND PG_USER = u"
    using assms(2) by (auto simp: pg_defs bit.conj_disj_distrib2 p p4)
qed

definition installed :: "u32 \<Rightarrow> u32 \<Rightarrow> u32 \<Rightarrow> 'a paging_scheme \<Rightarrow> 'a paging_scheme" where
  "installed i pt u s =
     s\<lparr>mem := st32 (mem s) (tbl (page_directory_loc_phys s) i) (pt OR u OR PG_PRESENT OR PG_RW),
       page_tables_loc_phys := (page_tables_loc_phys s)[unat i := pt],
       page_table_count := page_table_count s + 1\<rparr>"

lemma installed_table: "unat i < length (page_tables_loc_phys s) \<Longrightarrow>
    table_at (installed i pt u s) j = (if j = i then pt else table_at s j)"
  by (auto simp: table_at_def installed_def nth_list_update u32_eq_iff)

lemma installed_fields [simp]:
  "page_directory_loc_phys (installed i pt u s) = page_directory_loc_phys s"
  "frame_count (installed i pt u s) = frame_count s"
  "pmm_inv (installed i pt u s) = pmm_inv s" "free_frames (installed i pt u s) = free_frames s"
  "get_current_cpl (installed i pt u s) = get_current_cpl s"
  "table_frame (installed i pt u s) p = table_frame s p"
  "length (page_tables_loc_phys (installed i pt u s)) = length (page_tables_loc_phys s)"
proof -
  show "pmm_inv (installed i pt u s) = pmm_inv s" and f: "free_frames (installed i pt u s) = free_frames s"
    by (rule pmm_inv_cong; simp add: installed_def)+
  show "table_frame (installed i pt u s) p = table_frame s p" by (simp add: table_frame_def f)
qed (simp_all add: installed_def get_current_cpl_def)

lemma installed_inv:
  assumes inv: "pg_inv s" and i: "unat i < 1024" "table_at s i = 0"
    and pt: "table_frame s pt" "pt \<noteq> page_directory_loc_phys s"
    and fresh: "\<And>j. unat j < 1024 \<Longrightarrow> table_at s j \<noteq> pt" and u: "u = 0 \<or> u = PG_USER"
  shows "pg_inv (installed i pt u s)"
proof -
  have len: "unat i < length (page_tables_loc_phys s)" using pg_invD(2) [OF inv] i by simp
  note t = installed_table [OF len]
  have al: "page_aligned pt" "page_aligned (page_directory_loc_phys s)" "pt \<noteq> 0"
    using pt pg_invD(4) [OF inv] by (simp_all add: table_frame_def)
  have e: "pde_at (installed i pt u s) j = (if j = i then pt OR u OR PG_PRESENT OR PG_RW else pde_at s j)"
    if "unat j < 1024" for j
    using ld32_st32_tbl [OF al(2) al(2) i(1) that]
    by (simp add: pde_at_def installed_def)
  note B = new_pde_bits [OF al(1) u]
  show ?thesis
    unfolding pg_inv_def installed_fields t
  proof (intro conjI allI impI)
    fix j :: u32 assume j: "unat j < 1024"
    show "(pde_at (installed i pt u s) j AND PG_PRESENT = 0) = ((if j = i then pt else table_at s j) = 0)"
      using pg_invD(5) [OF inv j] B(2) al(3) by (simp add: e [OF j])
    assume nz: "(if j = i then pt else table_at s j) \<noteq> 0"
    then show "table_frame s (if j = i then pt else table_at s j)"
      "(if j = i then pt else table_at s j) \<noteq> page_directory_loc_phys s"
      "pde_at (installed i pt u s) j AND 0xFFFFF000 = (if j = i then pt else table_at s j)"
      using pg_invD(6-8) [OF inv j] pt B(1) by (auto simp: e [OF j])
  next
    fix j k :: u32
    assume "unat j < 1024" "unat k < 1024" "(if j = i then pt else table_at s j) \<noteq> 0"
      "(if j = i then pt else table_at s j) = (if k = i then pt else table_at s k)"
    then show "j = k"
      using pg_invD(9) [OF inv] fresh by (auto split: if_splits)
  qed (use pg_invD [OF inv] in simp_all)
qed

text \<open>What an absent directory entry's table will translate, given the frame it is put in.\<close>

lemma installed_walk:
  assumes inv: "pg_inv s" and i: "unat i < 1024" "table_at s i = 0"
    and pt: "table_frame s pt" "pt \<noteq> page_directory_loc_phys s"
    and fresh: "\<And>j. unat j < 1024 \<Longrightarrow> table_at s j \<noteq> pt" and u: "u = 0 \<or> u = PG_USER"
  shows "translate (installed i pt u s) w =
    (if pde_index w = i then entry_of (ld32 (mem s) (tbl pt (pte_index w))) else translate s w)"
proof -
  have len: "unat i < length (page_tables_loc_phys s)" using pg_invD(2) [OF inv] i by simp
  have al: "page_aligned (page_directory_loc_phys s)" using pg_invD(4) [OF inv] by (simp add: table_frame_def)
  have keep: "ld32 (mem (installed i pt u s)) (tbl q (pte_index w)) = ld32 (mem s) (tbl q (pte_index w))"
    if "page_aligned q" "q \<noteq> page_directory_loc_phys s" for q
    using ld32_st32_tbl [OF al that(1) i(1) pte_index_less [of w]] that(2) by (simp add: installed_def)
  have "pt \<noteq> 0" "page_aligned pt" using pt by (simp_all add: table_frame_def)
  moreover have "page_aligned (table_at s (pde_index w))" "table_at s (pde_index w) \<noteq> page_directory_loc_phys s"
    if "table_at s (pde_index w) \<noteq> 0"
    using pg_invD(6,7) [OF inv pde_index_less(1) that] by (simp_all add: table_frame_def)
  moreover have inv': "pg_inv (installed i pt u s)" by (rule installed_inv) (use assms in auto)
  ultimately show ?thesis
    unfolding walk_eq [OF inv'] walk_eq [OF inv] installed_table [OF len]
    using keep pt(2) by (auto simp: entry_of_def Let_def)
qed

lemma pmm_only_paging:
  assumes "pmm_only s s'"
  shows "mem s' = mem s" "page_directory_loc_phys s' = page_directory_loc_phys s"
    "page_tables_loc_phys s' = page_tables_loc_phys s" "page_table_count s' = page_table_count s"
    "cs_reg s' = cs_reg s" "cr3 s' = cr3 s" "frame_count s' = frame_count s"
  by (rule pmm_onlyE [OF assms], simp)+

lemma pg_inv_shrink:
  assumes "pg_inv s" "pmm_only s s'" "free_frames s' \<subseteq> free_frames s"
  shows "pg_inv s'"
proof -
  note same = pmm_only_paging [OF assms(2)]
  have "table_frame s' p" if "table_frame s p" for p
    using that assms(3) by (auto simp: table_frame_def)
  moreover have "table_at s' i = table_at s i" "pde_at s' i = pde_at s i" for i
    by (simp_all add: table_at_def pde_at_def same)
  moreover have "get_current_cpl s' = get_current_cpl s" by (simp add: get_current_cpl_def same)
  ultimately show ?thesis
    using assms(1,3) unfolding pg_inv_def same by auto
qed

lemma free_table_frame:
  assumes inv: "pg_inv s" and f: "unat f \<in> free_frames s"
  shows "unat (push_bit 12 f) = unat f * 4096" "page_aligned (push_bit 12 f)" "in_window (push_bit 12 f)"
    "push_bit 12 f \<noteq> 0" "push_bit 12 f \<noteq> page_directory_loc_phys s"
    "unat j < 1024 \<Longrightarrow> table_at s j \<noteq> push_bit 12 f"
proof -
  have lt: "unat f < 0x30000" using f pg_invD(3) [OF inv] by (simp add: free_frames_def)
  then show u: "unat (push_bit 12 f) = unat f * 4096" by (intro unat_push12) simp
  with lt show "page_aligned (push_bit 12 f)" "in_window (push_bit 12 f)"
    by (simp_all add: page_aligned_unat in_window_def)
  have "unat f \<noteq> 0" using f pg_invD(10) [OF inv] by metis
  then show nz: "push_bit 12 f \<noteq> 0" using u by (simp add: u32_eq_iff)
  have *: "p \<noteq> push_bit 12 f" if "table_frame s p" for p
    using that f u by (auto simp: table_frame_def)
  show "push_bit 12 f \<noteq> page_directory_loc_phys s" using * [OF pg_invD(4) [OF inv]] by simp
  show "table_at s j \<noteq> push_bit 12 f" if "unat j < 1024"
    using * pg_invD(6) [OF inv that] nz by (cases "table_at s j = 0") auto
qed

lemma install_table_cases:
  assumes inv: "pmm_inv s" "pg_inv s" and i: "unat i < 1024" "table_at s i = 0"
  obtains (nomem) "free_frames s = {} \<or> page_table_count s \<ge> PT_MAX"
      "install_table i fl s = Some (PAGING_ERR_NOMEM, s)"
    | (ok) f s0 where "unat f \<in> free_frames s" "free_frames s0 = free_frames s - {unat f}"
      "pmm_only s s0" "pmm_inv s0"
      "install_table i fl s =
         Some (PAGING_OK, installed i (push_bit 12 f) (if fl AND PG_USER \<noteq> 0 then PG_USER else 0) s0)"
proof (cases "free_frames s = {} \<or> page_table_count s \<ge> PT_MAX")
  case True
  moreover from True have "install_table i fl s = Some (PAGING_ERR_NOMEM, s)"
    using get_next_oom [OF inv(1)] by (auto simp: install_table_def)
  ultimately show thesis by (rule nomem)
next
  case False
  then have ne: "free_frames s \<noteq> {}" and c: "\<not> page_table_count s \<ge> PT_MAX" by simp_all
  obtain f s0 where a: "pmm_get_next_available_block s = Some ((push_bit 12 f, PMM_ALLOC_SUCCESS), s0)"
    and b: "unat f \<in> free_frames s" "free_frames s0 = free_frames s - {unat f}" "pmm_inv s0" "pmm_only s s0"
    by (rule get_next_some [OF inv(1) ne])
  have "install_table i fl s =
      Some (PAGING_OK, installed i (push_bit 12 f) (if fl AND PG_USER \<noteq> 0 then PG_USER else 0) s0)"
    unfolding install_table_def a installed_def Let_def using c by simp
  then show thesis by (rule ok [OF b(1,2,4,3)])
qed

lemma installed_ok:
  assumes inv: "pg_inv s" and i: "unat i < 1024" "table_at s i = 0"
    and f: "unat f \<in> free_frames s" and s0: "free_frames s0 = free_frames s - {unat f}" "pmm_only s s0"
    and u: "u = 0 \<or> u = PG_USER"
  shows "pg_inv (installed i (push_bit 12 f) u s0)"
    "translate (installed i (push_bit 12 f) u s0) w =
      (if pde_index w = i then entry_of (ld32 (mem s) (tbl (push_bit 12 f) (pte_index w))) else translate s w)"
proof -
  note F = free_table_frame [OF inv f] and same = pmm_only_paging [OF s0(2)]
  have inv0: "pg_inv s0" by (rule pg_inv_shrink [OF inv s0(2)]) (simp add: s0(1) Diff_subset)
  have t0: "table_at s0 j = table_at s j" for j by (simp add: table_at_def same)
  have tf: "table_frame s0 (push_bit 12 f)" using F s0(1) by (simp add: table_frame_def)
  have i0: "table_at s0 i = 0" using i by (simp add: t0)
  have pd0: "push_bit 12 f \<noteq> page_directory_loc_phys s0" using F by (simp add: same)
  have fr: "\<And>j. unat j < 1024 \<Longrightarrow> table_at s0 j \<noteq> push_bit 12 f" using F(6) by (simp add: t0)
  show "pg_inv (installed i (push_bit 12 f) u s0)"
    by (rule installed_inv [OF inv0 i(1) i0 tf pd0 _ u]) (rule fr)
  have "translate (installed i (push_bit 12 f) u s0) w =
      (if pde_index w = i then entry_of (ld32 (mem s0) (tbl (push_bit 12 f) (pte_index w))) else translate s0 w)"
    by (rule installed_walk [OF inv0 i(1) i0 tf pd0 _ u]) (rule fr)
  then show "translate (installed i (push_bit 12 f) u s0) w =
      (if pde_index w = i then entry_of (ld32 (mem s) (tbl (push_bit 12 f) (pte_index w))) else translate s w)"
    by (simp add: same)
qed

text \<open>Mapping a page whose table is absent: after the installation it is the case of a present table.\<close>

lemma map_absent:
  assumes inv: "pmm_inv s" "pg_inv s" and v: "page_aligned v" "page_aligned p" "flag_error v fl = None"
    and i: "table_at s (pde_index v) = 0"
  shows "paging_map_page v p fl s = do {
     (r, s1) \<leftarrow> install_table (pde_index v) fl s;
     if r \<noteq> PAGING_OK then Some (r, s1) else paging_map_page v p fl s1 }"
proof -
  note T = table_ptr [OF inv(2) pde_index_less(1) [of v]]
  have pd: "page_directory_loc_phys s \<noteq> 0" "get_current_cpl s = CPL_KERNEL"
    using pg_invD(1,4) [OF inv(2)] by (simp_all add: table_frame_def)
  have z: "pde_at s (pde_index v) AND PG_PRESENT = 0"
    using pg_invD(5) [OF inv(2) pde_index_less(1)] i by simp
  let ?u = "if fl AND PG_USER \<noteq> 0 then PG_USER else 0"
  show ?thesis
    using inv pde_index_less(1) i
  proof (cases rule: install_table_cases [of s "pde_index v" fl, case_names nomem ok])
    case nomem
    with T z pd v show ?thesis
      by (simp add: paging_map_page_def index_fold aligned_mask Let_def)
  next
    case (ok f s0)
    let ?s1 = "installed (pde_index v) (push_bit 12 f) ?u s0"
    have inv1: "pg_inv ?s1" by (rule installed_ok(1) [OF inv(2) pde_index_less(1) i ok(1-3)]) simp
    have al: "page_aligned (push_bit 12 f)" using free_table_frame [OF inv(2) ok(1)] by simp
    have al0: "page_aligned (page_directory_loc_phys s0)"
      using pg_invD(4) [OF inv1] by (simp add: table_frame_def)
    have e: "pde_at ?s1 (pde_index v) = push_bit 12 f OR ?u OR PG_PRESENT OR PG_RW"
      by (simp add: pde_at_def installed_def)
    have B: "pde_at ?s1 (pde_index v) AND PG_PRESENT \<noteq> 0"
      "fl AND PG_USER \<noteq> 0 \<Longrightarrow> pde_at ?s1 (pde_index v) AND PG_USER \<noteq> 0"
      unfolding e using new_pde_bits [OF al, of ?u] by (auto simp: PG_USER_def)
    have pd1: "page_directory_loc_phys ?s1 \<noteq> 0" "get_current_cpl ?s1 = CPL_KERNEL"
      using pg_invD(1,4) [OF inv1] by (simp_all add: table_frame_def)
    note T1 = table_ptr [OF inv1 pde_index_less(1) [of v]]
    show ?thesis
      using T(3) z pd v ok(5) B pd1 T1(3)
      by (simp add: paging_map_page_def index_fold aligned_mask Let_def)
  qed
qed


section \<open>The manager as an address space\<close>

definition no_stale :: "'a paging_scheme \<Rightarrow> bool" where
  "no_stale s \<longleftrightarrow> (\<forall>f j. unat f \<in> free_frames s \<longrightarrow> unat j < 1024 \<longrightarrow>
     ld32 (mem s) (tbl (push_bit 12 f) j) AND PG_PRESENT = 0)"

definition as_inv :: "'a paging_scheme \<Rightarrow> bool" where
  "as_inv s \<longleftrightarrow> pmm_inv s \<and> pg_inv s \<and> no_stale s \<and> cr3 s AND 0xFFFFF000 = page_directory_loc_phys s"

lemma as_invD:
  assumes "as_inv s"
  shows "pmm_inv s" "pg_inv s" "no_stale s" "cr3 s AND 0xFFFFF000 = page_directory_loc_phys s"
  using assms by (simp_all add: as_inv_def)

lemma set_pte_as_inv:
  assumes "as_inv s" "table_at s (pde_index v) \<noteq> 0"
  shows "as_inv (set_pte v e s)"
proof -
  note inv = as_invD [OF assms(1)]
  have "no_stale (set_pte v e s)"
    unfolding no_stale_def set_pte_pmm
  proof (intro allI impI)
    fix f j :: u32 assume f: "unat f \<in> free_frames s" and j: "unat j < 1024"
    note F = free_table_frame [OF inv(2) f]
    have "page_aligned (table_at s (pde_index v))"
      using pg_invD(6) [OF inv(2) pde_index_less(1) assms(2)] by (simp add: table_frame_def)
    from ld32_st32_tbl [OF this F(2) pte_index_less j] F(6) [OF pde_index_less(1)]
    have "ld32 (mem (set_pte v e s)) (tbl (push_bit 12 f) j) = ld32 (mem s) (tbl (push_bit 12 f) j)"
      by (simp add: set_pte_def)
    with inv(3) f j show "ld32 (mem (set_pte v e s)) (tbl (push_bit 12 f) j) AND PG_PRESENT = 0"
      by (simp add: no_stale_def)
  qed
  moreover have "cr3 (set_pte v e s) = cr3 s" "page_directory_loc_phys (set_pte v e s) = page_directory_loc_phys s"
    by (simp_all add: set_pte_def)
  ultimately show ?thesis
    using inv set_pte_inv [OF inv(2) assms(2)] unfolding as_inv_def set_pte_pmm by simp
qed

lemma installed_as_inv:
  assumes inv: "as_inv s" and i: "unat i < 1024" "table_at s i = 0"
    and f: "unat f \<in> free_frames s"
    and s0: "free_frames s0 = free_frames s - {unat f}" "pmm_only s s0" "pmm_inv s0"
    and u: "u = 0 \<or> u = PG_USER"
  shows "as_inv (installed i (push_bit 12 f) u s0)"
    "translate (installed i (push_bit 12 f) u s0) = translate s"
proof -
  note D = as_invD [OF inv] and same = pmm_only_paging [OF s0(2)]
  note I = installed_ok [OF D(2) i f s0(1,2) u]
  have al: "page_aligned (page_directory_loc_phys s)"
    using pg_invD(4) [OF D(2)] by (simp add: table_frame_def)
  have "no_stale (installed i (push_bit 12 f) u s0)"
    unfolding no_stale_def installed_fields s0(1)
  proof (intro allI impI)
    fix g j :: u32 assume g: "unat g \<in> free_frames s - {unat f}" and j: "unat j < 1024"
    then have g': "unat g \<in> free_frames s" by simp
    note G = free_table_frame [OF D(2) g']
    from ld32_st32_tbl [OF al G(2) i(1) j] G(5)
    have "ld32 (mem (installed i (push_bit 12 f) u s0)) (tbl (push_bit 12 g) j) = ld32 (mem s) (tbl (push_bit 12 g) j)"
      by (simp add: installed_def same)
    with D(3) g' j show "ld32 (mem (installed i (push_bit 12 f) u s0)) (tbl (push_bit 12 g) j) AND PG_PRESENT = 0"
      by (simp add: no_stale_def)
  qed
  moreover have "cr3 (installed i (push_bit 12 f) u s0) = cr3 s" by (simp add: installed_def same)
  ultimately show "as_inv (installed i (push_bit 12 f) u s0)"
    using I(1) s0(3) D(4) unfolding as_inv_def installed_fields by (simp add: same)
  show "translate (installed i (push_bit 12 f) u s0) = translate s"
  proof
    fix w
    have "translate s w = None" if "pde_index w = i"
      using that i walk_eq [OF D(2), of w] by simp
    moreover have "entry_of (ld32 (mem s) (tbl (push_bit 12 f) (pte_index w))) = None"
      using D(3) f pte_index_less [of w] by (simp add: no_stale_def entry_of_def)
    ultimately show "translate (installed i (push_bit 12 f) u s0) w = translate s w"
      using I(2) [of w] by simp
  qed
qed

definition mapped :: "u32 \<Rightarrow> (u32 \<times> u32) option \<Rightarrow> (u32 \<Rightarrow> (u32 \<times> u32) option) \<Rightarrow> (u32 \<Rightarrow> (u32 \<times> u32) option) \<Rightarrow> bool" where
  "mapped v e T T' \<longleftrightarrow> (\<forall>w. page_aligned w \<longrightarrow> T' w = (if w = v then e else T w))"

lemma set_pte_mapped:
  assumes "pg_inv s" "table_at s (pde_index v) \<noteq> 0" "page_aligned v"
  shows "mapped v (entry_of e) (translate s) (translate (set_pte v e s))"
proof -
  have "page_directory_loc_phys (set_pte v e s) = page_directory_loc_phys s" by (simp add: set_pte_def)
  then show ?thesis
    unfolding mapped_def using walk_set_pte [OF assms(1,2)] index_page_eq [OF _ assms(3)] by auto
qed

text \<open>
  Frames that hold data: owned, neither the directory nor a recorded table. Operations on the tables
  keep them and their contents, and everything that is not part of paging.
\<close>

definition data_frame :: "'a paging_scheme \<Rightarrow> u32 \<Rightarrow> bool" where
  "data_frame s g \<longleftrightarrow> unat g \<in> owned_frames s \<and> g \<noteq> 0 \<and> page_directory_loc_phys s \<noteq> push_bit 12 g \<and>
     (\<forall>i. unat i < 1024 \<longrightarrow> table_at s i \<noteq> push_bit 12 g)"

definition paging_only :: "'a paging_scheme \<Rightarrow> 'a paging_scheme \<Rightarrow> bool" where
  "paging_only s s' \<longleftrightarrow> (\<exists>m b a h t c. s' = s\<lparr>mem := m, bitmap_bytes := b, available_frames := a, frame_hint := h,
     page_tables_loc_phys := t, page_table_count := c\<rparr>)"

lemma paging_onlyI:
  assumes "s' = s\<lparr>mem := mem s', bitmap_bytes := bitmap_bytes s', available_frames := available_frames s',
     frame_hint := frame_hint s', page_tables_loc_phys := page_tables_loc_phys s', page_table_count := page_table_count s'\<rparr>"
  shows "paging_only s s'"
  unfolding paging_only_def by (intro exI) (rule assms)

lemma paging_onlyE:
  assumes "paging_only s s'"
  obtains m b a h t c where "s' = s\<lparr>mem := m, bitmap_bytes := b, available_frames := a, frame_hint := h,
     page_tables_loc_phys := t, page_table_count := c\<rparr>"
  using assms unfolding paging_only_def by blast

lemma paging_only_trans: "paging_only s s' \<Longrightarrow> paging_only s' s'' \<Longrightarrow> paging_only s s''"
  by (elim paging_onlyE, rule paging_onlyI, simp)

lemma pmm_only_paging_only: "pmm_only s s' \<Longrightarrow> paging_only s s'"
  by (elim pmm_onlyE, rule paging_onlyI, simp)

lemma set_pte_paging_only: "paging_only s (set_pte v e s)"
  by (rule paging_onlyI) (simp add: set_pte_def)

lemma installed_paging_only: "paging_only s (installed i p u s)"
  by (rule paging_onlyI) (simp add: installed_def)

definition keeps_data :: "'a paging_scheme \<Rightarrow> 'a paging_scheme \<Rightarrow> bool" where
  "keeps_data s s' \<longleftrightarrow> paging_only s s' \<and> (\<forall>g. data_frame s g \<longrightarrow> data_frame s' g \<and>
     (\<forall>j. unat j < 1024 \<longrightarrow> ld32 (mem s') (tbl (push_bit 12 g) j) = ld32 (mem s) (tbl (push_bit 12 g) j)))"

lemma keeps_data_refl [simp]: "keeps_data s s"
  using pmm_only_paging_only [OF pmm_only_refl] by (simp add: keeps_data_def)

lemma keeps_data_trans: "keeps_data s s' \<Longrightarrow> keeps_data s' s'' \<Longrightarrow> keeps_data s s''"
  using paging_only_trans by (auto simp: keeps_data_def)

lemma data_frame_aligned:
  assumes "pg_inv s" "data_frame s g"
  shows "unat g < 0x30000" "page_aligned (push_bit 12 g)" "unat (push_bit 12 g) = unat g * 4096"
proof -
  show lt: "unat g < 0x30000"
    using assms pg_invD(3) [OF assms(1)] by (simp add: data_frame_def owned_frames_def)
  then show u: "unat (push_bit 12 g) = unat g * 4096" by (intro unat_push12) simp
  then show "page_aligned (push_bit 12 g)" by (simp add: page_aligned_unat)
qed

lemma set_pte_keeps_data:
  assumes "pg_inv s" "table_at s (pde_index v) \<noteq> 0"
  shows "keeps_data s (set_pte v e s)"
  unfolding keeps_data_def
proof (intro allI impI conjI)
  show "paging_only s (set_pte v e s)" by (rule set_pte_paging_only)
next
  fix g j assume g: "data_frame s g"
  show "data_frame (set_pte v e s) g"
    using g by (simp add: data_frame_def set_pte_def table_at_def owned_frames_def used_frames_def)
  have "page_aligned (table_at s (pde_index v))"
    using pg_invD(6) [OF assms(1) pde_index_less(1) assms(2)] by (simp add: table_frame_def)
  moreover have "table_at s (pde_index v) \<noteq> push_bit 12 g" using g by (simp add: data_frame_def)
  ultimately show "ld32 (mem (set_pte v e s)) (tbl (push_bit 12 g) j) = ld32 (mem s) (tbl (push_bit 12 g) j)"
    if "unat j < 1024"
    using ld32_st32_tbl [OF _ data_frame_aligned(2) [OF assms(1) g] pte_index_less that]
    by (simp add: set_pte_def)
qed

lemma owned_frames_grow:
  assumes "pmm_only s s'" "free_frames s' \<subseteq> free_frames s"
  shows "owned_frames s \<subseteq> owned_frames s'"
  using assms(1)
proof (rule pmm_onlyE)
  fix b a h assume "s' = s\<lparr>bitmap_bytes := b, available_frames := a, frame_hint := h\<rparr>"
  then have "frame_count s' = frame_count s" "mem_regions s' = mem_regions s" by simp_all
  with assms(2) show ?thesis by (auto simp: owned_frames_def free_frames_def)
qed

lemma pmm_only_keeps_data:
  assumes "pmm_only s s'" "free_frames s' \<subseteq> free_frames s"
  shows "keeps_data s s'"
  using owned_frames_grow [OF assms] pmm_only_paging [OF assms(1)] pmm_only_paging_only [OF assms(1)]
  by (auto simp: keeps_data_def data_frame_def table_at_def)

lemma installed_keeps_data:
  assumes "pg_inv s" "unat i < 1024" "unat f \<in> free_frames s"
    "free_frames s0 = free_frames s - {unat f}" "pmm_only s s0"
  shows "keeps_data s (installed i (push_bit 12 f) u s0)"
  unfolding keeps_data_def
proof (intro allI impI conjI)
  show "paging_only s (installed i (push_bit 12 f) u s0)"
    by (rule paging_only_trans [OF pmm_only_paging_only [OF assms(5)] installed_paging_only])
next
  fix g j assume g: "data_frame s g"
  note same = pmm_only_paging [OF assms(5)] and A = data_frame_aligned [OF assms(1) g]
  have o: "unat g \<in> owned_frames (installed i (push_bit 12 f) u s0)"
    using owned_frames_grow [OF assms(5)] assms(4) g
    by (auto simp: data_frame_def owned_frames_def installed_def used_frames_def)
  have "unat g \<noteq> unat f" using g assms(3) by (auto simp: data_frame_def owned_frames_def free_frames_def)
  then have ne: "push_bit 12 f \<noteq> push_bit 12 g"
    using A(3) free_table_frame(1) [OF assms(1,3)] by auto
  have "unat i < length (page_tables_loc_phys s0)" using pg_invD(2) [OF assms(1)] assms(2) same by simp
  then show "data_frame (installed i (push_bit 12 f) u s0) g"
    using g o ne same by (simp add: data_frame_def installed_table) (simp add: table_at_def)
  have "page_aligned (page_directory_loc_phys s)" using pg_invD(4) [OF assms(1)] by (simp add: table_frame_def)
  then show "ld32 (mem (installed i (push_bit 12 f) u s0)) (tbl (push_bit 12 g) j) = ld32 (mem s) (tbl (push_bit 12 g) j)"
    if "unat j < 1024"
    using ld32_st32_tbl [OF _ A(2) assms(2) that] g by (simp add: installed_def same data_frame_def)
qed

text \<open>The result of mapping a page, on every branch after the checks of the arguments.\<close>

lemma map_cases:
  assumes inv: "as_inv s" and v: "page_aligned v" "page_aligned p" "flag_error v fl = None"
  obtains (ok) s' where "paging_map_page v p fl s = Some (PAGING_OK, s')" "as_inv s'"
      "translate s v = None" "mapped v (Some (p, (fl AND 0xFFF) OR PG_PRESENT)) (translate s) (translate s')"
      "free_frames s' \<subseteq> free_frames s" "keeps_data s s'"
      "card (free_frames s) \<le> card (free_frames s') + 1"
      "unat (page_table_count s') \<le> unat (page_table_count s) + 1"
    | (failed) r where "paging_map_page v p fl s = Some (r, s)"
      "r = PAGING_ERR_NOMEM \<and> (free_frames s = {} \<or> page_table_count s \<ge> PT_MAX) \<or>
       r = PAGING_ERR_ALREADY_MAPPED \<and> translate s v \<noteq> None \<or>
       r = PAGING_ERR_PT_USER_FLAG_MISMATCH \<and> fl AND PG_USER \<noteq> 0 \<and> pde_at s (pde_index v) AND PG_USER = 0"
proof (cases "table_at s (pde_index v) = 0")
  case False
  note D = as_invD [OF inv]
  let ?e = "(p AND 0xFFFFF000) OR (fl AND 0xFFF) OR PG_PRESENT"
  note M = map_present [OF D(2) v False]
  consider "fl AND PG_USER \<noteq> 0 \<and> pde_at s (pde_index v) AND PG_USER = 0"
    | "\<not> (fl AND PG_USER \<noteq> 0 \<and> pde_at s (pde_index v) AND PG_USER = 0)" "translate s v \<noteq> None"
    | "\<not> (fl AND PG_USER \<noteq> 0 \<and> pde_at s (pde_index v) AND PG_USER = 0)" "translate s v = None" by blast
  then show thesis
  proof cases
    case 3
    then have "paging_map_page v p fl s = Some (PAGING_OK, set_pte v ?e s)" using M by auto
    then show thesis
      by (rule ok [OF _ set_pte_as_inv [OF inv False] 3(2)])
        (use set_pte_mapped [OF D(2) False v(1), of ?e] set_pte_keeps_data [OF D(2) False] in
          \<open>simp_all add: entry_bits [OF v(2)]\<close>, simp add: set_pte_def)
  qed (use M failed in auto)
next
  case True
  note D = as_invD [OF inv]
  define u where "u = (if fl AND PG_USER \<noteq> 0 then PG_USER else 0)"
  show thesis
    using D(1,2) pde_index_less(1) True
  proof (cases rule: install_table_cases [of s "pde_index v" fl, case_names nomem installed])
    case nomem
    then show thesis
      using map_absent [OF D(1,2) v True] by (intro failed [of PAGING_ERR_NOMEM]) auto
  next
    case (installed f s0)
    let ?s1 = "installed (pde_index v) (push_bit 12 f) u s0"
    have u: "u = 0 \<or> u = PG_USER" by (simp add: u_def)
    note I = installed_as_inv [OF inv pde_index_less(1) True installed(1-4) u]
    have tr: "translate s v = None" using walk_eq [OF D(2), of v] True by simp
    have "unat (pde_index v) < length (page_tables_loc_phys s0)"
      using pg_invD(2) [OF D(2)] pmm_only_paging(3) [OF installed(3)] by simp
    then have t1: "table_at ?s1 (pde_index v) \<noteq> 0"
      using free_table_frame(4) [OF D(2) installed(1)] by (simp add: installed_table)
    have al: "page_aligned (push_bit 12 f)" using free_table_frame [OF D(2) installed(1)] by simp
    have "pde_at ?s1 (pde_index v) = push_bit 12 f OR u OR PG_PRESENT OR PG_RW"
      by (simp add: pde_at_def installed_def)
    then have B: "\<not> (fl AND PG_USER \<noteq> 0 \<and> pde_at ?s1 (pde_index v) AND PG_USER = 0)"
      using new_pde_bits(3) [OF al u] by (auto simp: u_def PG_USER_def split: if_splits)
    let ?e = "(p AND 0xFFFFF000) OR (fl AND 0xFFF) OR PG_PRESENT"
    have "paging_map_page v p fl s = Some (PAGING_OK, set_pte v ?e ?s1)"
      using map_absent [OF D(1,2) v True] installed(5) [folded u_def] B
        map_present [OF as_invD(2) [OF I(1)] v t1] tr fun_cong [OF I(2), of v] by simp
    moreover have "keeps_data s (set_pte v ?e ?s1)"
      by (rule keeps_data_trans [OF installed_keeps_data [OF D(2) pde_index_less(1) installed(1-3)]
            set_pte_keeps_data [OF as_invD(2) [OF I(1)] t1]])
    moreover have "card (free_frames s) \<le> card (free_frames (set_pte v ?e ?s1)) + 1"
      using installed(1,2) card_Diff_singleton [of "unat f" "free_frames s"] by simp
    moreover have "unat (page_table_count (set_pte v ?e ?s1)) \<le> unat (page_table_count s) + 1"
      using unat_plus_simple pmm_only_paging(4) [OF installed(3)]
      by (simp add: set_pte_def installed_def unat_word_ariths)
    ultimately show thesis
      by (rule_tac ok [OF _ set_pte_as_inv [OF I(1) t1] tr])
        (use set_pte_mapped [OF as_invD(2) [OF I(1)] t1 v(1), of ?e] I(2) installed(2) in
          \<open>auto simp: entry_bits [OF v(2)]\<close>)
  qed
qed

text \<open>
  The interface the rest of the kernel programs against: pages are mapped, unmapped and looked up,
  and a page that was not named keeps its translation.
\<close>

locale address_space =
  fixes map_page :: "u32 \<Rightarrow> u32 \<Rightarrow> u32 \<Rightarrow> 's \<Rightarrow> (paging_status \<times> 's) option"
    and unmap_page :: "u32 \<Rightarrow> 's \<Rightarrow> ((paging_status \<times> u32) \<times> 's) option"
    and query_page :: "u32 \<Rightarrow> 's \<Rightarrow> (paging_status \<times> paging_query_result option) option"
    and valid :: "'s \<Rightarrow> bool"
    and trans :: "'s \<Rightarrow> u32 \<Rightarrow> (u32 \<times> u32) option"
  assumes map_ok: "valid s \<Longrightarrow> page_aligned v \<Longrightarrow> page_aligned p \<Longrightarrow>
      map_page v p fl s = Some (PAGING_OK, s') \<Longrightarrow>
      valid s' \<and> trans s v = None \<and> mapped v (Some (p, (fl AND 0xFFF) OR PG_PRESENT)) (trans s) (trans s')"
    and unmap_ok: "valid s \<Longrightarrow> page_aligned v \<Longrightarrow> trans s v = Some (p, f) \<Longrightarrow>
      \<exists>s'. unmap_page v s = Some ((PAGING_OK, p), s') \<and> valid s' \<and> mapped v None (trans s) (trans s')"
    and query_ok: "valid s \<Longrightarrow> trans s v = Some (p, f) \<Longrightarrow>
      query_page v s = Some (PAGING_OK, Some \<lparr>q_mapped = True, q_phys_addr = p, q_flags = f\<rparr>)"
begin

lemma map_then_query:
  assumes "valid s" "page_aligned v" "page_aligned p" "map_page v p fl s = Some (PAGING_OK, s')"
  shows "query_page v s' = Some (PAGING_OK,
    Some \<lparr>q_mapped = True, q_phys_addr = p, q_flags = (fl AND 0xFFF) OR PG_PRESENT\<rparr>)"
proof -
  have "valid s'" "trans s' v = Some (p, (fl AND 0xFFF) OR PG_PRESENT)"
    using map_ok [OF assms] assms(2) by (auto simp: mapped_def)
  then show ?thesis by (rule query_ok)
qed

lemma map_then_unmap:
  assumes "valid s" "page_aligned v" "page_aligned p" "map_page v p fl s = Some (PAGING_OK, s')"
  shows "\<exists>s''. unmap_page v s' = Some ((PAGING_OK, p), s'') \<and> valid s'' \<and>
    (\<forall>w. page_aligned w \<longrightarrow> trans s'' w = trans s w)"
proof -
  have M: "valid s'" "trans s v = None" "mapped v (Some (p, (fl AND 0xFFF) OR PG_PRESENT)) (trans s) (trans s')"
    using map_ok [OF assms] by auto
  then have "trans s' v = Some (p, (fl AND 0xFFF) OR PG_PRESENT)" using assms(2) by (simp add: mapped_def)
  from unmap_ok [OF M(1) assms(2) this] obtain s'' where
    U: "unmap_page v s' = Some ((PAGING_OK, p), s'')" "valid s''" "mapped v None (trans s') (trans s'')" by blast
  have "trans s'' w = trans s w" if "page_aligned w" for w
    using that M(2,3) U(3) by (simp add: mapped_def)
  with U show ?thesis by blast
qed

end

interpretation kas: address_space paging_map_page paging_unmap_page paging_query_page as_inv translate
proof unfold_locales
  fix s :: "'a paging_scheme" and v p fl :: u32 and s'
  assume s: "as_inv s" and v: "page_aligned v"
  assume p: "page_aligned p" and m: "paging_map_page v p fl s = Some (PAGING_OK, s')"
  have "page_directory_loc_phys s \<noteq> 0" "get_current_cpl s = CPL_KERNEL"
    using pg_invD(1,4) [OF as_invD(2) [OF s]] by (simp_all add: table_frame_def)
  with m v p have fe: "flag_error v fl = None"
    by (auto simp: paging_map_page_def aligned_mask flag_error_def split: if_splits)
  show "as_inv s' \<and> translate s v = None \<and> mapped v (Some (p, (fl AND 0xFFF) OR PG_PRESENT)) (translate s) (translate s')"
    using s v p fe by (cases rule: map_cases [of s v p fl]) (use m in auto)
next
  fix s :: "'a paging_scheme" and v p f :: u32
  assume s: "as_inv s" and v: "page_aligned v" and t: "translate s v = Some (p, f)"
  note D = as_invD [OF s]
  have nz: "table_at s (pde_index v) \<noteq> 0" using t walk_eq [OF D(2), of v] by auto
  have "entry_of 0 = None" by (simp add: entry_of_def)
  with set_pte_mapped [OF D(2) nz v, of 0] set_pte_as_inv [OF s nz] unmap_spec [OF D(2) v] t
  show "\<exists>s'. paging_unmap_page v s = Some ((PAGING_OK, p), s') \<and> as_inv s' \<and> mapped v None (translate s) (translate s')"
    by auto
next
  fix s :: "'a paging_scheme" and v p f :: u32
  assume "as_inv s" "translate s v = Some (p, f)"
  then show "paging_query_page v s = Some (PAGING_OK, Some \<lparr>q_mapped = True, q_phys_addr = p, q_flags = f\<rparr>)"
    by (simp add: query_spec as_invD)
qed


section \<open>Properties\<close>

text \<open>A concrete address space: the directory in frame 8, one user table, in frame 9, for the first 4 MiB.\<close>

definition ex_paging :: paging where
  "ex_paging =
     \<lparr>mem = st32 (\<lambda>_. 0) 0x8000 0x9007, cr3 = 0x8000, cs_reg = 8,
      kernel_start = 0x100000, kernel_end = 0x110000,
      g_avail_memory_kib = 2048, g_memory_method = USE_E801, g_e820_descs = [],
      g_bootinfo_validated = True, g_kernel_phys_address = 0x100000, g_kernel_size_bytes = 0x10000,
      g_kparams_phys_address = 0, g_kparams_size_bytes = 0,
      pagebitmap = 0x9000, pagebitmap_phys = 0x9000, pagebitmap_size_bytes = 2, frame_count = 16,
      frame_hint = 10, available_frames = 4, use_phys_window_alias = False,
      bitmap_bytes = [0xFF, 0x0F],
      mem_regions = [\<lparr>mr_base = 0, mr_length = 0x8000, mr_type = MEM_RESERVED\<rparr>],
      page_directory_loc_phys = 0x8000, page_tables_loc_phys = 0x9000 # replicate 1023 0,
      page_table_count = 1, cr0 = 0x80000001\<rparr>"

lemma ex_paging_pmm: "pmm_inv ex_paging" "free_frames ex_paging = {12..<16}"
proof -
  have f: "free_frames ex_paging = free_frames ex_pmm"
    by (simp add: free_frames_def used_frames_def ex_paging_def ex_pmm_def)
  then show "free_frames ex_paging = {12..<16}" by (simp add: ex_pmm_free)
  show "pmm_inv ex_paging"
    using ex_pmm_inv f by (simp add: pmm_inv_def pmm_core_def) (simp add: ex_paging_def ex_pmm_def)
qed

lemma ex_paging_tables:
  "unat i < 1024 \<Longrightarrow> table_at ex_paging i = (if i = 0 then 0x9000 else 0)"
  "unat i < 1024 \<Longrightarrow> pde_at ex_paging i = (if i = 0 then 0x9007 else 0)"
proof -
  show "table_at ex_paging i = (if i = 0 then 0x9000 else 0)" if "unat i < 1024"
    using that by (auto simp: table_at_def ex_paging_def nth_Cons' unat_eq_0)
  have a: "page_aligned 0x8000" "tbl 0x8000 0 = 0x8000" by (simp_all add: page_aligned_def tbl_def)
  have z: "ld32 (\<lambda>_. 0) x = 0" for x by (simp add: ld32_def)
  show "pde_at ex_paging i = (if i = 0 then 0x9007 else 0)" if "unat i < 1024"
    using ld32_st32_tbl [OF a(1) a(1) _ that, of 0 "\<lambda>_. 0" "0x9007"] z
    by (simp add: pde_at_def ex_paging_def a(2))
qed

lemma ex_paging_inv: "as_inv ex_paging"
proof -
  have tf: "table_frame ex_paging 0x8000" "table_frame ex_paging 0x9000"
    by (simp_all add: table_frame_def page_aligned_def in_window_def ex_paging_pmm)
  have "get_current_cpl ex_paging = CPL_KERNEL" "length (page_tables_loc_phys ex_paging) = 1024"
    "unat (frame_count ex_paging) \<le> 0x30000" "page_directory_loc_phys ex_paging = 0x8000"
    by (simp_all add: ex_paging_def get_current_cpl_def)
  then have "pg_inv ex_paging"
    unfolding pg_inv_def using tf ex_paging_tables ex_paging_pmm(2)
    by (auto simp: PG_PRESENT_def)
  moreover have "no_stale ex_paging"
    unfolding no_stale_def ex_paging_pmm
  proof (intro allI impI)
    fix f j :: u32 assume f: "unat f \<in> {12..<16}" and j: "unat j < 1024"
    have a: "page_aligned 0x8000" "tbl 0x8000 0 = 0x8000" by (simp_all add: page_aligned_def tbl_def)
    have u: "unat (push_bit 12 f) = unat f * 4096" using f by (intro unat_push12) auto
    then have p: "page_aligned (push_bit 12 f)" "push_bit 12 f \<noteq> 0x8000"
      using f by (auto simp: page_aligned_unat u32_eq_iff)
    have "ld32 (\<lambda>_. 0) x = 0" for x by (simp add: ld32_def)
    then show "ld32 (mem ex_paging) (tbl (push_bit 12 f) j) AND PG_PRESENT = 0"
      using ld32_st32_tbl [OF a(1) p(1) _ j, of 0 "\<lambda>_. 0" "0x9007"] p(2)
      by (simp add: ex_paging_def a(2))
  qed
  moreover have "cr3 ex_paging AND 0xFFFFF000 = page_directory_loc_phys ex_paging"
    by (simp add: ex_paging_def)
  ultimately show ?thesis using ex_paging_pmm by (simp add: as_inv_def)
qed

lemma ex_paging_empty: "translate ex_paging v = None"
proof -
  have a: "page_aligned 0x8000" "page_aligned 0x9000" "tbl 0x8000 0 = 0x8000"
    by (simp_all add: page_aligned_def tbl_def)
  have z: "ld32 (\<lambda>_. 0) x = 0" for x by (simp add: ld32_def)
  have "ld32 (mem ex_paging) (tbl 0x9000 (pte_index v)) = 0"
    using ld32_st32_tbl [OF a(1,2) _ pte_index_less, of 0 "\<lambda>_. 0" "0x9007" v] z
    by (simp add: ex_paging_def a(3))
  then show ?thesis
    using ex_paging_tables(1) [OF pde_index_less(1) [of v]]
    by (simp add: walk_eq [OF as_invD(2) [OF ex_paging_inv]])
qed

text \<open>
  (C2) Mapping a page. \<^verbatim>\<open>paging_map_page\<close> returns for all arguments. Unaligned addresses and a user flag
  that does not fit the half of the address space are refused; otherwise the result is success
  exactly with the effect of adding the page with its frame and flags to the translation and changing
  no other page, or one of three errors, each with its cause and without any effect.
\<close>

theorem paging_map_page_correct:
  assumes "as_inv s"
  shows "\<exists>r s'. paging_map_page v p fl s = Some (r, s') \<and> as_inv s' \<and>
    (if \<not> page_aligned v \<or> \<not> page_aligned p then r = PAGING_ERR_ALIGN \<and> s' = s
     else case flag_error v fl of
       Some e \<Rightarrow> r = e \<and> s' = s
     | None \<Rightarrow>
         r = PAGING_OK \<and> translate s v = None \<and>
           mapped v (Some (p, (fl AND 0xFFF) OR PG_PRESENT)) (translate s) (translate s') \<or>
         s' = s \<and>
           (r = PAGING_ERR_NOMEM \<and> (free_frames s = {} \<or> page_table_count s \<ge> PT_MAX) \<or>
            r = PAGING_ERR_ALREADY_MAPPED \<and> translate s v \<noteq> None \<or>
            r = PAGING_ERR_PT_USER_FLAG_MISMATCH \<and> fl AND PG_USER \<noteq> 0 \<and>
              pde_at s (pde_index v) AND PG_USER = 0))"
proof -
  have k: "page_directory_loc_phys s \<noteq> 0" "get_current_cpl s = CPL_KERNEL"
    using pg_invD(1,4) [OF as_invD(2) [OF assms]] by (simp_all add: table_frame_def)
  consider "\<not> page_aligned v \<or> \<not> page_aligned p" | e where "page_aligned v" "page_aligned p" "flag_error v fl = Some e"
    | "page_aligned v" "page_aligned p" "flag_error v fl = None" by (cases "flag_error v fl") auto
  then show ?thesis
  proof cases
    case 3
    show ?thesis using 3 assms by (rule_tac map_cases [OF assms 3]) auto
  qed (use k assms in \<open>auto simp: paging_map_page_def aligned_mask\<close>)
qed

theorem paging_map_page_correct_witness:
  "\<exists>s'. paging_map_page 0x5000 0xA000 6 ex_paging = Some (PAGING_OK, s') \<and> as_inv s' \<and>
     translate s' 0x5000 = Some (0xA000, 7) \<and> translate s' 0x6000 = None"
proof -
  have a: "page_aligned 0x5000" "page_aligned 0xA000" "page_aligned 0x6000" "flag_error 0x5000 6 = None"
    by (simp_all add: page_aligned_def flag_error_def PG_USER_def KERNEL_VIRTUAL_BASE_def)
  have u: "pde_at ex_paging (pde_index 0x5000) AND PG_USER \<noteq> 0" "free_frames ex_paging \<noteq> {}"
    "\<not> page_table_count ex_paging \<ge> PT_MAX"
    by (simp_all add: ex_paging_tables(2) ex_paging_pmm)
      (simp_all add: pde_index_def PG_USER_def PT_MAX_def ex_paging_def word_le_nat_alt)
  have f: "6 OR PG_PRESENT = 7" by (simp add: PG_PRESENT_def)
  show ?thesis
    using paging_map_page_correct [OF ex_paging_inv, of "0x5000" "0xA000" 6] a u ex_paging_empty
    by (auto simp: mapped_def f)
qed



text \<open>
  (C4) Mapping and unmapping are inverse: after a successful \<^verbatim>\<open>paging_map_page\<close> a query returns the frame and
  the flags, and \<^verbatim>\<open>paging_unmap_page\<close> returns the frame and restores the translation of every page.
\<close>

theorem map_unmap_roundtrip:
  assumes "as_inv s" "page_aligned v" "page_aligned p" "paging_map_page v p fl s = Some (PAGING_OK, s')"
  shows "paging_query_page v s' = Some (PAGING_OK,
      Some \<lparr>q_mapped = True, q_phys_addr = p, q_flags = (fl AND 0xFFF) OR PG_PRESENT\<rparr>) \<and>
    (\<exists>s''. paging_unmap_page v s' = Some ((PAGING_OK, p), s'') \<and> as_inv s'' \<and>
       (\<forall>w. page_aligned w \<longrightarrow> translate s'' w = translate s w))"
  using kas.map_then_query [OF assms] kas.map_then_unmap [OF assms] by blast

lemma ex_paging_map:
  "\<exists>s'. paging_map_page 0x5000 0xA000 6 ex_paging = Some (PAGING_OK, s')"
proof -
  have a: "page_aligned 0x5000" "page_aligned 0xA000" "flag_error 0x5000 6 = None"
    by (simp_all add: page_aligned_def flag_error_def PG_USER_def KERNEL_VIRTUAL_BASE_def)
  have i: "pde_index 0x5000 = 0" by (simp add: pde_index_def)
  have "table_at ex_paging 0 \<noteq> 0" "pde_at ex_paging 0 AND PG_USER \<noteq> 0"
    using ex_paging_tables [of 0] by (simp_all add: PG_USER_def)
  then show ?thesis
    using map_present [OF as_invD(2) [OF ex_paging_inv] a] ex_paging_empty i by auto
qed

theorem map_unmap_roundtrip_witness:
  "\<exists>s' s''. paging_map_page 0x5000 0xA000 6 ex_paging = Some (PAGING_OK, s') \<and>
     paging_unmap_page 0x5000 s' = Some ((PAGING_OK, 0xA000), s'') \<and> translate s'' 0x5000 = None"
proof -
  have a: "page_aligned 0x5000" "page_aligned 0xA000" by (simp_all add: page_aligned_def)
  obtain s' where "paging_map_page 0x5000 0xA000 6 ex_paging = Some (PAGING_OK, s')"
    using ex_paging_map by blast
  with map_unmap_roundtrip [OF ex_paging_inv a this] a ex_paging_empty show ?thesis by auto
qed


lemma pg_inv_grow:
  assumes "pg_inv s" "pmm_only s s'" "free_frames s' = insert (unat f) (free_frames s)" "f \<noteq> 0"
    "page_directory_loc_phys s \<noteq> push_bit 12 f" "\<forall>i. unat i < 1024 \<longrightarrow> table_at s i \<noteq> push_bit 12 f"
  shows "pg_inv s'"
proof -
  note same = pmm_only_paging [OF assms(2)]
  have "table_frame s' p" if "table_frame s p" "p \<noteq> push_bit 12 f" for p
  proof -
    have "drop_bit 12 p \<noteq> f" using that push_drop12 [of p] by (auto simp: table_frame_def page_aligned_mod)
    then have "unat p div 4096 \<noteq> unat f" using unat_drop_bit_u32 [of 12 p] unat_arith_simps(3) [of "drop_bit 12 p" f] by auto
    with that assms(3) show ?thesis by (simp add: table_frame_def)
  qed
  moreover have "table_at s' i = table_at s i" "pde_at s' i = pde_at s i" for i
    by (simp_all add: table_at_def pde_at_def same)
  moreover have "get_current_cpl s' = get_current_cpl s" by (simp add: get_current_cpl_def same)
  ultimately show ?thesis
    using assms(1,3-6) unfolding pg_inv_def same by (auto simp: unat_eq_0)
qed

text \<open>
  (C8) Freeing a mapped page: \<^verbatim>\<open>paging_unmap_and_free_page\<close> on a page whose frame is nonzero, owned and no
  page table removes exactly that translation and returns the frame to the allocator.
\<close>

theorem paging_unmap_and_free_page_correct:
  assumes "as_inv s" "page_aligned v" "translate s v = Some (push_bit 12 f, fl)"
    "f \<noteq> 0" "unat f \<in> owned_frames s"
    "\<forall>i. unat i < 1024 \<longrightarrow> table_at s i \<noteq> push_bit 12 f" "page_directory_loc_phys s \<noteq> push_bit 12 f"
  shows "\<exists>s'. paging_unmap_and_free_page v s = Some (PAGING_OK, s') \<and> pmm_inv s' \<and> pg_inv s' \<and>
    free_frames s' = insert (unat f) (free_frames s) \<and> mapped v None (translate s) (translate s')"
proof -
  note D = as_invD [OF assms(1)]
  let ?s1 = "set_pte v 0 s"
  have "unat f < unat (frame_count s)" using assms(5) by (simp add: owned_frames_def)
  then have small: "unat f < 0x30000" using pg_invD(3) [OF D(2)] by linarith
  have nz: "push_bit 12 f \<noteq> 0" using assms(4) small by (auto simp: unat_push12 simp flip: unat_eq_0)
  have tb: "table_at s (pde_index v) \<noteq> 0" using assms(3) walk_eq [OF D(2), of v] by auto
  have i1: "pg_inv ?s1" "pmm_inv ?s1" "unat f \<in> owned_frames ?s1"
    using set_pte_inv [OF D(2) tb] D(1) assms(5) by (simp_all add: owned_frames_def set_pte_def reserved_frames_def used_frames_def)
  obtain s' where s': "pmm_dealloc_specific_block (push_bit 12 f) ?s1 = Some (PMM_ALLOC_SUCCESS, s')"
    "pmm_inv s'" "pmm_only ?s1 s'" "free_frames s' = insert (unat f) (free_frames ?s1)"
    by (rule dealloc_step [OF i1(2,3)])
  have "page_directory_loc_phys ?s1 \<noteq> push_bit 12 f" "\<forall>i. unat i < 1024 \<longrightarrow> table_at ?s1 i \<noteq> push_bit 12 f"
    using assms(6,7) by (simp_all add: set_pte_def table_at_def)
  with i1(1) assms(4) have "pg_inv s'" by (rule_tac pg_inv_grow [OF _ s'(3,4)])
  moreover have "translate s' = translate ?s1" by (simp add: pmm_only_paging [OF s'(3)])
  ultimately show ?thesis
    using unmap_spec [OF D(2) assms(2)] assms(3) nz s' pg_invD(1) [OF D(2)]
      set_pte_mapped [OF D(2) tb assms(2), of 0]
    by (simp add: paging_unmap_and_free_page_def entry_of_def)
qed

text \<open>A page mapped to an owned frame: frame 11 at \<open>0x5000\<close>.\<close>

definition ex_mapped :: paging where
  "ex_mapped = set_pte 0x5000 0xB007 ex_paging"

lemma ex_mapped_props:
  "as_inv ex_mapped" "translate ex_mapped 0x5000 = Some (0xB000, 7)" "page_aligned 0x5000"
  "pde_at ex_mapped (pde_index 0x5000) = 0x9007" "flag_error 0x5000 4 = None"
proof -
  have i: "pde_index 0x5000 = 0" by (simp add: pde_index_def)
  have tb: "table_at ex_paging (pde_index 0x5000) \<noteq> 0" using ex_paging_tables(1) [of 0] i by simp
  show a: "page_aligned 0x5000" by (simp add: page_aligned_def)
  show "as_inv ex_mapped" unfolding ex_mapped_def by (rule set_pte_as_inv [OF ex_paging_inv tb])
  have "entry_of 0xB007 = Some (0xB000, 7)" by (simp add: entry_of_def PG_PRESENT_def)
  then show "translate ex_mapped 0x5000 = Some (0xB000, 7)"
    using set_pte_mapped [OF as_invD(2) [OF ex_paging_inv] tb a] a unfolding ex_mapped_def by (simp add: mapped_def)
  show "pde_at ex_mapped (pde_index 0x5000) = 0x9007"
    unfolding ex_mapped_def
    using pde_at_set_pte [OF as_invD(2) [OF ex_paging_inv] tb] ex_paging_tables(2) [of 0] i by simp
  show "flag_error 0x5000 4 = None" by (simp add: flag_error_def PG_USER_def KERNEL_VIRTUAL_BASE_def)
qed

theorem paging_unmap_and_free_page_correct_witness:
  "\<exists>s'. paging_unmap_and_free_page 0x5000 ex_mapped = Some (PAGING_OK, s') \<and>
     free_frames s' = {11..<16} \<and> translate s' 0x5000 = None"
proof -
  have "free_frames ex_mapped = {12..<16}" by (simp add: ex_mapped_def ex_paging_pmm)
  moreover from this have "unat (11 :: u32) \<in> owned_frames ex_mapped"
  proof -
    have "frame_count ex_mapped = 16"
      "mem_regions ex_mapped = [\<lparr>mr_base = 0, mr_length = 0x8000, mr_type = MEM_RESERVED\<rparr>]"
      by (simp_all add: ex_mapped_def set_pte_def ex_paging_def)
    moreover have "11 \<notin> free_frames ex_mapped" by (simp add: ex_mapped_def ex_paging_pmm)
    ultimately show ?thesis
      by (simp add: owned_frames_def free_frames_def reserved_frames_def touched_def live_region_def)
  qed
  moreover have "\<forall>i. unat i < 1024 \<longrightarrow> table_at ex_mapped i \<noteq> push_bit 12 11"
    using ex_paging_tables(1) by (simp add: ex_mapped_def table_at_def set_pte_def)
  moreover have "page_directory_loc_phys ex_mapped \<noteq> push_bit 12 11"
    by (simp add: ex_mapped_def set_pte_def ex_paging_def)
  moreover have "insert 11 {12..<16} = {11..<(16 :: nat)}" by auto
  ultimately show ?thesis
    using paging_unmap_and_free_page_correct [OF ex_mapped_props(1,3), of 11 7] ex_mapped_props(2,3)
    by (auto simp: mapped_def)
qed

text \<open>
  (C9) Changing the flags of a page: \<^verbatim>\<open>paging_set_flags\<close> refuses unaligned addresses, unfitting user flags
  and unmapped pages without effect; on a mapped page it replaces the flags, keeps the frame and changes
  no other page.
\<close>

theorem paging_set_flags_correct:
  assumes "as_inv s" "page_aligned v" "flag_error v fl = None"
    "\<not> (fl AND PG_USER \<noteq> 0 \<and> pde_at s (pde_index v) AND PG_USER = 0)"
  shows "case translate s v of
      None \<Rightarrow> paging_set_flags v fl s = Some (PAGING_ERR_NOT_MAPPED, s)
    | Some (p, f) \<Rightarrow> \<exists>s'. paging_set_flags v fl s = Some (PAGING_OK, s') \<and> as_inv s' \<and>
        mapped v (Some (p, (fl AND 0xFFF) OR PG_PRESENT)) (translate s) (translate s')"
proof (cases "translate s v")
  case None
  with set_flags_spec [OF as_invD(2) [OF assms(1)] assms(2,3)] assms(4) show ?thesis by auto
next
  case (Some x)
  obtain p f where x: "x = (p, f)" by (cases x)
  note D = as_invD [OF assms(1)]
  have tb: "table_at s (pde_index v) \<noteq> 0" using Some walk_eq [OF D(2), of v] by auto
  from Some x have p: "p AND 0xFFFFF000 = p" "page_aligned p"
    using walk_eq [OF D(2), of v] by (auto simp: Let_def page_aligned_def and.assoc split: if_splits)
  let ?e = "p OR (fl AND 0xFFF) OR PG_PRESENT"
  have "entry_of ?e = Some (p, (fl AND 0xFFF) OR PG_PRESENT)" using entry_bits [OF p(2), of fl] p(1) by simp
  then show ?thesis
    using set_flags_spec [OF D(2) assms(2,3)] assms(4) Some x tb set_pte_as_inv [OF assms(1) tb]
      set_pte_mapped [OF D(2) tb assms(2), of ?e] by auto
qed


theorem paging_set_flags_correct_witness:
  "\<exists>s'. paging_set_flags 0x5000 4 ex_mapped = Some (PAGING_OK, s') \<and> translate s' 0x5000 = Some (0xB000, 5)"
proof -
  have "4 OR PG_PRESENT = 5" "0x9007 AND PG_USER \<noteq> 0" by (simp_all add: PG_PRESENT_def PG_USER_def)
  then show ?thesis
    using paging_set_flags_correct [OF ex_mapped_props(1,3,5)] ex_mapped_props by (auto simp: mapped_def)
qed

text \<open>
  A new page table is put into the directory without being cleared (\<^verbatim>\<open>paging.c\<close>, lines 362--376). When its
  frame still holds words that read as present entries, they become translations.
\<close>

definition ex_stale :: paging where
  "ex_stale = ex_paging\<lparr>mem := st32 (mem ex_paging) 0xC004 0x5007\<rparr>"

lemma ex_stale_inv:
  "pg_inv ex_stale" "pmm_inv ex_stale" "free_frames ex_stale = {12..<16}"
  "unat i < 1024 \<Longrightarrow> table_at ex_stale i = (if i = 0 then 0x9000 else 0)"
  "ld32 (mem ex_stale) (tbl 0xC000 1) = 0x5007" "ld32 (mem ex_stale) (tbl 0xC000 0) = 0"
proof -
  have a: "page_aligned 0x8000" "page_aligned 0xC000" "0xC004 = tbl 0xC000 1" by (simp_all add: page_aligned_def tbl_def)
  have eq: "frame_count ex_stale = frame_count ex_paging" "page_directory_loc_phys ex_stale = 0x8000"
    "page_tables_loc_phys ex_stale = page_tables_loc_phys ex_paging" "bitmap_bytes ex_stale = bitmap_bytes ex_paging"
    by (simp_all add: ex_stale_def ex_paging_def)
  have t: "table_at ex_stale j = table_at ex_paging j" for j by (simp add: table_at_def eq)
  have f: "free_frames ex_stale = free_frames ex_paging" by (simp add: free_frames_def used_frames_def eq)
  have p: "pde_at ex_stale j = pde_at ex_paging j" if "unat j < 1024" for j
    using ld32_st32_tbl [OF a(2,1) _ that, of 1 "mem ex_paging" "0x5007"] a(3)
    by (simp add: pde_at_def ex_stale_def ex_paging_def)
  show "free_frames ex_stale = {12..<16}" by (simp add: f ex_paging_pmm)
  show "unat i < 1024 \<Longrightarrow> table_at ex_stale i = (if i = 0 then 0x9000 else 0)" by (simp add: t ex_paging_tables)
  have "pmm_inv ex_stale = pmm_inv ex_paging" by (rule pmm_inv_cong) (simp_all add: ex_stale_def)
  then show "pmm_inv ex_stale" using ex_paging_pmm(1) by simp
  have "table_frame ex_stale x = table_frame ex_paging x" for x by (simp add: table_frame_def f)
  moreover have "page_directory_loc_phys ex_paging = 0x8000" "get_current_cpl ex_stale = get_current_cpl ex_paging"
    by (simp_all add: ex_paging_def ex_stale_def get_current_cpl_def)
  ultimately show "pg_inv ex_stale"
    using as_invD(2) [OF ex_paging_inv] p unfolding pg_inv_def by (simp add: t f eq)
  show "ld32 (mem ex_stale) (tbl 0xC000 1) = 0x5007" using a(3) by (simp add: ex_stale_def)
  have z: "ld32 (\<lambda>_. 0) x = 0" for x by (simp add: ld32_def)
  have "tbl 0x8000 0 = 0x8000" by (simp add: tbl_def)
  then show "ld32 (mem ex_stale) (tbl 0xC000 0) = 0"
    using ld32_st32_tbl [OF a(2,2), of 1 0 "mem ex_paging" "0x5007"]
      ld32_st32_tbl [OF a(1,2), of 0 0 "\<lambda>_. 0" "0x9007"] a(3) z
    by (simp add: ex_stale_def ex_paging_def)
qed


end
