(* ===== verification/Address_Space.thy ===== *)
theory Address_Space
  imports Paging_Map
begin

text \<open>
  Frames and pages together: taking a frame from the allocator, mapping it, unmapping it and giving it
  back, each as a step that keeps the invariant of the address space. The clients of paging (named
  kernel regions, demand-paged pools, the remap of the kernel, user address spaces) are proved with
  these steps.
\<close>

section \<open>Frames\<close>

definition clean_frame :: "'a paging_scheme \<Rightarrow> u32 \<Rightarrow> bool" where
  "clean_frame s f \<longleftrightarrow> (\<forall>j. unat j < 1024 \<longrightarrow> ld32 (mem s) (tbl (push_bit 12 f) j) AND PG_PRESENT = 0)"

lemma keeps_dataD:
  assumes "keeps_data s s'" "data_frame s f"
  shows "data_frame s' f" "clean_frame s f \<Longrightarrow> clean_frame s' f"
    "unat j < 1024 \<Longrightarrow> ld32 (mem s') (tbl (push_bit 12 f) j) = ld32 (mem s) (tbl (push_bit 12 f) j)"
  using assms by (auto simp: keeps_data_def clean_frame_def)

lemma keeps_data_more:
  assumes "keeps_data s s'"
  shows "paging.more s' = paging.more s" "page_directory_loc_phys s' = page_directory_loc_phys s" "cr3 s' = cr3 s"
    "mem_regions s' = mem_regions s" "frame_count s' = frame_count s" "paging_only s s'"
proof -
  show p: "paging_only s s'" using assms by (simp add: keeps_data_def)
  show "paging.more s' = paging.more s" "page_directory_loc_phys s' = page_directory_loc_phys s" "cr3 s' = cr3 s"
    "mem_regions s' = mem_regions s" "frame_count s' = frame_count s"
    by (rule paging_onlyE [OF p], simp)+
qed

lemma pmm_only_more: "pmm_only s s' \<Longrightarrow> paging.more s' = paging.more s"
  by (elim pmm_onlyE) simp

lemma as_inv_shrink:
  assumes "as_inv s" "pmm_inv s'" "pmm_only s s'" "free_frames s' \<subseteq> free_frames s"
  shows "as_inv s'" "translate s' = translate s"
proof -
  note D = as_invD [OF assms(1)] and same = pmm_only_paging [OF assms(3)]
  have "no_stale s'" using D(3) assms(4) unfolding no_stale_def same by blast
  then show "as_inv s'" using assms(2) pg_inv_shrink [OF D(2) assms(3,4)] D(4) by (simp add: as_inv_def same)
  show "translate s' = translate s" by (simp add: same)
qed

text \<open>Taking a frame: it is a data frame afterwards, and holds nothing that reads as an entry.\<close>

lemma take_block_cases:
  assumes "as_inv s"
  obtains (oom) "free_frames s = {}" "pmm_get_next_available_block s = Some ((0, PMM_ALLOC_OOM), s)"
    | (ok) f s' where "pmm_get_next_available_block s = Some ((push_bit 12 f, PMM_ALLOC_SUCCESS), s')"
      "as_inv s'" "translate s' = translate s" "unat f \<in> free_frames s"
      "free_frames s' = free_frames s - {unat f}" "data_frame s' f" "clean_frame s' f" "keeps_data s s'"
      "pmm_only s s'"
proof (cases "free_frames s = {}")
  case True
  then show thesis using get_next_oom [OF as_invD(1) [OF assms]] oom by blast
next
  case False
  note D = as_invD [OF assms]
  obtain f s' where s': "pmm_get_next_available_block s = Some ((push_bit 12 f, PMM_ALLOC_SUCCESS), s')"
    "unat f \<in> free_frames s" "free_frames s' = free_frames s - {unat f}" "pmm_inv s'" "pmm_only s s'"
    by (rule get_next_some [OF D(1) False])
  note same = pmm_only_paging [OF s'(5)] and F = free_table_frame [OF D(2) s'(2)]
  have sub: "free_frames s' \<subseteq> free_frames s" using s'(3) by auto
  have "mem_regions s' = mem_regions s" by (rule pmm_onlyE [OF s'(5)]) simp
  then have "unat f \<in> owned_frames s'"
    using s'(2,3) D(1) unfolding owned_diff_free [OF s'(4)] by (auto simp: same pmm_inv_def free_frames_def)
  moreover have "f \<noteq> 0" using F(4) by auto
  ultimately have "data_frame s' f" using F(5,6) by (auto simp: data_frame_def same table_at_def)
  moreover have "clean_frame s' f" using D(3) s'(2) by (simp add: no_stale_def clean_frame_def same)
  ultimately show thesis
    by (rule_tac ok [OF s'(1) as_inv_shrink [OF assms s'(4,5) sub] s'(2,3) _ _ pmm_only_keeps_data [OF s'(5) sub] s'(5)])
qed

text \<open>Giving back a data frame that holds nothing that reads as an entry.\<close>

lemma release_frame:
  assumes "as_inv s" "data_frame s f" "clean_frame s f"
  obtains s' where "pmm_dealloc_specific_block (push_bit 12 f) s = Some (PMM_ALLOC_SUCCESS, s')"
    "as_inv s'" "translate s' = translate s" "free_frames s' = insert (unat f) (free_frames s)" "pmm_only s s'"
proof -
  note D = as_invD [OF assms(1)]
  have f: "unat f \<in> owned_frames s" "f \<noteq> 0" "page_directory_loc_phys s \<noteq> push_bit 12 f"
    "\<forall>i. unat i < 1024 \<longrightarrow> table_at s i \<noteq> push_bit 12 f"
    using assms(2) by (simp_all add: data_frame_def)
  obtain s' where s': "pmm_dealloc_specific_block (push_bit 12 f) s = Some (PMM_ALLOC_SUCCESS, s')"
    "pmm_inv s'" "pmm_only s s'" "free_frames s' = insert (unat f) (free_frames s)"
    by (rule dealloc_step [OF D(1) f(1)])
  note same = pmm_only_paging [OF s'(3)]
  have eq: "\<And>g. unat g = unat f \<Longrightarrow> g = f" by (simp add: u32_eq_iff)
  have "no_stale s'"
    using D(3) assms(3) unfolding no_stale_def clean_frame_def same s'(4) by (auto dest: eq)
  then have "as_inv s'"
    using s'(2) pg_inv_grow [OF D(2) s'(3,4) f(2-4)] D(4) by (simp add: as_inv_def same)
  moreover have "translate s' = translate s" by (simp add: same)
  ultimately show thesis by (rule that [OF s'(1) _ _ s'(4,3)])
qed

lemma released_data_frame:
  assumes "pmm_only s s'" "free_frames s' = insert (unat f) (free_frames s)" "data_frame s g" "g \<noteq> f"
  shows "data_frame s' g" "clean_frame s' h = clean_frame s h"
proof -
  note same = pmm_only_paging [OF assms(1)]
  have "mem_regions s' = mem_regions s" by (rule pmm_onlyE [OF assms(1)]) simp
  moreover have "unat g \<notin> free_frames s'" using assms(2-4) by (auto simp: data_frame_def owned_frames_def free_frames_def u32_eq_iff)
  ultimately show "data_frame s' g"
    using assms(3) by (auto simp: data_frame_def table_at_def same owned_frames_def free_frames_def)
  show "clean_frame s' h = clean_frame s h" by (simp add: clean_frame_def same)
qed


section \<open>Pages\<close>

lemma unmap_step:
  assumes "as_inv s" "page_aligned v" "translate s v = Some (p, fl)"
  obtains s' where "paging_unmap_page v s = Some ((PAGING_OK, p), s')" "as_inv s'"
    "mapped v None (translate s) (translate s')" "free_frames s' = free_frames s" "keeps_data s s'"
proof -
  note D = as_invD [OF assms(1)]
  have t: "table_at s (pde_index v) \<noteq> 0" using assms(3) walk_eq [OF D(2), of v] by auto
  have "paging_unmap_page v s = Some ((PAGING_OK, p), set_pte v 0 s)"
    using unmap_spec [OF D(2) assms(2)] assms(3) by simp
  moreover have "mapped v None (translate s) (translate (set_pte v 0 s))"
    using set_pte_mapped [OF D(2) t assms(2), of 0] by (simp add: entry_of_def)
  ultimately show thesis
    by (rule_tac that [OF _ set_pte_as_inv [OF assms(1) t] _ _ set_pte_keeps_data [OF D(2) t]]) simp_all
qed

lemma mapped_other: "mapped v e T T' \<Longrightarrow> page_aligned w \<Longrightarrow> w \<noteq> v \<Longrightarrow> T' w = T w"
  by (simp add: mapped_def)

lemma mapped_same: "mapped v e T T' \<Longrightarrow> page_aligned v \<Longrightarrow> T' v = e"
  by (simp add: mapped_def)

text \<open>The pages of a range, given by its base and a number.\<close>

definition page_no :: "u32 \<Rightarrow> nat \<Rightarrow> u32" where
  "page_no base i = base + of_nat i * 4096"

lemma page_no_facts:
  assumes "page_aligned base" "unat base + n * 4096 \<le> 0x100000000" "i < n"
  shows "unat (page_no base i) = unat base + i * 4096" "page_aligned (page_no base i)"
proof -
  have lt: "i * 4096 + 4096 \<le> n * 4096" using assms(3) by simp
  then have small: "i * 4096 < 0x100000000" using assms(2) by linarith
  have "of_nat i * 4096 = (of_nat (i * 4096) :: u32)" by simp
  then have "unat (of_nat i * 4096 :: u32) = i * 4096" using unat_of_nat_u32 [of "i * 4096"] small by simp
  then show u: "unat (page_no base i) = unat base + i * 4096"
    unfolding page_no_def using lt assms(2) by (subst unat_add_u32) simp_all
  show "page_aligned (page_no base i)"
    using assms(1) by (simp add: page_aligned_unat u)
qed

lemma page_no_inj:
  assumes "page_aligned base" "unat base + n * 4096 \<le> 0x100000000" "i < n" "j < n"
  shows "page_no base i = page_no base j \<longleftrightarrow> i = j"
  using page_no_facts(1) [OF assms(1,2)] assms(3,4) by (auto simp: u32_eq_iff)

text \<open>The invariant is about the paging part of the state only.\<close>

lemma as_inv_truncate: "as_inv (paging.truncate s) = as_inv s"
  by (simp add: as_inv_def pmm_inv_def pmm_core_def free_frames_def used_frames_def pg_inv_def table_at_def pde_at_def
      table_frame_def no_stale_def get_current_cpl_def paging.defs)

lemma as_inv_same:
  assumes "paging.truncate s = paging.truncate s'"
  shows "as_inv s = as_inv s'"
  using as_inv_truncate [of s] as_inv_truncate [of s'] assms by simp

section \<open>Contents of pages\<close>

lemma page_div_iff: "4096 * q \<le> (x :: nat) \<Longrightarrow> x - 4096 * q < 4096 \<longleftrightarrow> x div 4096 = q"
proof
  assume "4096 * q \<le> x" "x - 4096 * q < 4096"
  then show "x div 4096 = q" by (intro div_nat_eqI) simp_all
next
  assume "4096 * q \<le> x" "x div 4096 = q"
  moreover have "x = 4096 * (x div 4096) + x mod 4096" "x mod 4096 < 4096" by simp_all
  ultimately show "x - 4096 * q < 4096" by linarith
qed

lemma in_page_iff:
  assumes "page_aligned p"
  shows "unat (x - p) < 4096 \<longleftrightarrow> unat x div 4096 = unat p div 4096"
proof -
  obtain q where q: "unat p = 4096 * q" "q < 1048576" using assms by (rule page_alignedE)
  show ?thesis
  proof (cases "p \<le> x")
    case True
    then have "unat (x - p) = unat x - unat p" "unat p \<le> unat x" by (simp_all add: unat_sub_u32 word_le_nat_alt)
    then show ?thesis using q page_div_iff [of q "unat x"] by simp
  next
    case False
    then have lt: "unat x < unat p" by (simp add: word_le_nat_alt not_le)
    have "unat (x - p) = unat x + 4294967296 - unat p"
      using lt unat_u32_less [of p] by (simp add: unat_sub_if_size word_size word_le_nat_alt)
    moreover have "unat x div 4096 < q" using lt q by (simp add: div_less_iff_less_mult mult.commute)
    ultimately show ?thesis using q by simp
  qed
qed

lemma tbl_byte_page:
  assumes "page_aligned q" "unat i < 1024" "k < 4"
  shows "unat (tbl q i + of_nat k) div 4096 = unat q div 4096"
proof -
  obtain a where a: "unat q = 4096 * a" "a < 1048576" using assms(1) by (rule page_alignedE)
  have t: "unat (tbl q i) = unat q + 4 * unat i" using assms(1,2) by (rule unat_tbl)
  have k: "unat (of_nat k :: u32) = k" using assms(3) by (intro unat_of_nat_u32) simp
  then have u: "unat (tbl q i + of_nat k) = 4096 * a + (4 * unat i + k)"
    using t a assms(2,3) by (subst unat_add_u32) simp_all
  have "4 * unat i + k < 4096" using assms(2,3) by linarith
  then show ?thesis unfolding u a(1) by simp
qed

text \<open>Words of a page depend on the bytes of the page only.\<close>

lemma ld32_page_cong:
  assumes "page_aligned q" "unat i < 1024" "\<And>x. unat x div 4096 = unat q div 4096 \<Longrightarrow> m x = m' x"
  shows "ld32 m (tbl q i) = ld32 m' (tbl q i)"
proof -
  have "m (tbl q i + of_nat k) = m' (tbl q i + of_nat k)" if "k < 4" for k
    using assms(3) tbl_byte_page [OF assms(1,2) that] by blast
  from this [of 0] this [of 1] this [of 2] this [of 3] show ?thesis by (simp add: ld32_def)
qed

lemma page_eq_iff:
  assumes "page_aligned p" "page_aligned q"
  shows "unat p div 4096 = unat q div 4096 \<longleftrightarrow> p = q"
  using assms by (auto elim!: page_alignedE simp: u32_eq_iff)

lemma ld32_zero_bytes:
  assumes "page_aligned p" "page_aligned q" "unat i < 1024"
  shows "ld32 (zero_bytes 4096 p m) (tbl q i) = (if p = q then 0 else ld32 m (tbl q i))"
proof (cases "p = q")
  case True
  have "zero_bytes 4096 p m (tbl q i + of_nat k) = 0" if "k < 4" for k
    using tbl_byte_page [OF assms(2,3) that] in_page_iff [OF assms(1)] True by (simp add: zero_bytes_apply)
  from this [of 0] this [of 1] this [of 2] this [of 3] True show ?thesis by (simp add: ld32_def)
next
  case False
  have "ld32 (zero_bytes 4096 p m) (tbl q i) = ld32 m (tbl q i)"
    using in_page_iff [OF assms(1)] page_eq_iff [OF assms(1,2)] False
    by (intro ld32_page_cong [OF assms(2,3)]) (simp add: zero_bytes_apply)
  with False show ?thesis by simp
qed

lemma ld32_zero_words:
  assumes "page_aligned p" "page_aligned q" "unat i < 1024" "n \<le> 1024"
  shows "ld32 (zero_words n p m) (tbl q i) = (if p = q \<and> unat i < n then 0 else ld32 m (tbl q i))"
  using assms(4)
proof (induction n)
  case (Suc n)
  have u: "unat (of_nat n :: u32) = n" using Suc.prems by (intro unat_of_nat_u32) simp
  have "p + 4 * of_nat n = tbl p (of_nat n)" by (simp add: tbl_def)
  moreover have "of_nat n = i \<longleftrightarrow> unat i = n" using u by (auto simp: u32_eq_iff)
  ultimately show ?case
    using Suc ld32_st32_tbl [OF assms(1,2) _ assms(3), of "of_nat n" "zero_words n p m" 0] u by auto
qed simp

end
