(* ===== verification/Kremap.thy ===== *)
theory Kremap
  imports Address_Space
begin

text \<open>
  The remap of the kernel into the upper half (\<^verbatim>\<open>kremap.c\<close>): the kernel's pages are checked or mapped,
  the kernel stack gets its frames and a guard page, the allocator switches to the physical window, and
  the identity mappings from 1 MiB on are removed. \<^verbatim>\<open>HALT_FOREVER\<close> is the result \<open>None\<close>. Reloading the
  descriptor tables and switching the text console happen in assembly and have no effect on this state;
  the addresses of the tables are parameters.
\<close>

section \<open>Definitions\<close>

definition g_stack_virt_addr :: u32 where
  "g_stack_virt_addr = STACK_VIRTUAL_BASE + push_bit 12 STACK_PAGE_SIZE"

text \<open>\<^verbatim>\<open>status == PAGING_OK && q.mapped\<close>, and the frame; the result starts zeroed.\<close>

definition query_mapped :: "u32 \<Rightarrow> 'a paging_scheme \<Rightarrow> u32 option option" where
  "query_mapped virt s = do {
     (r, q) \<leftarrow> paging_query_page virt s;
     Some (case q of None \<Rightarrow> None
       | Some q \<Rightarrow> if r = PAGING_OK \<and> q_mapped q then Some (q_phys_addr q) else None) }"

primrec verify_kernel_pages :: "nat \<Rightarrow> u32 \<Rightarrow> u32 \<Rightarrow> 'a paging_scheme \<Rightarrow> 'a paging_scheme option" where
  "verify_kernel_pages 0 i start s = Some s"
| "verify_kernel_pages (Suc n) i start s = do {
     let virt = KERNEL_VIRTUAL_BASE + push_bit 12 i;
     let expectedPhys = start + push_bit 12 i;
     q \<leftarrow> query_mapped virt s;
     case q of
       Some phys \<Rightarrow> if phys \<noteq> expectedPhys then None else verify_kernel_pages n (i + 1) start s
     | None \<Rightarrow> do {
         (r, s) \<leftarrow> paging_map_page virt expectedPhys (PG_PRESENT OR PG_RW) s;
         if r \<noteq> PAGING_OK then None else verify_kernel_pages n (i + 1) start s } }"

primrec map_stack_pages :: "nat \<Rightarrow> u32 \<Rightarrow> 'a paging_scheme \<Rightarrow> 'a paging_scheme option" where
  "map_stack_pages 0 i s = Some s"
| "map_stack_pages (Suc n) i s = do {
     let virt = STACK_VIRTUAL_BASE + push_bit 12 i;
     q \<leftarrow> query_mapped virt s;
     case q of
       Some _ \<Rightarrow> map_stack_pages n (i + 1) s
     | None \<Rightarrow> do {
         (res, s) \<leftarrow> pmm_reserve_pageframe True s;
         case res of
           Inl _ \<Rightarrow> None
         | Inr phys \<Rightarrow> do {
             (r, s) \<leftarrow> paging_map_page virt phys (PG_PRESENT OR PG_RW) s;
             if r \<noteq> PAGING_OK then None else map_stack_pages n (i + 1) s } } }"

text \<open>The pages from \<^verbatim>\<open>virt\<close> on; a page that is not mapped is passed over.\<close>

primrec unmap_low_pages :: "nat \<Rightarrow> u32 \<Rightarrow> 'a paging_scheme \<Rightarrow> 'a paging_scheme option" where
  "unmap_low_pages 0 virt s = Some s"
| "unmap_low_pages (Suc n) virt s = do {
     ((r, _), s) \<leftarrow> paging_unmap_page virt s;
     if r = PAGING_ERR_NOT_MAPPED then unmap_low_pages n (virt + 4096) s
     else if r \<noteq> PAGING_OK then None
     else unmap_low_pages n (virt + 4096) s }"

definition require :: "bool \<Rightarrow> unit option" where
  "require b = (if b then Some () else None)"

definition kernelPhysStart :: "'a machine_scheme \<Rightarrow> u32" where
  "kernelPhysStart s = kernel_start s AND 0xFFFFF000"

definition lowUnmapEnd :: "'a boot_scheme \<Rightarrow> u32" where
  "lowUnmapEnd s = (push_bit 10 (g_avail_memory_kib s) + 0xFFF) AND 0xFFFFF000"

definition kernel_highhalf_remap ::
  "u32 \<Rightarrow> u32 \<Rightarrow> u32 \<Rightarrow> 'a paging_scheme \<Rightarrow> 'a paging_scheme option" where
  "kernel_highhalf_remap gdtAddr idtAddr isrAddr s = do {
     ready \<leftarrow> is_paging_ready s;
     require ready;
     let start = kernelPhysStart s;
     let kernelPages = drop_bit 12 (((kernel_end s + 0xFFF) AND 0xFFFFF000) - start);
     s \<leftarrow> verify_kernel_pages (unat kernelPages) 0 start s;
     s \<leftarrow> map_stack_pages (unat STACK_PAGE_SIZE) 0 s;
     let guardVirt = STACK_VIRTUAL_BASE - 4096;
     gq \<leftarrow> query_mapped guardVirt s;
     s \<leftarrow> (case gq of
             None \<Rightarrow> Some s
           | Some _ \<Rightarrow> do { ((r, _), s) \<leftarrow> paging_unmap_page guardVirt s; require (r = PAGING_OK); Some s });
     topq \<leftarrow> query_mapped (g_stack_virt_addr - 4) s;
     require (topq \<noteq> None);
     require (\<not> (gdtAddr < KERNEL_VIRTUAL_BASE \<or> idtAddr < KERNEL_VIRTUAL_BASE \<or> isrAddr < KERNEL_VIRTUAL_BASE));
     s \<leftarrow> pmm_switch_to_phys_window_alias s;
     let lowEnd = lowUnmapEnd s;
     s \<leftarrow> unmap_low_pages ((unat lowEnd - 0x100000) div 4096) 0x100000 s;
     lowq \<leftarrow> query_mapped 0x100000 s;
     require (lowq = None);
     lowq \<leftarrow> query_mapped start s;
     require (lowq = None);
     lowq \<leftarrow> (if lowEnd > 0x100000 then query_mapped (lowEnd - 4096) s else Some None);
     require (lowq = None);
     Some (paging_flush_tlb s) }"

section \<open>Frames for the stack\<close>

text \<open>A reservation takes at most one more slot of the region table.\<close>

lemma bm_set_regions: "bm_set f s = Some s' \<Longrightarrow> mem_regions s' = mem_regions s"
  by (clarsimp simp: bm_set_def bind_eq_Some_iff)

lemma bm_set_frames_regions: "bm_set_frames n f s = Some s' \<Longrightarrow> mem_regions s' = mem_regions s"
proof (induction n arbitrary: f s)
  case (Suc n)
  then show ?case by (clarsimp simp: bind_eq_Some_iff) (metis bm_set_regions)
qed simp

lemma pmm_init_single_regions: "pmm_init_single r s = Some s' \<Longrightarrow> mem_regions s' = mem_regions s"
  by (auto simp: pmm_init_single_def bm_set_range_touched_def Let_def split: if_splits dest: bm_set_frames_regions)

lemma merge_loop_length: "length (fst (merge_loop rs m)) = length rs"
proof -
  have scan: "length (fst (merge_scan i rs m)) = length rs" for i rs m
    by (induction rs arbitrary: i m) (simp_all add: split_def Let_def)
  show ?thesis
  proof (induction rs m rule: merge_loop.induct)
    case (1 rs m)
    obtain rs' m' where s: "merge_scan 0 rs (m\<lparr>changed := False\<rparr>) = (rs', m')" by fastforce
    then have "length rs' = length rs" using scan [of 0 rs "m\<lparr>changed := False\<rparr>"] by simp
    then show ?case using 1 [OF s [symmetric]] s by (simp add: merge_loop.simps [of rs m])
  qed
qed

lemma reserve_range_length:
  assumes "pmm_reserve_range base len init s = Some (r, s')"
  shows "length (mem_regions s') \<le> length (mem_regions s) + 1"
proof -
  obtain rs m where m: "merge_loop (mem_regions s) \<lparr>merged_base = unat base, merged_end = unat base + unat len,
      primary_idx = None, changed = False\<rparr> = (rs, m)" by fastforce
  then have l: "length rs = length (mem_regions s)" by (metis merge_loop_length fst_conv)
  have f: "length (filter (\<lambda>r. mr_length r \<noteq> 0) (rs[p := x])) \<le> Suc (length (mem_regions s))" for p x
    using length_filter_le [of "\<lambda>r. mr_length r \<noteq> 0" "rs[p := x]"] l by simp
  show ?thesis
  proof (cases "primary_idx m")
    case None
    then show ?thesis
      using assms l by (clarsimp simp: pmm_reserve_range_def m Let_def bind_eq_Some_iff split: if_splits)
        (drule pmm_init_single_regions, simp)
  next
    case (Some p)
    then show ?thesis
      using assms f by (clarsimp simp: pmm_reserve_range_def m Let_def bind_eq_Some_iff split: if_splits)
  qed
qed

lemma reserve_pageframe_length:
  assumes "pmm_reserve_pageframe c s = Some (res, s')"
  shows "length (mem_regions s') \<le> length (mem_regions s) + 1"
proof -
  obtain found where f: "find_unreserved (unat (frame_count s)) (frame_hint s) s = Some found"
    using assms by (clarsimp simp: pmm_reserve_pageframe_def bind_eq_Some_iff)
  show ?thesis
  proof (cases found)
    case None
    with f assms show ?thesis by (simp add: pmm_reserve_pageframe_def)
  next
    case (Some g)
    obtain r s1 where r: "pmm_reserve_range (push_bit 12 g) 4096 True s = Some (r, s1)"
      using assms f Some by (clarsimp simp: pmm_reserve_pageframe_def bind_eq_Some_iff)
    have "mem_regions s' = mem_regions s1"
      using assms f Some r
      by (clarsimp simp: pmm_reserve_pageframe_def clear_frame_def bind_eq_Some_iff Let_def split: if_splits)
        (auto dest: bm_set_regions)
    with reserve_range_length [OF r] show ?thesis by simp
  qed
qed

text \<open>What the remap relies on: the address space is consistent and the region table is sound.\<close>

definition boot_ok :: "'a paging_scheme \<Rightarrow> bool" where
  "boot_ok s \<longleftrightarrow> as_inv s \<and> regions_ok (mem_regions s) \<and>
     (\<exists>x < 4294967296. x \<notin> reserved_addrs (mem_regions s) \<and> x div 4096 \<notin> free_frames s)"

text \<open>The fields that the remap reads again later.\<close>

definition boot_same :: "'a paging_scheme \<Rightarrow> 'a paging_scheme \<Rightarrow> bool" where
  "boot_same s s' \<longleftrightarrow> kernel_start s' = kernel_start s \<and> kernel_end s' = kernel_end s \<and>
     g_avail_memory_kib s' = g_avail_memory_kib s \<and> pagebitmap_phys s' = pagebitmap_phys s \<and>
     use_phys_window_alias s' = use_phys_window_alias s"

lemma boot_same_trans: "boot_same s s' \<Longrightarrow> boot_same s' s'' \<Longrightarrow> boot_same s s''"
  by (simp add: boot_same_def)

lemma keeps_boot_ok:
  assumes "boot_ok s" "as_inv s'" "keeps_data s s'" "free_frames s' \<subseteq> free_frames s"
  shows "boot_ok s'" "boot_same s s'" "length (mem_regions s') = length (mem_regions s)"
proof -
  note K = keeps_data_more [OF assms(3)]
  show "boot_same s s'" using K(6) by (elim paging_onlyE) (simp add: boot_same_def)
  show "boot_ok s'" using assms K(4) by (auto simp: boot_ok_def)
  show "length (mem_regions s') = length (mem_regions s)" using K(4) by simp
qed

lemma reserved_as_inv:
  assumes inv: "as_inv s" and f: "unat f \<in> free_frames s" and r: "frame_reserved f s s'"
  shows "as_inv s'" "translate s' = translate s" "boot_same s s'"
    "page_table_count s' = page_table_count s"
proof -
  note D = as_invD [OF inv] and F = free_table_frame [OF as_invD(2) [OF inv] f]
  obtain b a h rs where s': "s' = s\<lparr>bitmap_bytes := b, available_frames := a, frame_hint := h,
      mem_regions := rs, mem := zero_bytes 4096 (push_bit 12 f) (mem s)\<rparr>"
    and i: "pmm_inv s'" and fr: "free_frames s' = free_frames s - {unat f}"
    using r unfolding frame_reserved_def by metis
  have al: "page_aligned (page_directory_loc_phys s)" using pg_invD(4) [OF D(2)] by (simp add: table_frame_def)
  have ld: "ld32 (mem s') (tbl q j) = ld32 (mem s) (tbl q j)" if "page_aligned q" "q \<noteq> push_bit 12 f" "unat j < 1024" for q j
    using ld32_zero_bytes [OF F(2) that(1,3), of "mem s"] that(2) by (simp add: s')
  have pde: "pde_at s' j = pde_at s j" if "unat j < 1024" for j
    using ld [OF al _ that] F(5) by (simp add: pde_at_def s')
  have tab: "table_at s' j = table_at s j" for j by (simp add: table_at_def s')
  have tf: "table_frame s' p = table_frame s p" if "p \<noteq> push_bit 12 f" for p
  proof -
    have "unat p div 4096 = unat f \<longleftrightarrow> p = push_bit 12 f" if "page_aligned p"
      using page_eq_iff [OF that F(2)] F(1) by simp
    with that show ?thesis by (auto simp: table_frame_def fr)
  qed
  have tal: "page_aligned (table_at s j)" if "unat j < 1024" "table_at s j \<noteq> 0" for j
    using pg_invD(6) [OF D(2) that] by (simp add: table_frame_def)
  have ne: "page_directory_loc_phys s \<noteq> push_bit 12 f" using F(5) by auto
  have pg: "pg_inv s'"
    unfolding pg_inv_def
  proof (intro conjI allI impI)
    show "table_frame s' (page_directory_loc_phys s')" using pg_invD(4) [OF D(2)] tf [OF ne] by (simp add: s')
    fix i :: u32 assume i: "unat i < 1024"
    show "pde_at s' i AND PG_PRESENT = 0 \<longleftrightarrow> table_at s' i = 0" using pg_invD(5) [OF D(2) i] pde [OF i] tab by simp
    assume t: "table_at s' i \<noteq> 0"
    then show "table_frame s' (table_at s' i)" using pg_invD(6) [OF D(2) i] tf [OF F(6) [OF i]] tab by simp
    show "table_at s' i \<noteq> page_directory_loc_phys s'" "pde_at s' i AND 0xFFFFF000 = table_at s' i"
      using pg_invD(7,8) [OF D(2) i] t tab pde [OF i] by (simp_all add: s')
    fix j :: u32 assume "unat j < 1024" "table_at s' i = table_at s' j"
    then show "i = j" using pg_invD(9) [OF D(2) i] t tab by simp
  qed (use pg_invD(1,2,3,10) [OF D(2)] fr in \<open>auto simp: s' get_current_cpl_def\<close>)
  moreover have "no_stale s'"
    unfolding no_stale_def fr
  proof (intro allI impI)
    fix g j :: u32 assume g: "unat g \<in> free_frames s - {unat f}" and j: "unat j < 1024"
    then have g': "unat g \<in> free_frames s" by simp
    note G = free_table_frame [OF D(2) g']
    have "push_bit 12 g \<noteq> push_bit 12 f" using g G(1) F(1) by auto
    from ld [OF G(2) this j] D(3) g' j show "ld32 (mem s') (tbl (push_bit 12 g) j) AND PG_PRESENT = 0"
      by (simp add: no_stale_def)
  qed
  ultimately show "as_inv s'" using i D(4) by (simp add: as_inv_def s')
  show "translate s' = translate s"
  proof
    fix w
    have "ld32 (mem s') (tbl (table_at s (pde_index w)) (pte_index w)) = ld32 (mem s) (tbl (table_at s (pde_index w)) (pte_index w))"
      if "table_at s (pde_index w) \<noteq> 0"
      using ld [OF tal [OF pde_index_less(1) that] F(6) [OF pde_index_less(1)] pte_index_less] .
    then show "translate s' w = translate s w"
      using walk_eq [OF pg, of w] walk_eq [OF D(2), of w] tab by simp
  qed
  show "boot_same s s'" "page_table_count s' = page_table_count s" by (simp_all add: boot_same_def s')
qed

lemma reserve_frame_step:
  assumes "boot_ok s" "free_frames s \<noteq> {}" "length (mem_regions s) < MEM_REGIONS_MAX"
  obtains f s' where "pmm_reserve_pageframe True s = Some (Inr (push_bit 12 f), s')" "boot_ok s'" "boot_same s s'"
    "translate s' = translate s" "unat f \<in> free_frames s" "free_frames s' = free_frames s - {unat f}"
    "length (mem_regions s') \<le> length (mem_regions s) + 1" "page_table_count s' = page_table_count s"
    "page_aligned (push_bit 12 f)"
proof -
  have inv: "as_inv s" and ok: "regions_ok (mem_regions s)" using assms(1) by (simp_all add: boot_ok_def)
  note D = as_invD [OF inv]
  obtain x where x: "x < 4294967296" "x \<notin> reserved_addrs (mem_regions s)" "x div 4096 \<notin> free_frames s"
    using assms(1) by (auto simp: boot_ok_def)
  have reach: "reachable_frames s" using pg_invD(3) [OF D(2)] by (simp add: reachable_frames_def)
  obtain k where k: "k < unat (frame_count s)" "visit s k \<in> free_frames s"
    "\<And>j. j < k \<Longrightarrow> visit s j \<notin> free_frames s"
    using first_free [OF D(1) assms(2)] by metis
  define f :: u32 where "f = of_nat (visit s k)"
  have "visit s k < 1048576" using k(2) inv_frame_small [OF D(1)] by (simp add: free_frames_def)
  then have u: "unat f = visit s k" unfolding f_def by (intro unat_of_nat_u32) simp
  have ff: "unat f \<in> free_frames s" using k(2) u by simp
  obtain res s' where s': "pmm_reserve_pageframe True s = Some (res, s')" "res = Inr (push_bit 12 f)" "frame_reserved f s s'"
    using reserve_pageframe_step [OF D(1) ok reach x get_next_first(1) [OF D(1) k, folded f_def] ff] assms(3) by auto
  note R = reserved_as_inv [OF inv ff s'(3)]
  have fr: "free_frames s' = free_frames s - {unat f}"
    "reserved_addrs (mem_regions s') = reserved_addrs (mem_regions s) \<union> {unat f * 4096 ..< unat f * 4096 + 4096}"
    using s'(3) by (simp_all add: frame_reserved_def)
  have "unat f < 1048576" using ff inv_frame_small [OF D(1)] by (simp add: free_frames_def)
  then have "regions_ok (mem_regions s')" using ok unfolding regions_ok_addrs fr(2) by auto
  moreover have "x \<notin> reserved_addrs (mem_regions s')"
    using x(2,3) ff page_div_iff [of "unat f" x] unfolding fr(2) by (auto simp: mult.commute)
  ultimately have ok': "boot_ok s'" using R(1) x fr(1) by (auto simp: boot_ok_def)
  show thesis
    by (rule that [OF s'(1) [unfolded s'(2)] ok' R(3,2) ff fr(1) reserve_pageframe_length [OF s'(1)] R(4)
          free_table_frame(2) [OF D(2) ff]])
qed

section \<open>The loops\<close>

lemma query_mapped_eq:
  assumes "as_inv s"
  shows "query_mapped v s = Some (map_option fst (translate s v))"
  using query_spec [OF as_invD(2,4) [OF assms], of v] by (auto simp: query_mapped_def split: option.splits)

lemma verify_kernel_pages_id:
  assumes "as_inv s" "\<forall>j < n. \<exists>fl. translate s (KERNEL_VIRTUAL_BASE + push_bit 12 (i + of_nat j)) =
      Some (start + push_bit 12 (i + of_nat j), fl)"
  shows "verify_kernel_pages n i start s = Some s"
  using assms(2)
proof (induction n arbitrary: i)
  case (Suc n)
  from Suc.prems [rule_format, of 0] have h: "query_mapped (KERNEL_VIRTUAL_BASE + push_bit 12 i) s = Some (Some (start + push_bit 12 i))"
    by (auto simp: query_mapped_eq [OF assms(1)])
  have "verify_kernel_pages n (i + 1) start s = Some s"
  proof (rule Suc.IH, intro allI impI)
    fix j assume "j < n"
    with Suc.prems [rule_format, of "Suc j"]
    show "\<exists>fl. translate s (KERNEL_VIRTUAL_BASE + push_bit 12 (i + 1 + of_nat j)) = Some (start + push_bit 12 (i + 1 + of_nat j), fl)"
      by (simp add: add.assoc)
  qed
  with h show ?case by simp
qed simp

text \<open>Stack page \<open>i\<close>.\<close>

definition stack_page :: "nat \<Rightarrow> u32" where
  "stack_page i = page_no STACK_VIRTUAL_BASE i"

lemma stack_page_facts:
  assumes "i < 16"
  shows "unat (stack_page i) = 0xF7000000 + i * 4096" "page_aligned (stack_page i)"
    "STACK_VIRTUAL_BASE + push_bit 12 (of_nat i) = stack_page i" "flag_error (stack_page i) (PG_PRESENT OR PG_RW) = None"
proof -
  show u: "unat (stack_page i) = 0xF7000000 + i * 4096" "page_aligned (stack_page i)"
    using page_no_facts [of "0xF7000000" 16 i] assms by (simp_all add: stack_page_def STACK_VIRTUAL_BASE_def page_aligned_def)
  show "STACK_VIRTUAL_BASE + push_bit 12 (of_nat i) = stack_page i"
    by (simp add: stack_page_def page_no_def push_bit_eq_mult)
  show "flag_error (stack_page i) (PG_PRESENT OR PG_RW) = None"
    using u by (simp add: flag_error_def KERNEL_VIRTUAL_BASE_def PG_USER_def PG_PRESENT_def PG_RW_def word_le_nat_alt word_less_nat_alt)
qed

lemma map_stack_pages_step:
  assumes "boot_ok s" "i + n \<le> 16" "\<forall>j. i \<le> j \<longrightarrow> j < i + n \<longrightarrow> translate s (stack_page j) = None"
    "2 * n \<le> card (free_frames s)" "length (mem_regions s) + n \<le> MEM_REGIONS_MAX"
    "unat (page_table_count s) + n < 1024"
  shows "\<exists>s'. map_stack_pages n (of_nat i) s = Some s' \<and> boot_ok s' \<and> boot_same s s' \<and>
    (\<forall>w. page_aligned w \<longrightarrow> w \<notin> stack_page ` {i..<i + n} \<longrightarrow> translate s' w = translate s w) \<and>
    (\<forall>j. i \<le> j \<longrightarrow> j < i + n \<longrightarrow> translate s' (stack_page j) \<noteq> None)"
  using assms
proof (induction n arbitrary: i s)
  case 0
  then show ?case by (simp add: boot_same_def)
next
  case (Suc n)
  note P = stack_page_facts [of i]
  have inv: "as_inv s" using Suc.prems(1) by (simp add: boot_ok_def)
  have ne: "free_frames s \<noteq> {}" using Suc.prems(4) by auto
  obtain f s1 where s1: "pmm_reserve_pageframe True s = Some (Inr (push_bit 12 f), s1)" "boot_ok s1" "boot_same s s1"
    "translate s1 = translate s" "unat f \<in> free_frames s" "free_frames s1 = free_frames s - {unat f}"
    "length (mem_regions s1) \<le> length (mem_regions s) + 1" "page_table_count s1 = page_table_count s"
    "page_aligned (push_bit 12 f)"
    using reserve_frame_step [OF Suc.prems(1) ne] Suc.prems(5) by auto
  have inv1: "as_inv s1" using s1(2) by (simp add: boot_ok_def)
  have c1: "2 * n + 1 \<le> card (free_frames s1)"
    using Suc.prems(4) s1(5,6) card_Diff_singleton [of "unat f" "free_frames s"] by simp
  have tr: "translate s1 (stack_page i) = None" using Suc.prems(3) s1(4) by simp
  have i: "i < 16" using Suc.prems(2) by simp
  note P = stack_page_facts [OF i]
  obtain s2 where s2: "paging_map_page (stack_page i) (push_bit 12 f) (PG_PRESENT OR PG_RW) s1 = Some (PAGING_OK, s2)"
    "as_inv s2" "mapped (stack_page i) (Some (push_bit 12 f, ((PG_PRESENT OR PG_RW) AND 0xFFF) OR PG_PRESENT)) (translate s1) (translate s2)"
    "free_frames s2 \<subseteq> free_frames s1" "keeps_data s1 s2" "card (free_frames s1) \<le> card (free_frames s2) + 1"
    "unat (page_table_count s2) \<le> unat (page_table_count s1) + 1"
  proof (rule map_cases [OF inv1 P(2) s1(9) P(4)])
    fix r assume "r = PAGING_ERR_NOMEM \<and> (free_frames s1 = {} \<or> page_table_count s1 \<ge> PT_MAX) \<or>
       r = PAGING_ERR_ALREADY_MAPPED \<and> translate s1 (stack_page i) \<noteq> None \<or>
       r = PAGING_ERR_PT_USER_FLAG_MISMATCH \<and> (PG_PRESENT OR PG_RW) AND PG_USER \<noteq> 0 \<and>
         pde_at s1 (pde_index (stack_page i)) AND PG_USER = 0"
    then show thesis
      using c1 tr s1(8) Suc.prems(6) by (auto simp: PT_MAX_def PG_PRESENT_def PG_RW_def PG_USER_def word_le_nat_alt)
  qed (rule that)
  note B = keeps_boot_ok [OF s1(2) s2(2,5,4)]
  have none: "\<forall>j. Suc i \<le> j \<longrightarrow> j < Suc i + n \<longrightarrow> translate s2 (stack_page j) = None"
  proof (intro allI impI)
    fix j assume j: "Suc i \<le> j" "j < Suc i + n"
    then have "j < 16" using Suc.prems(2) by simp
    then have "page_aligned (stack_page j)" "stack_page j \<noteq> stack_page i"
      using stack_page_facts [of j] P(1) j(1) by (auto simp: u32_eq_iff)
    then show "translate s2 (stack_page j) = None" using mapped_other [OF s2(3)] s1(4) Suc.prems(3) j by simp
  qed
  have pre: "Suc i + n \<le> 16" "2 * n \<le> card (free_frames s2)" "length (mem_regions s2) + n \<le> MEM_REGIONS_MAX"
    "unat (page_table_count s2) + n < 1024"
    using Suc.prems(2,5,6) c1 s2(6,7) s1(7,8) B(3) by simp_all
  obtain s' where s': "map_stack_pages n (of_nat (Suc i)) s2 = Some s'" "boot_ok s'" "boot_same s2 s'"
    "\<forall>w. page_aligned w \<longrightarrow> w \<notin> stack_page ` {Suc i..<Suc i + n} \<longrightarrow> translate s' w = translate s2 w"
    "\<forall>j. Suc i \<le> j \<longrightarrow> j < Suc i + n \<longrightarrow> translate s' (stack_page j) \<noteq> None"
    using Suc.IH [OF B(1) pre(1) none pre(2-4)] by (elim exE conjE) (rule that)
  have "map_stack_pages (Suc n) (of_nat i) s = Some s'"
    using Suc.prems(3) s1(1) s2(1) s'(1) P(3) by (simp add: query_mapped_eq [OF inv] add.commute)
  moreover have "stack_page i \<notin> stack_page ` {Suc i..<Suc i + n}"
    using stack_page_facts(1) P(1) pre(1) by (auto simp: u32_eq_iff)
  then have "translate s' (stack_page i) \<noteq> None"
    using s'(4) P(2) mapped_same [OF s2(3) P(2)] by simp
  then have "\<forall>j. i \<le> j \<longrightarrow> j < i + Suc n \<longrightarrow> translate s' (stack_page j) \<noteq> None"
    using s'(5) by (metis Suc_leI add_Suc_right add_Suc le_neq_implies_less)
  moreover have "translate s' w = translate s w" if "page_aligned w" "w \<notin> stack_page ` {i..<i + Suc n}" for w
  proof -
    have "{i..<i + Suc n} = insert i {Suc i..<Suc i + n}" by auto
    then have "w \<noteq> stack_page i" "w \<notin> stack_page ` {Suc i..<Suc i + n}" using that(2) by simp_all
    then show ?thesis using that(1) s'(4) mapped_other [OF s2(3) that(1)] s1(4) by simp
  qed
  ultimately show ?case
    using s'(2) boot_same_trans [OF boot_same_trans [OF s1(3) B(2)] s'(3)] by blast
qed

lemma unmap_low_pages_step:
  assumes "as_inv s" "page_aligned base" "unat base + (i + n) * 4096 \<le> 0x100000000"
  shows "\<exists>s'. unmap_low_pages n (page_no base i) s = Some s' \<and> as_inv s' \<and>
    (\<forall>w. page_aligned w \<longrightarrow> translate s' w = (if w \<in> page_no base ` {i..<i + n} then None else translate s w)) \<and>
    keeps_data s s'"
  using assms
proof (induction n arbitrary: i s)
  case (Suc n)
  let ?v = "page_no base i"
  have al: "page_aligned ?v" using page_no_facts(2) [OF Suc.prems(2,3), of i] by simp
  have nx: "?v + 4096 = page_no base (Suc i)" by (simp add: page_no_def algebra_simps)
  have lim: "unat base + (Suc i + n) * 4096 \<le> 0x100000000" using Suc.prems(3) by simp
  have "\<exists>r s1. paging_unmap_page ?v s = Some (r, s1) \<and> (fst r = PAGING_OK \<or> fst r = PAGING_ERR_NOT_MAPPED) \<and>
      as_inv s1 \<and> mapped ?v None (translate s) (translate s1) \<and> keeps_data s s1"
  proof (cases "translate s ?v")
    case None
    then show ?thesis
      using unmap_spec [OF as_invD(2) [OF Suc.prems(1)] al] Suc.prems(1) by (simp add: mapped_def)
  next
    case (Some x)
    then have "translate s ?v = Some (fst x, snd x)" by simp
    then show ?thesis by (rule unmap_step [OF Suc.prems(1) al]) auto
  qed
  then obtain r s1 where s1: "paging_unmap_page ?v s = Some (r, s1)" "fst r = PAGING_OK \<or> fst r = PAGING_ERR_NOT_MAPPED"
    "as_inv s1" "mapped ?v None (translate s) (translate s1)" "keeps_data s s1" by blast
  obtain s' where s': "unmap_low_pages n (page_no base (Suc i)) s1 = Some s'" "as_inv s'"
    "\<forall>w. page_aligned w \<longrightarrow> translate s' w = (if w \<in> page_no base ` {Suc i..<Suc i + n} then None else translate s1 w)"
    "keeps_data s1 s'"
    using Suc.IH [OF s1(3) Suc.prems(2) lim] by (elim exE conjE) (rule that)
  have "{i..<i + Suc n} = insert i {Suc i..<Suc i + n}" by auto
  then have "\<forall>w. page_aligned w \<longrightarrow> translate s' w = (if w \<in> page_no base ` {i..<i + Suc n} then None else translate s w)"
    using s'(3) s1(4) by (auto simp: mapped_def)
  moreover have "unmap_low_pages (Suc n) ?v s = Some s'"
    using s1(1,2) s'(1) nx by (cases r) auto
  ultimately show ?case using s'(2) keeps_data_trans [OF s1(5) s'(4)] by blast
qed simp

lemma switch_as_inv:
  assumes "as_inv s" "in_window (pagebitmap_phys s)"
  obtains s' where "pmm_switch_to_phys_window_alias s = Some s'" "as_inv s'" "translate s' = translate s"
    "lowUnmapEnd s' = lowUnmapEnd s" "use_phys_window_alias s' \<longleftrightarrow> pagebitmap_phys s \<noteq> 0 \<or> use_phys_window_alias s"
proof (cases "pagebitmap_phys s = 0")
  case True
  then show thesis by (intro that [of s]) (use assms in \<open>simp_all add: pmm_switch_to_phys_window_alias_def\<close>)
next
  case False
  define s' where "s' = s\<lparr>pagebitmap := PHYS_WINDOW_BASE + pagebitmap_phys s, use_phys_window_alias := True\<rparr>"
  have "unat (PHYS_WINDOW_BASE + pagebitmap_phys s) = 0xD0000000 + unat (pagebitmap_phys s)"
    using assms(2) by (subst unat_add_u32) (simp_all add: PHYS_WINDOW_BASE_def in_window_def)
  then have nz: "PHYS_WINDOW_BASE + pagebitmap_phys s \<noteq> 0" by (auto simp: u32_eq_iff)
  have "as_inv s'"
    using assms(1) nz
    by (simp add: s'_def as_inv_def pmm_inv_def pmm_core_def free_frames_def used_frames_def pg_inv_def table_at_def
        pde_at_def table_frame_def no_stale_def get_current_cpl_def)
  with False show thesis
    by (intro that [of s'])
      (use assms(2) in \<open>simp_all add: pmm_switch_to_phys_window_alias_def phys_to_virt_in_window s'_def lowUnmapEnd_def\<close>)
qed

lemma page_range_iff:
  assumes "page_aligned base" "page_aligned e" "page_aligned w"
  shows "w \<in> page_no base ` {0..<(unat e - unat base) div 4096} \<longleftrightarrow> unat base \<le> unat w \<and> unat w < unat e"
proof -
  let ?n = "(unat e - unat base) div 4096"
  obtain a b c where a: "unat base = 4096 * a" "unat e = 4096 * b" "unat w = 4096 * c"
    using assms by (metis page_alignedE)
  have n: "?n = b - a" using a by (simp add: right_diff_distrib' [symmetric])
  have lim: "unat base + ?n * 4096 \<le> 0x100000000"
    using a n unat_u32_less [of e] unat_u32_less [of base] by (cases "a \<le> b") (simp_all add: diff_mult_distrib)
  have pn: "unat (page_no base i) = 4096 * (a + i)" if "i < ?n" for i
    using page_no_facts(1) [OF assms(1) lim that] a by simp
  show ?thesis
  proof
    assume "w \<in> page_no base ` {0..<?n}"
    then obtain i where "i < ?n" "w = page_no base i" by auto
    then have "c = a + i" "i < b - a" using pn a(3) n by auto
    then show "unat base \<le> unat w \<and> unat w < unat e" using a by auto
  next
    assume "unat base \<le> unat w \<and> unat w < unat e"
    then have c: "a \<le> c" "c < b" using a by auto
    then have "c - a < ?n" using n by simp
    with pn [of "c - a"] c a(3) have "w = page_no base (c - a)" by (simp add: u32_eq_iff)
    with \<open>c - a < ?n\<close> show "w \<in> page_no base ` {0..<?n}" by auto
  qed
qed

section \<open>Properties\<close>

text \<open>
  The situation of the remap at boot: the kernel's pages are mapped as \<^verbatim>\<open>paging_init_identity_window\<close>
  leaves them, no stack page is mapped yet, and there are frames, region slots and table slots left.
\<close>

definition remap_ready :: "'a paging_scheme \<Rightarrow> bool" where
  "remap_ready s \<longleftrightarrow> boot_ok s \<and>
     (\<forall>j < unat (drop_bit 12 (((kernel_end s + 0xFFF) AND 0xFFFFF000) - kernelPhysStart s)).
        \<exists>fl. translate s (KERNEL_VIRTUAL_BASE + push_bit 12 (of_nat j)) = Some (kernelPhysStart s + push_bit 12 (of_nat j), fl)) \<and>
     (\<forall>j < 16. translate s (stack_page j) = None) \<and>
     32 \<le> card (free_frames s) \<and> length (mem_regions s) + 16 \<le> MEM_REGIONS_MAX \<and>
     unat (page_table_count s) + 16 < 1024 \<and> in_window (pagebitmap_phys s) \<and>
     0x100000 \<le> unat (kernelPhysStart s) \<and> unat (kernelPhysStart s) < unat (lowUnmapEnd s) \<and>
     unat (lowUnmapEnd s) \<le> 0x30000000"

text \<open>The guard page, unmapped if it was mapped.\<close>

lemma unmap_guard_step:
  assumes "as_inv s" "page_aligned v"
  obtains s' where "(case map_option fst (translate s v) of None \<Rightarrow> Some s
      | Some _ \<Rightarrow> do { ((r, _), s) \<leftarrow> paging_unmap_page v s; require (r = PAGING_OK); Some s }) = Some s'"
    "as_inv s'" "mapped v None (translate s) (translate s')" "keeps_data s s'"
proof (cases "translate s v")
  case None
  with assms show thesis by (intro that [of s]) (simp_all add: mapped_def)
next
  case (Some x)
  then have t: "translate s v = Some (fst x, snd x)" by simp
  show thesis by (rule unmap_step [OF assms t], rule that) (simp_all add: Some require_def)
qed

text \<open>
  (C19) The remap into the upper half runs to its end and leaves the kernel's mappings as intended: no page
  of the identity map from 1 MiB to the end of memory is mapped any more, the sixteen stack pages are
  mapped, the guard page below them is not, the allocator uses the physical window, and all other
  pages, the kernel's own among them, keep their translations.
\<close>

theorem kernel_highhalf_remap_correct:
  assumes "remap_ready s"
    and "KERNEL_VIRTUAL_BASE \<le> gdtAddr" "KERNEL_VIRTUAL_BASE \<le> idtAddr" "KERNEL_VIRTUAL_BASE \<le> isrAddr"
  shows "\<exists>s'. kernel_highhalf_remap gdtAddr idtAddr isrAddr s = Some s' \<and> as_inv s' \<and>
    (\<forall>w. page_aligned w \<longrightarrow> 0x100000 \<le> unat w \<longrightarrow> unat w < unat (lowUnmapEnd s) \<longrightarrow> translate s' w = None) \<and>
    (\<forall>j < 16. translate s' (stack_page j) \<noteq> None) \<and> translate s' (STACK_VIRTUAL_BASE - 4096) = None \<and>
    (\<forall>w. page_aligned w \<longrightarrow> \<not> (0x100000 \<le> unat w \<and> unat w < unat (lowUnmapEnd s)) \<longrightarrow>
       w \<notin> stack_page ` {0..<16} \<longrightarrow> w \<noteq> STACK_VIRTUAL_BASE - 4096 \<longrightarrow> translate s' w = translate s w) \<and>
    (use_phys_window_alias s' \<longleftrightarrow> pagebitmap_phys s \<noteq> 0 \<or> use_phys_window_alias s)"
proof -
  let ?n = "unat (drop_bit 12 (((kernel_end s + 0xFFF) AND 0xFFFFF000) - kernelPhysStart s))"
  let ?g = "STACK_VIRTUAL_BASE - 4096" and ?low = "lowUnmapEnd s"
  have ok: "boot_ok s" and inv: "as_inv s" and win: "in_window (pagebitmap_phys s)"
    and low: "0x100000 \<le> unat (kernelPhysStart s)" "unat (kernelPhysStart s) < unat ?low" "unat ?low \<le> 0x30000000"
    using assms(1) by (simp_all add: remap_ready_def boot_ok_def)
  have "page_directory_loc_phys s \<noteq> 0" "in_window (page_directory_loc_phys s)"
    using pg_invD(4) [OF as_invD(2) [OF inv]] by (simp_all add: table_frame_def)
  then have rdy: "is_paging_ready s = Some True"
    using unat_add_u32 [of PHYS_WINDOW_BASE "page_directory_loc_phys s"]
    by (auto simp: is_paging_ready_def pd_ptr_def phys_to_virt_in_window in_window_def PHYS_WINDOW_BASE_def u32_eq_iff)
  have ver: "verify_kernel_pages ?n 0 (kernelPhysStart s) s = Some s"
    by (rule verify_kernel_pages_id [OF inv]) (use assms(1) in \<open>simp add: remap_ready_def\<close>)
  have stk: "\<forall>j. 0 \<le> j \<longrightarrow> j < 0 + 16 \<longrightarrow> translate s (stack_page j) = None" "0 + 16 \<le> (16 :: nat)"
    "2 * 16 \<le> card (free_frames s)" "length (mem_regions s) + 16 \<le> MEM_REGIONS_MAX" "unat (page_table_count s) + 16 < 1024"
    using assms(1) by (simp_all add: remap_ready_def)
  obtain s1 where s1: "map_stack_pages 16 (of_nat 0) s = Some s1" "boot_ok s1" "boot_same s s1"
    "\<forall>w. page_aligned w \<longrightarrow> w \<notin> stack_page ` {0..<0 + 16} \<longrightarrow> translate s1 w = translate s w"
    "\<forall>j. 0 \<le> j \<longrightarrow> j < 0 + 16 \<longrightarrow> translate s1 (stack_page j) \<noteq> None"
    using map_stack_pages_step [OF ok stk(2,1,3-5)] by (elim exE conjE) (rule that)
  have inv1: "as_inv s1" using s1(2) by (simp add: boot_ok_def)
  have gal: "page_aligned ?g" by (simp add: page_aligned_def STACK_VIRTUAL_BASE_def)
  obtain s2 where s2: "(case map_option fst (translate s1 ?g) of None \<Rightarrow> Some s1
      | Some _ \<Rightarrow> do { ((r, _), s) \<leftarrow> paging_unmap_page ?g s1; require (r = PAGING_OK); Some s }) = Some s2"
    "as_inv s2" "mapped ?g None (translate s1) (translate s2)" "keeps_data s1 s2"
    by (rule unmap_guard_step [OF inv1 gal])
  have gne: "stack_page j \<noteq> ?g" if "j < 16" for j
    using stack_page_facts(1) [OF that] by (auto simp: STACK_VIRTUAL_BASE_def)
  have st2: "translate s2 (stack_page j) \<noteq> None" if "j < 16" for j
    using s1(5) that mapped_other [OF s2(3) stack_page_facts(2) [OF that] gne [OF that]] by simp
  have "pde_index (g_stack_virt_addr - 4) = pde_index (stack_page 15)" "pte_index (g_stack_virt_addr - 4) = pte_index (stack_page 15)"
    by (simp_all add: pde_index_def pte_index_def g_stack_virt_addr_def STACK_VIRTUAL_BASE_def STACK_PAGE_SIZE_def
        stack_page_def page_no_def)
  then have "translate s2 (g_stack_virt_addr - 4) = translate s2 (stack_page 15)" by (simp only: walk_def)
  then have top: "translate s2 (g_stack_virt_addr - 4) \<noteq> None" using st2 [of 15] by simp
  have same: "boot_same s s2"
    using boot_same_trans [OF s1(3)] keeps_data_more(6) [OF s2(4)] by (elim paging_onlyE) (simp add: boot_same_def)
  then have win2: "in_window (pagebitmap_phys s2)" using win by (simp add: boot_same_def)
  obtain s3 where s3: "pmm_switch_to_phys_window_alias s2 = Some s3" "as_inv s3" "translate s3 = translate s2"
    "lowUnmapEnd s3 = lowUnmapEnd s2" "use_phys_window_alias s3 \<longleftrightarrow> pagebitmap_phys s2 \<noteq> 0 \<or> use_phys_window_alias s2"
    by (rule switch_as_inv [OF s2(2) win2])
  have low3: "lowUnmapEnd s2 = ?low" "lowUnmapEnd s3 = ?low" using same s3(4) by (simp_all add: lowUnmapEnd_def boot_same_def)
  let ?m = "(unat ?low - 0x100000) div 4096"
  have b: "page_aligned 0x100000" "page_aligned ?low" by (simp_all add: page_aligned_def lowUnmapEnd_def and.assoc)
  have lim: "unat (0x100000 :: u32) + (0 + ?m) * 4096 \<le> 0x100000000"
    using low(3) div_times_less_eq_dividend [of "unat ?low - 0x100000" 4096] by simp
  obtain s4 where s4: "unmap_low_pages ?m (page_no 0x100000 0) s3 = Some s4" "as_inv s4"
    "\<forall>w. page_aligned w \<longrightarrow> translate s4 w = (if w \<in> page_no 0x100000 ` {0..<0 + ?m} then None else translate s3 w)"
    "keeps_data s3 s4"
    using unmap_low_pages_step [OF s3(2) b(1) lim] by (elim exE conjE) (rule that)
  have tr4: "translate s4 w = (if 0x100000 \<le> unat w \<and> unat w < unat ?low then None else translate s2 w)"
    if "page_aligned w" for w
    using s4(3) that page_range_iff [OF b that] s3(3) by simp
  have high: "\<not> unat (stack_page j) < unat ?low" if "j < 16" for j using stack_page_facts(1) [OF that] low(3) by simp
  have q: "translate s4 0x100000 = None" "translate s4 (kernelPhysStart s) = None" "translate s4 (?low - 4096) = None"
  proof -
    show "translate s4 0x100000 = None" using tr4 [OF b(1)] low by simp
    have k: "page_aligned (kernelPhysStart s)" by (simp add: page_aligned_def kernelPhysStart_def and.assoc)
    then show "translate s4 (kernelPhysStart s) = None" using tr4 low by simp
    obtain x y where xy: "unat ?low = 4096 * x" "unat (kernelPhysStart s) = 4096 * y" using b(2) k by (metis page_alignedE)
    then have u: "unat (?low - 4096) = 4096 * (x - 1)" "257 \<le> x"
      using low by (simp_all add: unat_sub_u32 word_le_nat_alt right_diff_distrib')
    then have "page_aligned (?low - 4096)" by (simp add: page_aligned_unat)
    moreover have "0x100000 \<le> unat (?low - 4096)" "unat (?low - 4096) < unat ?low" using u xy(1) by simp_all
    ultimately show "translate s4 (?low - 4096) = None" using tr4 by simp
  qed
  have "kernel_highhalf_remap gdtAddr idtAddr isrAddr s = Some s4"
    using rdy ver s1(1) s2(1) top s3(1) low3 s4(1) q assms(2-4) low(1,2)
    by (simp add: kernel_highhalf_remap_def require_def query_mapped_eq inv1 s2(2) s4(2) STACK_PAGE_SIZE_def
        page_no_def paging_flush_tlb_def not_less Let_def)
  moreover have "use_phys_window_alias s4 = use_phys_window_alias s3"
    using keeps_data_more(6) [OF s4(4)] by (elim paging_onlyE) simp
  moreover have "translate s4 (stack_page j) \<noteq> None" if "j < 16" for j
    using tr4 [OF stack_page_facts(2) [OF that]] high [OF that] st2 [OF that] by simp
  moreover have "translate s4 ?g = None"
    using tr4 [OF gal] mapped_same [OF s2(3) gal] by simp
  moreover have "translate s4 w = translate s w"
    if "page_aligned w" "\<not> (0x100000 \<le> unat w \<and> unat w < unat ?low)" "w \<notin> stack_page ` {0..<16}" "w \<noteq> ?g" for w
    using tr4 [OF that(1)] that s1(4) mapped_other [OF s2(3) that(1,4)] by simp
  ultimately show ?thesis
    using s4(2) tr4 s3(5) same by (auto simp: boot_same_def)
qed

subsection \<open>A machine at the remap\<close>

text \<open>
  2 MiB of memory, the kernel in the page at 1 MiB, mapped at the kernel's virtual base; the directory at
  \<^verbatim>\<open>0x8000\<close>, one page table at \<^verbatim>\<open>0x9000\<close>, the frames from number 272 on free.
\<close>

definition ex_remap :: paging where
  "ex_remap =
     \<lparr>mem = st32 (st32 (\<lambda>_. 0) (tbl 0x8000 768) 0x9003) (tbl 0x9000 0) 0x100003, cr3 = 0x8000, cs_reg = 8,
      kernel_start = 0x100000, kernel_end = 0x101000,
      g_avail_memory_kib = 2048, g_memory_method = USE_E801, g_e820_descs = [],
      g_bootinfo_validated = True, g_kernel_phys_address = 0x100000, g_kernel_size_bytes = 0x1000,
      g_kparams_phys_address = 0, g_kparams_size_bytes = 0,
      pagebitmap = 0x102000, pagebitmap_phys = 0x102000, pagebitmap_size_bytes = 64, frame_count = 512,
      frame_hint = 272, available_frames = 240, use_phys_window_alias = False,
      bitmap_bytes = replicate 34 0xFF @ replicate 30 0,
      mem_regions = [\<lparr>mr_base = 0, mr_length = 0x100000, mr_type = MEM_RESERVED\<rparr>],
      page_directory_loc_phys = 0x8000, page_tables_loc_phys = (replicate 1024 0) [768 := 0x9000],
      page_table_count = 1, cr0 = 0x80000001\<rparr>"

lemma ex_remap_free: "free_frames ex_remap = {272..<512}"
proof -
  have b: "bit (0xFF :: int) (k mod 8)" for k
  proof -
    have "(0xFF :: int) = mask 8" by (simp add: mask_eq_exp_minus_1)
    then show ?thesis by (simp only: bit_mask_iff) simp
  qed
  have "used_frames ex_remap = {..<272}"
    by (auto simp: ex_remap_def used_frames_def bm_bits_def nth_append split: if_splits intro: b)
  then show ?thesis unfolding free_frames_def by (auto simp: ex_remap_def)
qed

lemma ex_remap_pmm: "pmm_inv ex_remap"
proof -
  have "reserved_frames (mem_regions ex_remap) = {..<256}"
    by (auto simp: ex_remap_def live_region_def touched_def)
  moreover have "length (bitmap_bytes ex_remap) = 64" "frame_count ex_remap = 512" "frame_hint ex_remap = 272"
    "available_frames ex_remap = 240" "pagebitmap ex_remap = 0x102000" "length (mem_regions ex_remap) = 1"
    unfolding ex_remap_def by simp_all
  moreover have "{..<256} \<inter> {272..<512} = ({} :: nat set)" "card {272..<512 :: nat} = 240" by auto
  ultimately show ?thesis unfolding pmm_inv_def pmm_core_def ex_remap_free
    by (simp only:) (simp add: MEM_REGIONS_MAX_def)
qed

lemma ex_remap_word:
  assumes "page_aligned q" "unat j < 1024"
  shows "ld32 (mem ex_remap) (tbl q j) =
    (if q = 0x8000 \<and> j = 768 then 0x9003 else if q = 0x9000 \<and> j = 0 then 0x100003 else 0)"
proof -
  have a: "page_aligned 0x8000" "page_aligned 0x9000" by (simp_all add: page_aligned_def)
  have z: "ld32 (\<lambda>_. 0) x = 0" for x by (simp add: ld32_def)
  show ?thesis
    using ld32_st32_tbl [OF a(1) assms(1) _ assms(2), of 768] ld32_st32_tbl [OF a(2) assms(1) _ assms(2), of 0] z
    by (auto simp: ex_remap_def)
qed

lemma ex_remap_tables:
  "unat i < 1024 \<Longrightarrow> table_at ex_remap i = (if i = 768 then 0x9000 else 0)"
  "unat i < 1024 \<Longrightarrow> pde_at ex_remap i = (if i = 768 then 0x9003 else 0)"
proof -
  show "table_at ex_remap i = (if i = 768 then 0x9000 else 0)" if "unat i < 1024"
    using that by (auto simp: table_at_def ex_remap_def nth_list_update u32_eq_iff)
  show "pde_at ex_remap i = (if i = 768 then 0x9003 else 0)" if "unat i < 1024"
    using ex_remap_word [of "0x8000", OF _ that] by (simp add: pde_at_def page_aligned_def ex_remap_def)
qed

lemma ex_remap_inv: "as_inv ex_remap"
proof -
  have tf: "table_frame ex_remap 0x8000" "table_frame ex_remap 0x9000"
    by (simp_all add: table_frame_def page_aligned_def in_window_def ex_remap_free)
  have "get_current_cpl ex_remap = CPL_KERNEL" "length (page_tables_loc_phys ex_remap) = 1024"
    "unat (frame_count ex_remap) \<le> 0x30000" "page_directory_loc_phys ex_remap = 0x8000"
    by (simp_all add: ex_remap_def get_current_cpl_def)
  then have "pg_inv ex_remap"
    unfolding pg_inv_def using tf ex_remap_tables ex_remap_free by (auto simp: PG_PRESENT_def)
  moreover have "no_stale ex_remap"
    unfolding no_stale_def ex_remap_free
  proof (intro allI impI)
    fix f j :: u32 assume f: "unat f \<in> {272..<512}" and j: "unat j < 1024"
    then have u: "unat (push_bit 12 f) = unat f * 4096" by (intro unat_push12) auto
    then have p: "page_aligned (push_bit 12 f)" "push_bit 12 f \<noteq> 0x8000" "push_bit 12 f \<noteq> 0x9000"
      using f by (auto simp: page_aligned_unat u32_eq_iff)
    show "ld32 (mem ex_remap) (tbl (push_bit 12 f) j) AND PG_PRESENT = 0"
      using ex_remap_word [OF p(1) j] p(2,3) by simp
  qed
  moreover have "cr3 ex_remap AND 0xFFFFF000 = page_directory_loc_phys ex_remap" by (simp add: ex_remap_def)
  ultimately show ?thesis using ex_remap_pmm by (simp add: as_inv_def)
qed

lemma ex_remap_translate:
  "translate ex_remap v = (if pde_index v = 768 \<and> pte_index v = 0 then entry_of 0x100003 else None)"
proof -
  have i: "unat (pde_index v) < 1024" "unat (pte_index v) < 1024" by simp_all
  have d: "ld32 (mem ex_remap) (tbl (page_directory_loc_phys ex_remap) (pde_index v)) = (if pde_index v = 768 then 0x9003 else 0)"
    using ex_remap_tables(2) [OF i(1)] by (simp add: pde_at_def)
  have "ld32 (mem ex_remap) (tbl 0x9000 (pte_index v)) = (if pte_index v = 0 then 0x100003 else 0)"
    using ex_remap_word [of "0x9000", OF _ i(2)] by (simp add: page_aligned_def)
  then show ?thesis unfolding walk_def d by (cases "pte_index v = 0") (simp_all add: PG_PRESENT_def Let_def entry_of_def)
qed

lemma ex_remap_ready: "remap_ready ex_remap"
proof -
  have "boot_ok ex_remap"
    unfolding boot_ok_def ex_remap_free using ex_remap_inv
    by (auto simp: regions_ok_def ex_remap_def reserved_addrs_def region_span_def intro!: exI [of _ "0x100000"])
  moreover have "translate ex_remap (stack_page j) = None" if "j < 16" for j
  proof -
    have "pde_index (stack_page j) \<noteq> 768"
      using stack_page_facts(1) [OF that] that
      by (simp add: pde_index_def u32_eq_iff unat_page)
    then show ?thesis by (simp add: ex_remap_translate)
  qed
  moreover have "pde_index KERNEL_VIRTUAL_BASE = 768" "pte_index KERNEL_VIRTUAL_BASE = 0"
    by (simp_all add: pde_index_def pte_index_def KERNEL_VIRTUAL_BASE_def)
  moreover have "kernelPhysStart ex_remap = 0x100000" "kernel_end ex_remap = 0x101000" "lowUnmapEnd ex_remap = 0x200000"
    "length (mem_regions ex_remap) = 1" "page_table_count ex_remap = 1" "pagebitmap_phys ex_remap = 0x102000"
    by (simp_all add: ex_remap_def kernelPhysStart_def lowUnmapEnd_def)
  ultimately show ?thesis unfolding remap_ready_def
    by (simp add: ex_remap_free ex_remap_translate entry_of_def PG_PRESENT_def MEM_REGIONS_MAX_def in_window_def)
qed

theorem kernel_highhalf_remap_correct_witness:
  "\<exists>s'. kernel_highhalf_remap 0xC0001000 0xC0002000 0xC0003000 ex_remap = Some s' \<and>
     translate s' 0x100000 = None \<and> translate s' KERNEL_VIRTUAL_BASE = translate ex_remap KERNEL_VIRTUAL_BASE \<and>
     translate ex_remap KERNEL_VIRTUAL_BASE \<noteq> None"
proof -
  have "KERNEL_VIRTUAL_BASE \<le> 0xC0001000" "KERNEL_VIRTUAL_BASE \<le> 0xC0002000" "KERNEL_VIRTUAL_BASE \<le> 0xC0003000"
    by (simp_all add: KERNEL_VIRTUAL_BASE_def)
  note r = kernel_highhalf_remap_correct [OF ex_remap_ready this]
  have "page_aligned 0x100000" "unat (lowUnmapEnd ex_remap) = 0x200000" "page_aligned KERNEL_VIRTUAL_BASE"
    "unat KERNEL_VIRTUAL_BASE = 0xC0000000" "KERNEL_VIRTUAL_BASE \<noteq> STACK_VIRTUAL_BASE - 4096"
    by (simp_all add: page_aligned_def lowUnmapEnd_def ex_remap_def KERNEL_VIRTUAL_BASE_def STACK_VIRTUAL_BASE_def)
  moreover have "KERNEL_VIRTUAL_BASE \<notin> stack_page ` {0..<16}"
    using stack_page_facts(1) by (auto simp: KERNEL_VIRTUAL_BASE_def dest!: arg_cong [where f = unat])
  moreover have "translate ex_remap KERNEL_VIRTUAL_BASE \<noteq> None"
    by (simp add: ex_remap_translate pde_index_def pte_index_def KERNEL_VIRTUAL_BASE_def entry_of_def PG_PRESENT_def)
  ultimately show ?thesis using r by auto
qed

end
