(* ===== verification/Kva.thy ===== *)
theory Kva
  imports Address_Space
begin

text \<open>
  The manager of kernel virtual addresses (\<^verbatim>\<open>kva.c\<close>): named regions between \<^verbatim>\<open>KVA_REGION_BASE\<close> and
  the physical window. A region is registered once, gets the next free addresses, and is backed by
  frames when it is mapped. A panic is the result \<open>None\<close>.
\<close>

section \<open>Names\<close>

definition KVA_REGION_MAX :: nat where "KVA_REGION_MAX = 16"
definition KVA_NAME_MAX :: nat where "KVA_NAME_MAX = 16"

text \<open>
  A name is an array of \<^verbatim>\<open>KVA_NAME_MAX\<close> characters. A C string is the HOL string of the characters
  before its terminator; \<open>cchar\<close> reads it with the terminator.
\<close>

definition cchar :: "string \<Rightarrow> nat \<Rightarrow> char" where
  "cchar s i = (if i < length s then s ! i else CHR 0x00)"

primrec copy_name :: "nat \<Rightarrow> nat \<Rightarrow> char list \<Rightarrow> string \<Rightarrow> char list" where
  "copy_name 0 i dest src = dest"
| "copy_name (Suc k) i dest src =
     (let dest = dest[i := cchar src i]
      in if cchar src i = CHR 0x00 then dest else copy_name k (Suc i) dest src)"

definition kva_strncpy :: "char list \<Rightarrow> string \<Rightarrow> nat \<Rightarrow> char list" where
  "kva_strncpy dest src n = copy_name (min n KVA_NAME_MAX) 0 dest src"

primrec compare_name :: "nat \<Rightarrow> nat \<Rightarrow> char list \<Rightarrow> string \<Rightarrow> int" where
  "compare_name 0 i s1 s2 = 0"
| "compare_name (Suc k) i s1 s2 =
     (if s1 ! i \<noteq> cchar s2 i then of_char (s1 ! i) - of_char (cchar s2 i)
      else if s1 ! i = CHR 0x00 then 0
      else compare_name k (Suc i) s1 s2)"

definition kva_strncmp :: "char list \<Rightarrow> string \<Rightarrow> nat \<Rightarrow> int" where
  "kva_strncmp s1 s2 n = compare_name n 0 s1 s2"


section \<open>Regions\<close>

record kva_region =
  kr_name :: "char list"
  kr_base :: u32
  kr_size :: u32
  kr_mapped :: bool

record kva = paging +
  kva_regions :: "kva_region list"
  kva_region_count :: nat
  kva_next_free :: u32
  kva_initialized :: bool

definition REGION_KERNEL_STACK :: string where "REGION_KERNEL_STACK = ''unistack''"
definition REGION_PHYSWIN :: string where "REGION_PHYSWIN = ''physwin''"

text \<open>The search for a name, which skips the records that are not in use.\<close>

definition region_matches :: "string \<Rightarrow> kva_region \<Rightarrow> bool" where
  "region_matches name r \<longleftrightarrow> kr_base r \<noteq> 0 \<and> kva_strncmp (kr_name r) name KVA_NAME_MAX = 0"

fun find_region :: "string \<Rightarrow> kva_region list \<Rightarrow> nat \<Rightarrow> nat option" where
  "find_region name [] i = None"
| "find_region name (r # rs) i =
     (if region_matches name r then Some i else find_region name rs (Suc i))"

definition kva_get_region_base :: "string \<Rightarrow> 'a kva_scheme \<Rightarrow> u32 option" where
  "kva_get_region_base name s =
     map_option (\<lambda>i. kr_base (kva_regions s ! i)) (find_region name (kva_regions s) 0)"

definition kva_get_region_size :: "string \<Rightarrow> 'a kva_scheme \<Rightarrow> u32 option" where
  "kva_get_region_size name s =
     map_option (\<lambda>i. kr_size (kva_regions s ! i)) (find_region name (kva_regions s) 0)"

definition kva_region_exists :: "string \<Rightarrow> 'a kva_scheme \<Rightarrow> bool" where
  "kva_region_exists name s \<longleftrightarrow> find_region name (kva_regions s) 0 \<noteq> None"

text \<open>The records of the physical window and of the kernel stack, made on the first registration.\<close>

definition set_region :: "nat \<Rightarrow> string \<Rightarrow> u32 \<Rightarrow> u32 \<Rightarrow> bool \<Rightarrow> 'a kva_scheme \<Rightarrow> 'a kva_scheme" where
  "set_region i name base sz m s =
     s\<lparr>kva_regions := (kva_regions s)[i :=
        \<lparr>kr_name = kva_strncpy (kr_name (kva_regions s ! i)) name KVA_NAME_MAX,
         kr_base = base, kr_size = sz, kr_mapped = m\<rparr>]\<rparr>"

definition kva_lazy_init :: "'a kva_scheme \<Rightarrow> 'a kva_scheme" where
  "kva_lazy_init s =
     (if kva_initialized s then s
      else let s = s\<lparr>kva_initialized := True\<rparr>;
               s = set_region (KVA_REGION_MAX - 2) REGION_PHYSWIN PHYS_WINDOW_BASE 0x10000000 True s
           in set_region (KVA_REGION_MAX - 1) REGION_KERNEL_STACK STACK_VIRTUAL_BASE (STACK_PAGE_SIZE * 4096) True s)"

text \<open>
  The check of the image size subtracts two pointers to 32-bit words, so the difference counts words.
  The result is the base of the region (\<^verbatim>\<open>*out_base\<close>).
\<close>

definition kva_register_region :: "string \<Rightarrow> u32 \<Rightarrow> 'a kva_scheme \<Rightarrow> (u32 \<times> 'a kva_scheme) option" where
  "kva_register_region name sz s =
     (if KERNEL_VIRTUAL_BASE + signed_drop_bit 2 (kernel_end s - kernel_start s) > KVA_REGION_BASE then None
      else let s = kva_lazy_init s
           in if kva_region_count s \<ge> KVA_REGION_MAX then None
              else if sz = 0 \<or> sz mod 4096 \<noteq> 0 then None
              else if kva_next_free s + sz > PHYS_WINDOW_BASE then None
              else if kva_region_exists name s then None
              else let base = (kva_next_free s + 0xFFF) AND 0xFFFFF000;
                       s = set_region (kva_region_count s) name base sz False s;
                       next_free = base + sz
                   in if next_free < base \<or> sz + base \<ge> PHYS_WINDOW_BASE then None
                      else Some (base, s\<lparr>kva_next_free := next_free, kva_region_count := kva_region_count s + 1\<rparr>))"

text \<open>
  Mapping: one frame and one page at a time. When a page cannot be mapped the pages before it are
  unmapped and their frames released; when no frame is left the loop just stops. The number of pages
  done decides the result.
\<close>

fun rewind_pages :: "(u32 \<times> u32) list \<Rightarrow> 'a paging_scheme \<Rightarrow> 'a paging_scheme option" where
  "rewind_pages [] s = Some s"
| "rewind_pages ((virt, phys) # ps) s = do {
     (_, s) \<leftarrow> paging_unmap_page virt s;
     (_, s) \<leftarrow> pmm_dealloc_specific_block phys s;
     rewind_pages ps s }"

primrec map_pages ::
  "nat \<Rightarrow> nat \<Rightarrow> u32 \<Rightarrow> (u32 \<times> u32) list \<Rightarrow> 'a paging_scheme \<Rightarrow> (nat \<times> 'a paging_scheme) option" where
  "map_pages 0 i base done s = Some (i, s)"
| "map_pages (Suc n) i base done s = do {
     let virt = base + of_nat i * 4096;
     ((phys, r), s) \<leftarrow> pmm_get_next_available_block s;
     if r \<noteq> PMM_ALLOC_SUCCESS then Some (i, s)
     else do {
       (r, s) \<leftarrow> paging_map_page virt phys (PG_PRESENT OR PG_RW) s;
       if r \<noteq> PAGING_OK then do { s \<leftarrow> rewind_pages done s; Some (i, s) }
       else map_pages n (Suc i) base (done @ [(virt, phys)]) s } }"

definition kva_map_region :: "string \<Rightarrow> 'a kva_scheme \<Rightarrow> (bool \<times> 'a kva_scheme) option" where
  "kva_map_region name s = do {
     i \<leftarrow> find_region name (kva_regions s) 0;
     let region = kva_regions s ! i;
     if kr_mapped region then None
     else do {
       let page_count = unat (kr_size region div 4096);
       (initialized, s) \<leftarrow> map_pages page_count 0 (kr_base region) [] s;
       if initialized \<noteq> page_count then Some (False, s)
       else Some (True, s\<lparr>kva_regions := (kva_regions s)[i := region\<lparr>kr_mapped := True\<rparr>]\<rparr>) } }"

section \<open>Names\<close>

definition nul_free :: "string \<Rightarrow> bool" where
  "nul_free s \<longleftrightarrow> CHR 0x00 \<notin> set s"

lemma cchar_nul: "nul_free s \<Longrightarrow> cchar s i = CHR 0x00 \<longleftrightarrow> length s \<le> i"
  by (auto simp: cchar_def nul_free_def) (metis nth_mem)

lemma copy_name_nth:
  assumes "nul_free src" "i \<le> length src" "i + k \<le> length dest"
  shows "length (copy_name k i dest src) = length dest"
    "copy_name k i dest src ! j = (if i \<le> j \<and> j < i + k \<and> j \<le> length src then cchar src j else dest ! j)"
  using assms
  by (induction k arbitrary: i dest j)
    (auto simp: Let_def cchar_nul nth_list_update not_le less_Suc_eq_le split: if_splits)

lemma compare_name_zero:
  "compare_name k i s1 s2 = 0 \<longleftrightarrow>
     (\<forall>j. i \<le> j \<and> j < i + k \<and> (\<forall>l. i \<le> l \<and> l < j \<longrightarrow> cchar s2 l \<noteq> CHR 0x00) \<longrightarrow> s1 ! j = cchar s2 j)"
proof (induction k arbitrary: i)
  case (Suc k)
  let ?R = "\<lambda>i k. \<forall>j. i \<le> j \<and> j < i + k \<and> (\<forall>l. i \<le> l \<and> l < j \<longrightarrow> cchar s2 l \<noteq> CHR 0x00) \<longrightarrow> s1 ! j = cchar s2 j"
  have step: "?R i (Suc k) \<longleftrightarrow> s1 ! i = cchar s2 i \<and> (cchar s2 i \<noteq> CHR 0x00 \<longrightarrow> ?R (Suc i) k)"
  proof (intro iffI conjI impI)
    assume R: "?R i (Suc k)"
    show "s1 ! i = cchar s2 i" using spec [OF R, of i] by auto
    assume nz: "cchar s2 i \<noteq> CHR 0x00"
    show "?R (Suc i) k"
    proof (intro allI impI)
      fix j assume j: "Suc i \<le> j \<and> j < Suc i + k \<and> (\<forall>l. Suc i \<le> l \<and> l < j \<longrightarrow> cchar s2 l \<noteq> CHR 0x00)"
      have "cchar s2 l \<noteq> CHR 0x00" if "i \<le> l" "l < j" for l using that j nz by (cases "l = i") auto
      with R j show "s1 ! j = cchar s2 j" by simp
    qed
  next
    assume L: "s1 ! i = cchar s2 i \<and> (cchar s2 i \<noteq> CHR 0x00 \<longrightarrow> ?R (Suc i) k)"
    show "?R i (Suc k)"
    proof (intro allI impI)
      fix j assume j: "i \<le> j \<and> j < i + Suc k \<and> (\<forall>l. i \<le> l \<and> l < j \<longrightarrow> cchar s2 l \<noteq> CHR 0x00)"
      show "s1 ! j = cchar s2 j"
      proof (cases "j = i")
        case False
        then have "Suc i \<le> j" "cchar s2 i \<noteq> CHR 0x00" using j by auto
        with L j show ?thesis by simp
      qed (use L in simp)
    qed
  qed
  have "of_char (s1 ! i) - of_char (cchar s2 i) \<noteq> (0 :: int)" if "s1 ! i \<noteq> cchar s2 i" using that by simp
  then show ?case
    unfolding step by (cases "s1 ! i = cchar s2 i"; cases "cchar s2 i = CHR 0x00") (simp_all add: Suc.IH)
qed auto

lemma name_matches:
  assumes "nul_free n" "nul_free m" "length d = KVA_NAME_MAX"
  shows "kva_strncmp (kva_strncpy d n KVA_NAME_MAX) m KVA_NAME_MAX = 0 \<longleftrightarrow> take 16 n = take 16 m"
proof -
  have before: "(\<forall>l < j. cchar m l \<noteq> CHR 0x00) \<longleftrightarrow> j \<le> length m" for j
    unfolding cchar_nul [OF assms(2)] by (cases "j \<le> length m") (auto simp: not_le intro: exI [of _ "length m"])
  have "kva_strncmp (kva_strncpy d n KVA_NAME_MAX) m KVA_NAME_MAX = 0 \<longleftrightarrow>
      (\<forall>j < 16. j \<le> length m \<longrightarrow> (if j \<le> length n then cchar n j else d ! j) = cchar m j)"
  proof -
    have c: "copy_name 16 0 d n ! j = (if j \<le> length n then cchar n j else d ! j)" if "j < 16" for j
      using copy_name_nth(2) [OF assms(1), of 0 16 d j] assms(3) that by (simp add: KVA_NAME_MAX_def)
    show ?thesis
      unfolding kva_strncmp_def kva_strncpy_def compare_name_zero using before c by (simp add: KVA_NAME_MAX_def) blast
  qed
  also have "\<dots> \<longleftrightarrow> take 16 n = take 16 m"
  proof
    assume L: "\<forall>j < 16. j \<le> length m \<longrightarrow> (if j \<le> length n then cchar n j else d ! j) = cchar m j"
    have len: "min 16 (length n) = min 16 (length m)"
    proof (rule ccontr)
      assume ne: "min 16 (length n) \<noteq> min 16 (length m)"
      let ?j = "min (length n) (length m)"
      have j: "?j < 16" "?j \<le> length n" "?j \<le> length m" using ne by auto
      then have "cchar n ?j = cchar m ?j" using L by auto
      then have "length n \<le> ?j \<longleftrightarrow> length m \<le> ?j"
        using cchar_nul [OF assms(1)] cchar_nul [OF assms(2)] by metis
      then show False using ne by auto
    qed
    show "take 16 n = take 16 m"
    proof (rule nth_equalityI)
      fix j assume "j < length (take 16 n)"
      then have "j < 16" "j < length n" "j < length m" using len by auto
      then show "take 16 n ! j = take 16 m ! j" using spec [OF L, of j] by (simp add: cchar_def)
    qed (use len in simp)
  next
    assume R: "take 16 n = take 16 m"
    then have len: "min 16 (length n) = min 16 (length m)" by (metis length_take min.commute)
    show "\<forall>j < 16. j \<le> length m \<longrightarrow> (if j \<le> length n then cchar n j else d ! j) = cchar m j"
    proof (intro allI impI)
      fix j assume j: "j < 16" "j \<le> length m"
      then have "j \<le> length n" "j < length n \<longleftrightarrow> j < length m" using len by auto
      moreover have "n ! j = m ! j" if "j < length m"
        using R j that by (metis nth_take)
      ultimately show "(if j \<le> length n then cchar n j else d ! j) = cchar m j" by (auto simp: cchar_def)
    qed
  qed
  finally show ?thesis .
qed

section \<open>Mapping a region\<close>

text \<open>A page that a region has got: mapped for the kernel, to a frame that holds no entries.\<close>

definition backed :: "'a paging_scheme \<Rightarrow> u32 \<times> u32 \<Rightarrow> bool" where
  "backed s x \<longleftrightarrow> page_aligned (fst x) \<and> translate s (fst x) = Some (snd x, PG_PRESENT OR PG_RW) \<and>
     (\<exists>f. snd x = push_bit 12 f \<and> data_frame s f \<and> clean_frame s f)"

lemma backed_mono:
  assumes "backed s x" "keeps_data s s'" "translate s' (fst x) = translate s (fst x)"
  shows "backed s' x"
  using assms keeps_dataD [OF assms(2)] by (auto simp: backed_def)

lemma rewind_pages_step:
  assumes "as_inv s" "\<forall>x \<in> set ps. backed s x" "distinct (map fst ps)" "distinct (map snd ps)"
  shows "\<exists>s'. rewind_pages ps s = Some s' \<and> as_inv s' \<and> paging.more s' = paging.more s \<and>
    (\<forall>w. page_aligned w \<longrightarrow> translate s' w = (if w \<in> fst ` set ps then None else translate s w))"
  using assms
proof (induction ps arbitrary: s)
  case (Cons x ps)
  obtain v p where x: "x = (v, p)" by (cases x)
  with Cons.prems(2) obtain f where f: "page_aligned v" "translate s v = Some (p, PG_PRESENT OR PG_RW)"
    "p = push_bit 12 f" "data_frame s f" "clean_frame s f" by (auto simp: backed_def)
  obtain s1 where s1: "paging_unmap_page v s = Some ((PAGING_OK, p), s1)" "as_inv s1"
    "mapped v None (translate s) (translate s1)" "free_frames s1 = free_frames s" "keeps_data s s1"
    by (rule unmap_step [OF Cons.prems(1) f(1,2)])
  obtain s2 where s2: "pmm_dealloc_specific_block (push_bit 12 f) s1 = Some (PMM_ALLOC_SUCCESS, s2)" "as_inv s2"
    "translate s2 = translate s1" "free_frames s2 = insert (unat f) (free_frames s1)" "pmm_only s1 s2"
    by (rule release_frame [OF s1(2) keeps_dataD(1,2) [OF s1(5) f(4)]]) (use f(5) in auto)
  have b: "backed s2 y" if y: "y \<in> set ps" for y
  proof -
    have ne: "fst y \<noteq> v" "snd y \<noteq> p" using y Cons.prems(3,4) x by (auto simp: image_iff)
    have "backed s y" using Cons.prems(2) y by simp
    then obtain g where g: "page_aligned (fst y)" "translate s (fst y) = Some (snd y, PG_PRESENT OR PG_RW)"
      "snd y = push_bit 12 g" "data_frame s g" "clean_frame s g" by (auto simp: backed_def)
    have "g \<noteq> f" using ne(2) g(3) f(3) by auto
    then show ?thesis
      using g released_data_frame [OF s2(5,4) keeps_dataD(1) [OF s1(5) g(4)]] keeps_dataD(2) [OF s1(5) g(4,5)]
        mapped_other [OF s1(3) g(1) ne(1)] by (auto simp: backed_def s2(3))
  qed
  have more: "paging.more s2 = paging.more s" using keeps_data_more [OF s1(5)] pmm_only_more [OF s2(5)] by simp
  obtain s' where s': "rewind_pages ps s2 = Some s'" "as_inv s'" "paging.more s' = paging.more s2"
    "\<forall>w. page_aligned w \<longrightarrow> translate s' w = (if w \<in> fst ` set ps then None else translate s2 w)"
    using Cons.IH [OF s2(2)] b Cons.prems(3,4) by auto
  show ?case
    using s1(1) s2(1) s' more s1(3) s2(3) x f(3) by (auto simp: mapped_def)
qed simp

definition pages_below :: "u32 \<Rightarrow> nat \<Rightarrow> u32 list" where
  "pages_below base n = map (page_no base) [0..<n]"

lemma pages_below_Suc: "pages_below base (Suc n) = pages_below base n @ [page_no base n]"
  by (simp add: pages_below_def)

lemma set_pages_below: "set (pages_below base n) = page_no base ` {..<n}"
  by (simp add: pages_below_def lessThan_atLeast0)

lemma backed_extend:
  assumes "as_inv s" "\<forall>x \<in> set done. backed s x" "distinct (map snd done)" "v \<notin> fst ` set done"
    and take: "as_inv s1" "translate s1 = translate s" "unat f \<in> free_frames s"
      "data_frame s1 f" "clean_frame s1 f" "keeps_data s s1"
    and page: "page_aligned v"
      "mapped v (Some (push_bit 12 f, ((PG_PRESENT OR PG_RW) AND 0xFFF) OR PG_PRESENT)) (translate s1) (translate s2)"
      "keeps_data s1 s2"
  shows "\<forall>x \<in> set (done @ [(v, push_bit 12 f)]). backed s2 x" "distinct (map snd (done @ [(v, push_bit 12 f)]))"
proof -
  note F = data_frame_aligned [OF as_invD(2) [OF take(1)] take(4)]
  have fl: "((PG_PRESENT OR PG_RW) AND 0xFFF) OR PG_PRESENT = PG_PRESENT OR PG_RW"
    by (simp add: PG_PRESENT_def PG_RW_def)
  have "backed s2 (v, push_bit 12 f)"
    using mapped_same [OF page(2,1)] page(1) keeps_dataD [OF page(3) take(4)] take(5) fl by (auto simp: backed_def)
  moreover have "backed s2 x" if "x \<in> set done" for x
  proof -
    have b: "backed s x" "fst x \<noteq> v" using assms(2,4) that by auto
    then have "backed s1 x" using backed_mono [OF _ take(6)] take(2) by simp
    moreover have "page_aligned (fst x)" using b(1) by (simp add: backed_def)
    ultimately show ?thesis using backed_mono [OF _ page(3)] mapped_other [OF page(2) _ b(2)] by simp
  qed
  ultimately show "\<forall>x \<in> set (done @ [(v, push_bit 12 f)]). backed s2 x" by auto
  have "push_bit 12 f \<notin> snd ` set done"
  proof
    assume "push_bit 12 f \<in> snd ` set done"
    then obtain x where "x \<in> set done" "push_bit 12 f = snd x" by auto
    with assms(2) obtain g where g: "push_bit 12 f = push_bit 12 g" "data_frame s g" by (auto simp: backed_def)
    then have "unat g = unat f"
      using F(3) data_frame_aligned(3) [OF as_invD(2) [OF assms(1)] g(2)] by simp
    with g(2) take(3) show False by (auto simp: data_frame_def owned_frames_def free_frames_def)
  qed
  then show "distinct (map snd (done @ [(v, push_bit 12 f)]))" using assms(3) by simp
qed

lemma distinct_pages_below:
  assumes "page_aligned base" "unat base + n * 4096 \<le> 0x100000000" "i \<le> n"
  shows "distinct (pages_below base i)"
  using page_no_inj [OF assms(1,2)] assms(3) by (auto simp: pages_below_def distinct_map inj_on_def)

text \<open>
  The loop: it returns, touches no page outside the range and no page already done, and when it
  reports all pages, each is backed by a frame of its own that was free before.
\<close>

lemma map_pages_step:
  assumes "as_inv s" "page_aligned base" "0xC0000000 \<le> unat base" "unat base + (i + n) * 4096 \<le> 0x100000000"
    and "map fst done = pages_below base i" "\<forall>x \<in> set done. backed s x" "distinct (map snd done)"
    and "\<forall>j. i \<le> j \<longrightarrow> j < i + n \<longrightarrow> translate s (page_no base j) = None"
  shows "\<exists>k s'. map_pages n i base done s = Some (k, s') \<and> as_inv s' \<and> paging.more s' = paging.more s \<and>
    (\<forall>w. page_aligned w \<longrightarrow> w \<notin> set (pages_below base (i + n)) \<longrightarrow> translate s' w = translate s w) \<and>
    k \<le> i + n \<and>
    (k = i + n \<longrightarrow> (\<exists>ps. map fst (done @ ps) = pages_below base (i + n) \<and> distinct (map snd (done @ ps)) \<and>
       (\<forall>x \<in> set (done @ ps). backed s' x) \<and> (\<forall>x \<in> set ps. unat (snd x) div 4096 \<in> free_frames s)))"
  using assms
proof (induction n arbitrary: i "done" s)
  case 0
  then show ?case by (intro exI [of _ i] exI [of _ s]) (auto intro: exI [of _ "[]"])
next
  case (Suc n)
  let ?v = "page_no base i"
  note P = page_no_facts [OF Suc.prems(2,4), of i, simplified]
  have fe: "flag_error ?v (PG_PRESENT OR PG_RW) = None"
    using Suc.prems(3) P(1)
    by (simp add: flag_error_def KERNEL_VIRTUAL_BASE_def PG_USER_def PG_PRESENT_def PG_RW_def word_le_nat_alt word_less_nat_alt)
  show ?case
  proof (cases rule: take_block_cases [OF Suc.prems(1), case_names oom taken])
    case oom
    then show ?thesis using Suc.prems by (auto simp: page_no_def)
  next
    case (taken f s1)
    have b1: "backed s1 x" if "x \<in> set done" for x
      using backed_mono [OF _ taken(8)] Suc.prems(6) that taken(3) by auto
    note F = data_frame_aligned [OF as_invD(2) [OF taken(2)] taken(6)]
    show ?thesis
    proof (rule map_cases [OF taken(2) P(2) F(2) fe])
      fix r assume r: "paging_map_page ?v (push_bit 12 f) (PG_PRESENT OR PG_RW) s1 = Some (r, s1)"
        "r = PAGING_ERR_NOMEM \<and> (free_frames s1 = {} \<or> page_table_count s1 \<ge> PT_MAX) \<or>
         r = PAGING_ERR_ALREADY_MAPPED \<and> translate s1 ?v \<noteq> None \<or>
         r = PAGING_ERR_PT_USER_FLAG_MISMATCH \<and> (PG_PRESENT OR PG_RW) AND PG_USER \<noteq> 0 \<and>
           pde_at s1 (pde_index ?v) AND PG_USER = 0"
      have d: "distinct (map fst done)"
        unfolding Suc.prems(5) using distinct_pages_below [OF Suc.prems(2,4), of i] by simp
      obtain s2 where s2: "rewind_pages done s1 = Some s2" "as_inv s2" "paging.more s2 = paging.more s1"
        "\<forall>w. page_aligned w \<longrightarrow> translate s2 w = (if w \<in> fst ` set done then None else translate s1 w)"
        using rewind_pages_step [OF taken(2) _ d Suc.prems(7)] b1 by blast
      have "fst ` set done = set (pages_below base i)" using Suc.prems(5) by (metis set_map)
      moreover have "set (pages_below base i) \<subseteq> set (pages_below base (i + Suc n))"
        by (auto simp: pages_below_def)
      ultimately have "\<forall>w. page_aligned w \<longrightarrow> w \<notin> set (pages_below base (i + Suc n)) \<longrightarrow> translate s2 w = translate s w"
        using s2(4) taken(3) by auto
      moreover have "map_pages (Suc n) i base done s = Some (i, s2)"
        using taken(1) r s2(1) by (auto simp: page_no_def)
      moreover have "paging.more s2 = paging.more s" using s2(3) keeps_data_more(1) [OF taken(8)] by simp
      ultimately show ?thesis using s2(2) by simp
    next
      fix s2 assume s2: "paging_map_page ?v (push_bit 12 f) (PG_PRESENT OR PG_RW) s1 = Some (PAGING_OK, s2)" "as_inv s2"
        "translate s1 ?v = None" "mapped ?v (Some (push_bit 12 f, ((PG_PRESENT OR PG_RW) AND 0xFFF) OR PG_PRESENT)) (translate s1) (translate s2)"
        "free_frames s2 \<subseteq> free_frames s1" "keeps_data s1 s2"
      let ?done = "done @ [(?v, push_bit 12 f)]"
      have "?v \<notin> fst ` set done"
        using distinct_pages_below [OF Suc.prems(2,4), of "Suc i"] Suc.prems(5)
        by (auto simp: pages_below_Suc simp flip: set_map)
      note E = backed_extend [OF Suc.prems(1,6,7) this taken(2,3,4,6,7,8) P(2) s2(4,6)]
      have none: "\<forall>j. Suc i \<le> j \<longrightarrow> j < Suc i + n \<longrightarrow> translate s2 (page_no base j) = None"
      proof (intro allI impI)
        fix j assume j: "Suc i \<le> j" "j < Suc i + n"
        then have "page_aligned (page_no base j)" "page_no base j \<noteq> ?v"
          using page_no_facts(2) [OF Suc.prems(2,4), of j] page_no_inj [OF Suc.prems(2,4), of j i] by auto
        then show "translate s2 (page_no base j) = None"
          using mapped_other [OF s2(4)] taken(3) Suc.prems(8) j by auto
      qed
      have m: "map fst ?done = pages_below base (Suc i)" using Suc.prems(5) by (simp add: pages_below_Suc)
      have lim: "unat base + (Suc i + n) * 4096 \<le> 0x100000000" using Suc.prems(4) by simp
      obtain k s' where s': "map_pages n (Suc i) base ?done s2 = Some (k, s')" "as_inv s'" "paging.more s' = paging.more s2"
        "\<forall>w. page_aligned w \<longrightarrow> w \<notin> set (pages_below base (Suc i + n)) \<longrightarrow> translate s' w = translate s2 w"
        "k \<le> Suc i + n"
        "k = Suc i + n \<longrightarrow> (\<exists>ps. map fst (?done @ ps) = pages_below base (Suc i + n) \<and> distinct (map snd (?done @ ps)) \<and>
           (\<forall>x \<in> set (?done @ ps). backed s' x) \<and> (\<forall>x \<in> set ps. unat (snd x) div 4096 \<in> free_frames s2))"
        using Suc.IH [OF s2(2) Suc.prems(2,3) lim m E none] by (elim exE conjE) (rule that)
      have "map_pages (Suc n) i base done s = Some (k, s')"
        using taken(1) s2(1) s'(1) by (simp add: page_no_def)
      moreover have "paging.more s' = paging.more s"
        using s'(3) keeps_data_more(1) [OF taken(8)] keeps_data_more(1) [OF s2(6)] by simp
      moreover have "\<forall>w. page_aligned w \<longrightarrow> w \<notin> set (pages_below base (i + Suc n)) \<longrightarrow> translate s' w = translate s w"
      proof (intro allI impI)
        fix w assume w: "page_aligned w" "w \<notin> set (pages_below base (i + Suc n))"
        moreover have "?v \<in> set (pages_below base (i + Suc n))" unfolding set_pages_below by (intro imageI) simp
        ultimately have "w \<noteq> ?v" by auto
        with w s'(4) mapped_other [OF s2(4) w(1)] taken(3) show "translate s' w = translate s w" by simp
      qed
      moreover have "\<exists>ps. map fst (done @ ps) = pages_below base (i + Suc n) \<and> distinct (map snd (done @ ps)) \<and>
           (\<forall>x \<in> set (done @ ps). backed s' x) \<and> (\<forall>x \<in> set ps. unat (snd x) div 4096 \<in> free_frames s)"
        if "k = i + Suc n"
      proof -
        from s'(6) that obtain ps where ps: "map fst (?done @ ps) = pages_below base (Suc i + n)"
          "distinct (map snd (?done @ ps))" "\<forall>x \<in> set (?done @ ps). backed s' x"
          "\<forall>x \<in> set ps. unat (snd x) div 4096 \<in> free_frames s2" by auto
        have "free_frames s2 \<subseteq> free_frames s" using s2(5) taken(5) by auto
        then show ?thesis
          using ps taken(4) F(3) by (intro exI [of _ "(?v, push_bit 12 f) # ps"]) auto
      qed
      ultimately show ?thesis using s'(2,5) by auto
    qed
  qed
qed

section \<open>Registered regions\<close>

lemma length_strncpy [simp]: "length (kva_strncpy d src n) = length d"
proof -
  have "length (copy_name k i d src) = length d" for k i
    by (induction k arbitrary: i d) (simp_all add: Let_def)
  then show ?thesis by (simp add: kva_strncpy_def)
qed

lemma find_map: "find P (map f xs) = map_option f (find (P \<circ> f) xs)"
  by (induction xs) auto

lemma find_region_find:
  "find_region name rs i = map_option ((+) i) (find (\<lambda>k. region_matches name (rs ! k)) [0..<length rs])"
proof (induction rs arbitrary: i)
  case (Cons r rs)
  have "find (\<lambda>k. region_matches name ((r # rs) ! k)) (map Suc [0..<length rs]) =
      map_option Suc (find (\<lambda>k. region_matches name (rs ! k)) [0..<length rs])"
    by (simp add: find_map comp_def)
  then show ?case by (simp add: Cons.IH upt_conv_Cons map_Suc_upt [symmetric] option.map_comp comp_def del: upt_Suc)
qed simp

text \<open>
  The records below \<open>n\<close> are the registered regions, in the order of their addresses and apart, below the
  next free address.
\<close>

definition laid_out :: "kva_region list \<Rightarrow> nat \<Rightarrow> u32 \<Rightarrow> bool" where
  "laid_out rs n nf \<longleftrightarrow>
     (\<forall>i < n. page_aligned (kr_base (rs ! i)) \<and> kr_size (rs ! i) \<noteq> 0 \<and> kr_size (rs ! i) mod 4096 = 0 \<and>
        0xC1000000 \<le> unat (kr_base (rs ! i)) \<and> unat (kr_base (rs ! i)) + unat (kr_size (rs ! i)) \<le> unat nf) \<and>
     (\<forall>i j. i < j \<longrightarrow> j < n \<longrightarrow> unat (kr_base (rs ! i)) + unat (kr_size (rs ! i)) \<le> unat (kr_base (rs ! j)))"

lemma laid_out_cong: "(\<And>i. i < n \<Longrightarrow> rs ! i = rs' ! i) \<Longrightarrow> laid_out rs n nf = laid_out rs' n nf"
  by (auto simp: laid_out_def)

lemma laid_out_Suc:
  assumes "laid_out rs n nf" "page_aligned nf" "0xC1000000 \<le> unat nf" "kr_base (rs ! n) = nf" "kr_size (rs ! n) = sz"
    "sz \<noteq> 0" "sz mod 4096 = 0" "unat nf + unat sz < 0x100000000"
  shows "laid_out rs (Suc n) (nf + sz)"
proof -
  have "unat (nf + sz) = unat nf + unat sz" using assms(8) by (simp add: unat_add_u32)
  with assms show ?thesis by (auto simp: laid_out_def less_Suc_eq)
qed

text \<open>
  The invariant: the two last records of the first \<open>KVA_REGION_MAX\<close> belong to the window and the stack
  once they are made, and the others are not in use.
\<close>

definition kva_inv :: "'a kva_scheme \<Rightarrow> bool" where
  "kva_inv s \<longleftrightarrow> length (kva_regions s) = 18 \<and> (\<forall>r \<in> set (kva_regions s). length (kr_name r) = KVA_NAME_MAX) \<and>
     kva_region_count s \<le> 14 \<and> page_aligned (kva_next_free s) \<and>
     0xC1000000 \<le> unat (kva_next_free s) \<and> unat (kva_next_free s) < 0xD0000000 \<and>
     laid_out (kva_regions s) (kva_region_count s) (kva_next_free s) \<and>
     (\<forall>i < 18. kva_region_count s \<le> i \<longrightarrow> i \<noteq> 14 \<longrightarrow> i \<noteq> 15 \<longrightarrow> kr_base (kva_regions s ! i) = 0) \<and>
     (if kva_initialized s
      then kr_base (kva_regions s ! 14) = PHYS_WINDOW_BASE \<and> kr_base (kva_regions s ! 15) = STACK_VIRTUAL_BASE \<and>
           region_matches REGION_PHYSWIN (kva_regions s ! 14)
      else kr_base (kva_regions s ! 14) = 0 \<and> kr_base (kva_regions s ! 15) = 0)"

lemma kva_invD:
  assumes "kva_inv s"
  shows "length (kva_regions s) = 18" "\<forall>r \<in> set (kva_regions s). length (kr_name r) = KVA_NAME_MAX"
    "kva_region_count s \<le> 14" "page_aligned (kva_next_free s)" "0xC1000000 \<le> unat (kva_next_free s)"
    "unat (kva_next_free s) < 0xD0000000" "laid_out (kva_regions s) (kva_region_count s) (kva_next_free s)"
    "\<And>i. i < 18 \<Longrightarrow> kva_region_count s \<le> i \<Longrightarrow> i \<noteq> 14 \<Longrightarrow> i \<noteq> 15 \<Longrightarrow> kr_base (kva_regions s ! i) = 0"
    "if kva_initialized s
     then kr_base (kva_regions s ! 14) = PHYS_WINDOW_BASE \<and> kr_base (kva_regions s ! 15) = STACK_VIRTUAL_BASE \<and>
          region_matches REGION_PHYSWIN (kva_regions s ! 14)
     else kr_base (kva_regions s ! 14) = 0 \<and> kr_base (kva_regions s ! 15) = 0"
  using assms unfolding kva_inv_def by blast+

lemma set_region_names:
  assumes "\<forall>r \<in> set (kva_regions s). length (kr_name r) = KVA_NAME_MAX"
  shows "\<forall>r \<in> set (kva_regions (set_region i name base sz m s)). length (kr_name r) = KVA_NAME_MAX"
proof (cases "i < length (kva_regions s)")
  case True
  with assms show ?thesis by (auto simp: set_region_def dest!: set_update_subset_insert [THEN subsetD])
qed (use assms in \<open>simp add: set_region_def list_update_beyond\<close>)

lemma set_region_nth:
  assumes "i < length (kva_regions s)" "length (kr_name (kva_regions s ! i)) = KVA_NAME_MAX" "nul_free name"
  shows "kva_regions (set_region i name base sz b s) ! j = (if j = i then
      \<lparr>kr_name = kva_strncpy (kr_name (kva_regions s ! i)) name KVA_NAME_MAX, kr_base = base, kr_size = sz, kr_mapped = b\<rparr>
    else kva_regions s ! j)"
    "nul_free n \<Longrightarrow> region_matches n (kva_regions (set_region i name base sz b s) ! i) \<longleftrightarrow>
       base \<noteq> 0 \<and> take 16 name = take 16 n"
  using assms name_matches [OF assms(3) _ assms(2)]
  by (simp_all add: set_region_def region_matches_def)

lemma kva_lazy_init_inv:
  assumes "kva_inv s"
  shows "kva_inv (kva_lazy_init s)" "kva_initialized (kva_lazy_init s)"
    "kva_region_count (kva_lazy_init s) = kva_region_count s" "kva_next_free (kva_lazy_init s) = kva_next_free s"
proof -
  note D = kva_invD [OF assms]
  show f: "kva_initialized (kva_lazy_init s)" "kva_region_count (kva_lazy_init s) = kva_region_count s"
    "kva_next_free (kva_lazy_init s) = kva_next_free s"
    by (simp_all add: kva_lazy_init_def set_region_def Let_def)
  show "kva_inv (kva_lazy_init s)"
  proof (cases "kva_initialized s")
    case True
    with assms show ?thesis by (simp add: kva_lazy_init_def)
  next
    case False
    define s1 where "s1 = set_region 14 REGION_PHYSWIN PHYS_WINDOW_BASE 0x10000000 True (s\<lparr>kva_initialized := True\<rparr>)"
    have L: "kva_lazy_init s = set_region 15 REGION_KERNEL_STACK STACK_VIRTUAL_BASE (STACK_PAGE_SIZE * 4096) True s1"
      using False by (simp add: kva_lazy_init_def s1_def KVA_REGION_MAX_def)
    have n: "nul_free REGION_PHYSWIN" "nul_free REGION_KERNEL_STACK"
      by (simp_all add: nul_free_def REGION_PHYSWIN_def REGION_KERNEL_STACK_def)
    have l1: "length (kva_regions s1) = 18" "length (kva_regions (kva_lazy_init s)) = 18"
      using D(1) by (simp_all add: s1_def L set_region_def)
    have names1: "\<forall>r \<in> set (kva_regions s1). length (kr_name r) = KVA_NAME_MAX"
      unfolding s1_def by (rule set_region_names) (use D(2) in simp)
    then have names: "\<forall>r \<in> set (kva_regions (kva_lazy_init s)). length (kr_name r) = KVA_NAME_MAX"
      unfolding L by (rule set_region_names)
    have "region_matches REGION_PHYSWIN (kva_regions s1 ! 14)"
      unfolding s1_def using D(1,2) n(1) by (subst set_region_nth(2)) (simp_all add: PHYS_WINDOW_BASE_def)
    then have at: "kr_base (kva_regions (kva_lazy_init s) ! 14) = PHYS_WINDOW_BASE"
      "kr_base (kva_regions (kva_lazy_init s) ! 15) = STACK_VIRTUAL_BASE"
      "region_matches REGION_PHYSWIN (kva_regions (kva_lazy_init s) ! 14)"
      using l1 D(1) by (simp_all add: L set_region_def s1_def)
    have other: "kva_regions (kva_lazy_init s) ! i = kva_regions s ! i" if "i \<noteq> 14" "i \<noteq> 15" for i
      using that by (simp add: L s1_def set_region_def)
    have "laid_out (kva_regions (kva_lazy_init s)) (kva_region_count s) (kva_next_free s)"
      using D(7) laid_out_cong [of "kva_region_count s" "kva_regions (kva_lazy_init s)" "kva_regions s"] other D(3) by simp
    with D(3-6,8) l1 names at f other show ?thesis by (simp add: kva_inv_def)
  qed
qed


lemma find_region_eq:
  "find_region name rs 0 = find (\<lambda>k. region_matches name (rs ! k)) [0..<length rs]"
  by (simp add: find_region_find map_option_case split: option.splits)

text \<open>The condition on the size of the image, counted in words.\<close>

definition image_fits :: "'a machine_scheme \<Rightarrow> bool" where
  "image_fits s \<longleftrightarrow> KERNEL_VIRTUAL_BASE + signed_drop_bit 2 (kernel_end s - kernel_start s) \<le> KVA_REGION_BASE"

lemma register_eq:
  assumes "kva_inv s" "image_fits s" "kva_region_count s \<le> 14" "sz \<noteq> 0" "sz mod 4096 = 0"
    "unat (kva_next_free s) + unat sz < 0xD0000000" "\<not> kva_region_exists name (kva_lazy_init s)"
  shows "kva_register_region name sz s = Some (kva_next_free s,
    (set_region (kva_region_count s) name (kva_next_free s) sz False (kva_lazy_init s))
      \<lparr>kva_next_free := kva_next_free s + sz, kva_region_count := kva_region_count s + 1\<rparr>)"
proof -
  note D = kva_invD [OF assms(1)] and L = kva_lazy_init_inv [OF assms(1)]
  have u: "unat (kva_next_free s + sz) = unat (kva_next_free s) + unat sz"
    using assms(6) by (simp add: unat_add_u32)
  have al: "(kva_next_free s + 0xFFF) AND 0xFFFFF000 = kva_next_free s"
  proof -
    have "unat (kva_next_free s + 0xFFF) = unat (kva_next_free s) + 0xFFF"
      using D(6) by (simp add: unat_add_u32)
    moreover obtain q where "unat (kva_next_free s) = 4096 * q" using D(4) by (rule page_alignedE)
    ultimately show ?thesis by (simp add: u32_eq_iff unat_and_page)
  qed
  have c: "kva_region_count (set_region i n b z m s') = kva_region_count s'" for i n b z m and s' :: "'a kva_scheme"
    by (simp add: set_region_def)
  show ?thesis
    using assms(2-5,7) u assms(6) L D(3)
    by (simp add: kva_register_region_def image_fits_def Let_def al c KVA_REGION_MAX_def PHYS_WINDOW_BASE_def
        word_less_nat_alt word_le_nat_alt add.commute [of sz])
qed


lemma find_upt_Some: "find P [0..<n] = Some k \<longleftrightarrow> k < n \<and> P k \<and> (\<forall>j < k. \<not> P j)"
  by (auto simp: find_Some_iff)

lemma find_upt_None: "find P [0..<n] = None \<longleftrightarrow> (\<forall>j < n. \<not> P j)"
  by (auto simp: find_None_iff)

section \<open>Properties\<close>

text \<open>
  (C21) Registering a region: with free slots, a page-multiple size that fits below the window and a new
  name, the region gets the next free addresses; afterwards all regions are apart, its name looks up
  its base and size, and every other name looks up what it did before.
\<close>

theorem kva_register_region_correct:
  assumes "kva_inv s" "image_fits s" "kva_region_count s < 14" "sz \<noteq> 0" "sz mod 4096 = 0"
    "unat (kva_next_free s) + unat sz < 0xD0000000" "nul_free name" "\<not> kva_region_exists name (kva_lazy_init s)"
  shows "\<exists>s'. kva_register_region name sz s = Some (kva_next_free s, s') \<and> kva_inv s' \<and>
    kva_next_free s' = kva_next_free s + sz \<and> kva_region_count s' = kva_region_count s + 1 \<and>
    kva_get_region_base name s' = Some (kva_next_free s) \<and> kva_get_region_size name s' = Some sz \<and>
    (\<forall>m. nul_free m \<longrightarrow> take 16 m \<noteq> take 16 name \<longrightarrow>
       kva_get_region_base m s' = kva_get_region_base m (kva_lazy_init s))"
proof -
  note D = kva_invD [OF assms(1)] and L = kva_lazy_init_inv [OF assms(1)]
  note D' = kva_invD [OF L(1), unfolded L(2-4)]
  let ?c = "kva_region_count s" and ?nf = "kva_next_free s" and ?l = "kva_lazy_init s"
  define s1 where "s1 = set_region ?c name ?nf sz False ?l"
  define s' where "s' = s1\<lparr>kva_next_free := ?nf + sz, kva_region_count := ?c + 1\<rparr>"
  have reg: "kva_register_region name sz s = Some (?nf, s')"
    using register_eq [OF assms(1,2) _ assms(4-6,8)] assms(3) by (simp add: s'_def s1_def)
  have nfz: "?nf \<noteq> 0" using D(5) by auto
  have l: "?c < length (kva_regions ?l)" "length (kr_name (kva_regions ?l ! ?c)) = KVA_NAME_MAX"
    using D'(1,2) assms(3) by simp_all
  note N = set_region_nth [OF l assms(7), where base = ?nf and sz = sz and b = False, folded s1_def]
  have rs: "kva_regions s' = kva_regions s1" "length (kva_regions s1) = 18"
    "kva_initialized s'" using D'(1) L(2) by (simp_all add: s'_def s1_def set_region_def)
  have at: "kva_regions s' ! j = kva_regions ?l ! j" if "j \<noteq> ?c" for j using N(1) [of j] that rs by simp
  have new: "kr_base (kva_regions s' ! ?c) = ?nf" "kr_size (kva_regions s' ! ?c) = sz" using N(1) [of ?c] rs by simp_all
  have "laid_out (kva_regions s') ?c ?nf"
    using D'(7) laid_out_cong [of ?c "kva_regions s'" "kva_regions ?l"] at by simp
  then have lo: "laid_out (kva_regions s') (Suc ?c) (?nf + sz)"
    using D(4,5) new assms(4-6) by (intro laid_out_Suc) simp_all
  have names: "\<forall>r \<in> set (kva_regions s1). length (kr_name r) = KVA_NAME_MAX"
    unfolding s1_def by (rule set_region_names [OF D'(2)])
  have u: "unat (?nf + sz) = unat ?nf + unat sz" using assms(6) by (simp add: unat_add_u32)
  have "page_aligned (?nf + sz)"
    using D(4) assms(5) u by (simp add: page_aligned_unat u32_eq_iff unat_mod_u32 mod_add_eq flip: mod_add_eq)
  with rs names lo D(5) assms(3,6) u have inv: "kva_inv s'"
    unfolding kva_inv_def using D'(8,9) L(2) at by (auto simp: s'_def)
  have ex: "\<not> region_matches name (kva_regions ?l ! j)" if "j < 18" for j
    using assms(8) that D'(1) by (simp add: kva_region_exists_def find_region_eq find_upt_None)
  have "find_region name (kva_regions s') 0 = Some ?c"
    unfolding find_region_eq find_upt_Some rs using N(2) [OF assms(7)] at ex nfz assms(3) by (auto simp: rs)
  moreover have "find_region m (kva_regions s') 0 = find_region m (kva_regions ?l) 0"
    if m: "nul_free m" "take 16 m \<noteq> take 16 name" for m
  proof -
    have "\<not> region_matches m (kva_regions s' ! ?c)" using N(2) [OF m(1)] m(2) rs by simp
    moreover have "\<not> region_matches m (kva_regions ?l ! ?c)"
      using D'(8) [of ?c] assms(3) by (simp add: region_matches_def)
    ultimately have "region_matches m (kva_regions s' ! k) = region_matches m (kva_regions ?l ! k)" for k
      using at by (cases "k = ?c") auto
    then show ?thesis using rs D'(1) by (simp add: find_region_eq)
  qed
  moreover have "kva_regions s' ! k = kva_regions ?l ! k"
    if "find_region m (kva_regions ?l) 0 = Some k" for m k
  proof (rule at)
    show "k \<noteq> ?c"
      using that D'(8) [of ?c] assms(3) by (auto simp: find_region_eq find_upt_Some region_matches_def)
  qed
  ultimately show ?thesis
    using reg inv new by (auto simp: kva_get_region_base_def kva_get_region_size_def s'_def map_option_case split: option.splits)
qed


text \<open>The manager before any registration, on the address space of \<^const>\<open>ex_paging\<close>.\<close>

definition ex_kva :: kva where
  "ex_kva = paging.extend ex_paging
     (kva.fields (replicate 18 \<lparr>kr_name = replicate 16 CHR 0x00, kr_base = 0, kr_size = 0, kr_mapped = False\<rparr>)
        0 KVA_REGION_BASE False)"

lemma ex_kva_fields [simp]:
  "kva_regions ex_kva = replicate 18 \<lparr>kr_name = replicate 16 CHR 0x00, kr_base = 0, kr_size = 0, kr_mapped = False\<rparr>"
  "kva_region_count ex_kva = 0" "kva_next_free ex_kva = 0xC1000000" "kva_initialized ex_kva = False"
  "kernel_end ex_kva = 0x110000" "kernel_start ex_kva = 0x100000"
  by (simp_all add: ex_kva_def paging.defs kva.defs ex_paging_def KVA_REGION_BASE_def KERNEL_VIRTUAL_BASE_def)

lemma ex_kva_inv: "kva_inv ex_kva" "image_fits ex_kva"
proof -
  show "kva_inv ex_kva"
    by (auto simp: kva_inv_def laid_out_def page_aligned_def KVA_NAME_MAX_def)
  have "signed_drop_bit 2 (0x10000 :: u32) = 0x4000" by code_simp
  then show "image_fits ex_kva"
    by (simp add: image_fits_def KERNEL_VIRTUAL_BASE_def KVA_REGION_BASE_def word_le_nat_alt)
qed

lemma ex_kva_fresh: "\<not> kva_region_exists ''threadpool'' (kva_lazy_init ex_kva)"
proof -
  have "nul_free ''threadpool''" "nul_free REGION_PHYSWIN" "nul_free REGION_KERNEL_STACK"
    by (simp_all add: nul_free_def REGION_PHYSWIN_def REGION_KERNEL_STACK_def)
  note n = name_matches [OF this(2,1), of "replicate 16 CHR 0x00"] name_matches [OF this(3,1), of "replicate 16 CHR 0x00"]
  show ?thesis
    unfolding kva_region_exists_def find_region_eq
    using n
    by (auto simp: find_upt_None region_matches_def kva_lazy_init_def set_region_def Let_def KVA_REGION_MAX_def KVA_NAME_MAX_def
        REGION_PHYSWIN_def REGION_KERNEL_STACK_def nth_list_update)
qed

theorem kva_register_region_correct_witness:
  "\<exists>s'. kva_register_region ''threadpool'' 0x1000 ex_kva = Some (0xC1000000, s') \<and>
     kva_get_region_base ''threadpool'' s' = Some 0xC1000000 \<and> kva_next_free s' = 0xC1001000"
proof -
  have "nul_free ''threadpool''" by (simp add: nul_free_def)
  with kva_register_region_correct [OF ex_kva_inv, of "0x1000" "''threadpool''"] ex_kva_fresh show ?thesis by auto
qed

text \<open>
  (C22) The records of the window and of the stack lie inside the array of the registered regions: with 14
  regions registered, one more registration takes the record of the window, and a lookup of
  \<^verbatim>\<open>physwin\<close> no longer returns its base.
\<close>

theorem kva_register_region_takes_physwin:
  assumes "kva_inv s" "image_fits s" "kva_region_count s = 14" "kva_initialized s" "sz \<noteq> 0" "sz mod 4096 = 0"
    "unat (kva_next_free s) + unat sz < 0xD0000000" "nul_free name" "\<not> kva_region_exists name s"
    "kva_get_region_base REGION_PHYSWIN s = Some PHYS_WINDOW_BASE"
  shows "\<exists>s'. kva_register_region name sz s = Some (kva_next_free s, s') \<and>
    kva_get_region_base REGION_PHYSWIN s' \<noteq> Some PHYS_WINDOW_BASE"
proof -
  note D = kva_invD [OF assms(1)]
  have l: "kva_lazy_init s = s" using assms(4) by (simp add: kva_lazy_init_def)
  define s' where "s' = (set_region 14 name (kva_next_free s) sz False s)
    \<lparr>kva_next_free := kva_next_free s + sz, kva_region_count := kva_region_count s + 1\<rparr>"
  have reg: "kva_register_region name sz s = Some (kva_next_free s, s')"
    using register_eq [OF assms(1,2) _ assms(5,6,7)] assms(3,9) by (simp add: l s'_def)
  have ne: "kr_base (kva_regions s' ! k) \<noteq> PHYS_WINDOW_BASE" if "k < 18" for k
  proof -
    consider "k < 14" | "k = 14" | "k = 15" | "k \<ge> 14" "k \<noteq> 14" "k \<noteq> 15" by linarith
    then show ?thesis
    proof cases
      case 1
      then have "unat (kr_base (kva_regions s ! k)) + unat (kr_size (kva_regions s ! k)) \<le> unat (kva_next_free s)"
        using D(7) assms(3) by (simp add: laid_out_def)
      then have "unat (kr_base (kva_regions s ! k)) < 0xD0000000" using D(6) by linarith
      then show ?thesis using 1 D(1) by (auto simp: s'_def set_region_def PHYS_WINDOW_BASE_def)
    next
      case 2
      then show ?thesis using D(1,6) by (auto simp: s'_def set_region_def PHYS_WINDOW_BASE_def)
    next
      case 3
      then show ?thesis using D(9) assms(4) by (simp add: s'_def set_region_def PHYS_WINDOW_BASE_def STACK_VIRTUAL_BASE_def)
    next
      case 4
      then show ?thesis using D(8) [OF that] assms(3) by (simp add: s'_def set_region_def PHYS_WINDOW_BASE_def)
    qed
  qed
  have "length (kva_regions s') = 18" using D(1) by (simp add: s'_def set_region_def)
  then have "kva_get_region_base REGION_PHYSWIN s' \<noteq> Some PHYS_WINDOW_BASE"
    using ne by (auto simp: kva_get_region_base_def find_region_eq find_upt_Some)
  with reg show ?thesis by blast
qed



text \<open>Fourteen regions of one page each.\<close>

definition ex_kva14 :: kva where
  "ex_kva14 = ex_kva\<lparr>kva_initialized := True, kva_region_count := 14, kva_next_free := 0xC100E000,
     kva_regions := map (\<lambda>i. \<lparr>kr_name = kva_strncpy (replicate 16 CHR 0x00) ''pool'' 16,
        kr_base = page_no 0xC1000000 i, kr_size = 0x1000, kr_mapped = False\<rparr>) [0..<14] @
       [\<lparr>kr_name = kva_strncpy (replicate 16 CHR 0x00) REGION_PHYSWIN 16, kr_base = PHYS_WINDOW_BASE,
         kr_size = 0x10000000, kr_mapped = True\<rparr>,
        \<lparr>kr_name = kva_strncpy (replicate 16 CHR 0x00) REGION_KERNEL_STACK 16, kr_base = STACK_VIRTUAL_BASE,
         kr_size = 0x10000, kr_mapped = True\<rparr>] @
       replicate 2 \<lparr>kr_name = replicate 16 CHR 0x00, kr_base = 0, kr_size = 0, kr_mapped = False\<rparr>\<rparr>"

lemma ex_kva14_region:
  assumes "k < 18" "nul_free n"
  shows "region_matches n (kva_regions ex_kva14 ! k) \<longleftrightarrow>
    k < 14 \<and> take 16 n = ''pool'' \<or> k = 14 \<and> take 16 n = REGION_PHYSWIN \<or> k = 15 \<and> take 16 n = REGION_KERNEL_STACK"
proof -
  have z: "nul_free ''pool''" "nul_free REGION_PHYSWIN" "nul_free REGION_KERNEL_STACK"
    by (simp_all add: nul_free_def REGION_PHYSWIN_def REGION_KERNEL_STACK_def)
  note M = name_matches [OF z(1) assms(2), of "replicate 16 CHR 0x00"] name_matches [OF z(2) assms(2), of "replicate 16 CHR 0x00"]
    name_matches [OF z(3) assms(2), of "replicate 16 CHR 0x00"]
  have b: "page_no 0xC1000000 k \<noteq> 0" if "k < 14"
    using page_no_facts(1) [of "0xC1000000" 14 k] that by (auto simp: page_aligned_def)
  consider "k < 14" | "k = 14" | "k = 15" | "k = 16" | "k = 17" using assms(1) by linarith
  then show ?thesis
    by cases (use M b in \<open>auto simp: ex_kva14_def region_matches_def nth_append KVA_NAME_MAX_def PHYS_WINDOW_BASE_def
        STACK_VIRTUAL_BASE_def REGION_PHYSWIN_def REGION_KERNEL_STACK_def\<close>)
qed

lemma ex_kva14_inv: "kva_inv ex_kva14" "image_fits ex_kva14"
proof -
  have lo: "laid_out (kva_regions ex_kva14) 14 0xC100E000"
    using page_no_facts [of "0xC1000000" 14]
    by (auto simp: laid_out_def ex_kva14_def nth_append page_aligned_def [of "0xC1000000"])
  have "region_matches REGION_PHYSWIN (kva_regions ex_kva14 ! 14)"
    using ex_kva14_region [of 14 REGION_PHYSWIN] by (simp add: nul_free_def REGION_PHYSWIN_def)
  moreover have "i = 16 \<or> i = 17" if "i < 18" "14 \<le> i" "i \<noteq> 14" "i \<noteq> 15" for i :: nat using that by linarith
  ultimately show "kva_inv ex_kva14"
    unfolding kva_inv_def using lo
    by (auto simp: ex_kva14_def nth_append page_aligned_def KVA_NAME_MAX_def)
  show "image_fits ex_kva14" using ex_kva_inv(2) by (simp add: image_fits_def ex_kva14_def)
qed

theorem kva_register_region_takes_physwin_witness:
  "kva_get_region_base REGION_PHYSWIN ex_kva14 = Some PHYS_WINDOW_BASE \<and>
   (\<exists>s'. kva_register_region ''x'' 0x1000 ex_kva14 = Some (0xC100E000, s') \<and>
      kva_get_region_base REGION_PHYSWIN s' \<noteq> Some PHYS_WINDOW_BASE)"
proof -
  have z: "nul_free ''x''" "nul_free REGION_PHYSWIN" by (simp_all add: nul_free_def REGION_PHYSWIN_def)
  have len: "length (kva_regions ex_kva14) = 18" by (simp add: ex_kva14_def)
  have ex: "\<not> kva_region_exists ''x'' ex_kva14"
    using ex_kva14_region [OF _ z(1)] len
    by (simp add: kva_region_exists_def find_region_eq find_upt_None REGION_PHYSWIN_def REGION_KERNEL_STACK_def)
  have "find_region REGION_PHYSWIN (kva_regions ex_kva14) 0 = Some 14"
    using ex_kva14_region [OF _ z(2)] len
    by (auto simp: find_region_eq find_upt_Some REGION_PHYSWIN_def REGION_KERNEL_STACK_def)
  then have p: "kva_get_region_base REGION_PHYSWIN ex_kva14 = Some PHYS_WINDOW_BASE"
    by (simp add: kva_get_region_base_def) (simp add: ex_kva14_def nth_append)
  show ?thesis
    using kva_register_region_takes_physwin [OF ex_kva14_inv, of "0x1000" "''x''"] ex p z by (simp add: ex_kva14_def)
qed


text \<open>One page of a region just registered.\<close>

definition ex_kva1 :: kva where
  "ex_kva1 = ex_kva14\<lparr>kva_region_count := 1, kva_regions := kva_regions ex_kva14 ! 0 # replicate 17
     \<lparr>kr_name = replicate 16 CHR 0x00, kr_base = 0, kr_size = 0, kr_mapped = False\<rparr>\<rparr>"


end
