(* ===== verification/Dpage.thy ===== *)
theory Dpage
  imports Address_Space
begin

text \<open>
  Demand-paged pools (\<^verbatim>\<open>dpage.h\<close>, \<^verbatim>\<open>dpage.c\<close>). A pool is an array of objects in kernel virtual memory
  with a bitmap of the slots in use; its pages get frames when a slot on them is first used. The bitmap is
  a list of bytes and the objects of a pool are records in a typed store, both owned by the pool's client,
  so the operations here take the bitmap and the function that zeroes an object as arguments.
\<close>

section \<open>Slots\<close>

datatype dpage_alloc_status =
  DPAGE_SUCCESS | DPAGE_PMM_INIT_FAILED | DPAGE_PG_INIT_FAILED | DPAGE_NO_MORE_REGION_SLOTS

definition dpage_bm_set :: "u32 \<Rightarrow> bitmap \<Rightarrow> u32 \<Rightarrow> bitmap option" where
  "dpage_bm_set i bm size_bytes = (if i \<ge> size_bytes * 8 then Some bm else bitmap_set bm i)"

definition dpage_bm_clear :: "u32 \<Rightarrow> bitmap \<Rightarrow> u32 \<Rightarrow> bitmap option" where
  "dpage_bm_clear i bm size_bytes = (if i \<ge> size_bytes * 8 then Some bm else bitmap_clear bm i)"

definition dpage_is_allocated :: "u32 \<Rightarrow> bitmap \<Rightarrow> u32 \<Rightarrow> bool option" where
  "dpage_is_allocated i bm size_bytes = (if i \<ge> size_bytes * 8 then Some False else bitmap_test bm i)"

definition dpage_bm_slot_to_vaddr :: "u32 \<Rightarrow> u32 \<Rightarrow> u32 \<Rightarrow> u32" where
  "dpage_bm_slot_to_vaddr slot base sz = base + slot * sz"


section \<open>Setting up a pool\<close>

text \<open>The result, the bitmap and the state; \<open>clear_page\<close> zeroes the objects of the first page of the pool.\<close>

definition dpage_init ::
  "(u32 \<Rightarrow> 'a paging_scheme \<Rightarrow> 'a paging_scheme) \<Rightarrow> u32 \<Rightarrow> u32 \<Rightarrow> bitmap \<Rightarrow> 'a paging_scheme \<Rightarrow>
   (bool \<times> bitmap \<times> 'a paging_scheme) option" where
  "dpage_init clear_page bitmap_base pool_base bm s = do {
     ((bm_phys, res), s) \<leftarrow> pmm_get_next_available_block s;
     if res \<noteq> PMM_ALLOC_SUCCESS then Some (False, bm, s)
     else do {
       (r, s) \<leftarrow> paging_map_page bitmap_base bm_phys (PG_PRESENT OR PG_RW) s;
       if r \<noteq> PAGING_OK then do {
         (_, s) \<leftarrow> pmm_dealloc_specific_block bm_phys s;
         Some (False, bm, s) }
       else do {
         let bm = replicate 4096 0;
         ((pool_phys, res), s) \<leftarrow> pmm_get_next_available_block s;
         if res \<noteq> PMM_ALLOC_SUCCESS then Some (False, bm, s)
         else do {
           (r, s) \<leftarrow> paging_map_page pool_base pool_phys (PG_PRESENT OR PG_RW) s;
           if r \<noteq> PAGING_OK then do {
             (_, s) \<leftarrow> pmm_dealloc_specific_block pool_phys s;
             Some (False, bm, s) }
           else Some (True, bm, clear_page pool_base s) } } } }"


section \<open>Allocation\<close>

primrec first_free_slot :: "nat \<Rightarrow> u32 \<Rightarrow> bitmap \<Rightarrow> u32 option option" where
  "first_free_slot 0 slot bm = Some None"
| "first_free_slot (Suc n) slot bm = do {
     taken \<leftarrow> bitmap_test bm slot;
     if \<not> taken then Some (Some slot) else first_free_slot n (slot + 1) bm }"

text \<open>\<^verbatim>\<open>need_map\<close>: the page has no entry in the kernel's directory and tables.\<close>

definition need_map :: "u32 \<Rightarrow> 'a paging_scheme \<Rightarrow> bool option" where
  "need_map page_start s = do {
     let kpd = paging_get_kernel_pd_phys s;
     _ \<leftarrow> phys_to_virt kpd;
     let pde = ld32 (mem s) (tbl kpd (drop_bit 22 page_start));
     if pde AND PG_PRESENT = 0 then Some True
     else do {
       let pt = pde AND 0xFFFFF000;
       _ \<leftarrow> phys_to_virt pt;
       Some (ld32 (mem s) (tbl pt (drop_bit 12 page_start AND 0x3FF)) AND PG_PRESENT = 0) } }"

definition undo_first_page :: "u32 \<Rightarrow> 'a paging_scheme \<Rightarrow> 'a paging_scheme option" where
  "undo_first_page page s = do {
     ((_, unmap_phys), s) \<leftarrow> paging_unmap_page page s;
     (_, s) \<leftarrow> pmm_dealloc_specific_block unmap_phys s;
     Some s }"

text \<open>
  The loop over \<^verbatim>\<open>pages_to_check\<close>. The pages already handled come with \<^verbatim>\<open>mapped_already\<close>. A frame that
  cannot be had undoes the first page whether or not this call mapped it; a page that cannot be mapped
  undoes it only when this call did.
\<close>

fun map_element_pages ::
  "u32 list \<Rightarrow> (u32 \<times> bool) list \<Rightarrow> 'a paging_scheme \<Rightarrow> (dpage_alloc_status \<times> 'a paging_scheme) option" where
  "map_element_pages [] done s = Some (DPAGE_SUCCESS, s)"
| "map_element_pages (page # pages) done s = do {
     need \<leftarrow> need_map page s;
     if \<not> need then map_element_pages pages (done @ [(page, False)]) s
     else do {
       ((phys, res), s) \<leftarrow> pmm_get_next_available_block s;
       if res \<noteq> PMM_ALLOC_SUCCESS then do {
         s \<leftarrow> (case done of [] \<Rightarrow> Some s | (first, _) # _ \<Rightarrow> undo_first_page first s);
         Some (DPAGE_PMM_INIT_FAILED, s) }
       else do {
         (r, s) \<leftarrow> paging_map_page page phys (PG_PRESENT OR PG_RW) s;
         if r \<noteq> PAGING_OK then do {
           (_, s) \<leftarrow> pmm_dealloc_specific_block phys s;
           s \<leftarrow> (case done of (first, True) # _ \<Rightarrow> undo_first_page first s | _ \<Rightarrow> Some s);
           Some (DPAGE_PG_INIT_FAILED, s) }
         else map_element_pages pages (done @ [(page, True)]) s } } }"

definition element_pages :: "u32 \<Rightarrow> u32 \<Rightarrow> u32 list" where
  "element_pages vaddr sz =
     (let first = vaddr AND 0xFFFFF000; last = (vaddr + sz - 1) AND 0xFFFFF000
      in if last \<noteq> first then [first, last] else [first])"

text \<open>
  The address (0 on failure) and status, the bitmap, and the state. \<open>clear_element\<close> zeroes the object at an
  address; the size of the region, \<^verbatim>\<open>vaddr_size_bytes\<close>, is not used by the code.
\<close>

definition dpage_alloc ::
  "(u32 \<Rightarrow> 'a paging_scheme \<Rightarrow> 'a paging_scheme) \<Rightarrow> bitmap \<Rightarrow> u32 \<Rightarrow> u32 \<Rightarrow> u32 \<Rightarrow> u32 \<Rightarrow> 'a paging_scheme \<Rightarrow>
   ((u32 \<times> dpage_alloc_status) \<times> bitmap \<times> 'a paging_scheme) option" where
  "dpage_alloc clear_element bm vaddr_base vaddr_size_bytes element_size bitmap_size_bytes s = do {
     free \<leftarrow> first_free_slot (unat (bitmap_size_bytes * 8)) 0 bm;
     case free of
       None \<Rightarrow> Some ((0, DPAGE_NO_MORE_REGION_SLOTS), bm, s)
     | Some slot \<Rightarrow> do {
         bm \<leftarrow> dpage_bm_set slot bm bitmap_size_bytes;
         let vaddr = dpage_bm_slot_to_vaddr slot vaddr_base element_size;
         (status, s) \<leftarrow> map_element_pages (element_pages vaddr element_size) [] s;
         if status \<noteq> DPAGE_SUCCESS then do {
           bm \<leftarrow> dpage_bm_clear slot bm bitmap_size_bytes;
           Some ((0, status), bm, s) }
         else Some ((vaddr, DPAGE_SUCCESS), bm, clear_element vaddr s) } }"

section \<open>Mapping on demand\<close>

text \<open>
  While processes run, their page directories are loaded and frames hold old data, so the invariant is that of
  the allocator and of the kernel's tables only. \<open>demand_mapped ps s s'\<close>: the pages of \<open>ps\<close> that had no
  translation got one, each with a frame that was free, and nothing else changed.
\<close>

definition rt_inv :: "'a paging_scheme \<Rightarrow> bool" where
  "rt_inv s \<longleftrightarrow> pmm_inv s \<and> pg_inv s"

definition demand_mapped :: "u32 list \<Rightarrow> 'a paging_scheme \<Rightarrow> 'a paging_scheme \<Rightarrow> bool" where
  "demand_mapped ps s s' \<longleftrightarrow> rt_inv s' \<and> paging_only s s' \<and> page_tables_loc_phys s' = page_tables_loc_phys s \<and>
     free_frames s' \<subseteq> free_frames s \<and>
     card (free_frames s) = card (free_frames s') + card {p \<in> set ps. translate s p = None} \<and>
     (\<forall>w. page_aligned w \<longrightarrow>
        (if w \<in> set ps \<and> translate s w = None
         then \<exists>f. unat f \<in> free_frames s - free_frames s' \<and> translate s' w = Some (push_bit 12 f, PG_PRESENT OR PG_RW)
         else translate s' w = translate s w))"

lemma pde_index_shift: "pde_index v = drop_bit 22 v"
proof -
  have "unat v div 4194304 < 1024" using unat_u32_less [of v] by (intro div_less_iff_less_mult [THEN iffD2]) simp_all
  then show ?thesis by (simp add: pde_index_def u32_eq_iff unat_page)
qed

lemma need_map_spec:
  assumes "pg_inv s"
  shows "need_map v s = Some (translate s v = None)"
proof -
  note D = pg_invD [OF assms]
  have w: "in_window (page_directory_loc_phys s)" using D(4) by (simp add: table_frame_def)
  have t: "table_at s (pde_index v) \<noteq> 0 \<Longrightarrow> in_window (table_at s (pde_index v))"
    using D(6) [OF pde_index_less(1) [of v]] by (simp add: table_frame_def)
  have i: "drop_bit 22 v = pde_index v" "drop_bit 12 v AND 0x3FF = pte_index v" by (simp_all add: pde_index_shift pte_index_def)
  show ?thesis
    using D(5,8) [OF pde_index_less(1) [of v]] w t
    unfolding need_map_def walk_eq [OF assms] i
    by (auto simp: paging_get_kernel_pd_phys_def phys_to_virt_in_window pde_at_def Let_def)
qed

lemma take_block_rt:
  assumes "rt_inv s" "free_frames s \<noteq> {}"
  obtains f s' where "pmm_get_next_available_block s = Some ((push_bit 12 f, PMM_ALLOC_SUCCESS), s')"
    "unat f \<in> free_frames s" "free_frames s' = free_frames s - {unat f}" "rt_inv s'" "pmm_only s s'"
    "page_aligned (push_bit 12 f)"
proof -
  have inv: "pmm_inv s" "pg_inv s" using assms(1) by (simp_all add: rt_inv_def)
  obtain f s' where s': "pmm_get_next_available_block s = Some ((push_bit 12 f, PMM_ALLOC_SUCCESS), s')"
    "unat f \<in> free_frames s" "free_frames s' = free_frames s - {unat f}" "pmm_inv s'" "pmm_only s s'"
    by (rule get_next_some [OF inv(1) assms(2)])
  have "rt_inv s'" using s'(3,4) pg_inv_shrink [OF inv(2) s'(5)] by (auto simp: rt_inv_def)
  then show thesis by (rule that [OF s'(1-3) _ s'(5) free_table_frame(2) [OF inv(2) s'(2)]])
qed

lemma demand_mapped_refl: "rt_inv s \<Longrightarrow> (\<And>p. p \<in> set ps \<Longrightarrow> translate s p \<noteq> None) \<Longrightarrow> demand_mapped ps s s"
proof -
  assume i: "rt_inv s" and m: "\<And>p. p \<in> set ps \<Longrightarrow> translate s p \<noteq> None"
  have "{p \<in> set ps. translate s p = None} = {}" using m by blast
  then show ?thesis using i m pmm_only_paging_only [OF pmm_only_refl] by (auto simp: demand_mapped_def)
qed

lemma map_one_page:
  assumes inv: "rt_inv s" and v: "page_aligned v" "KERNEL_VIRTUAL_BASE \<le> v" "table_at s (pde_index v) \<noteq> 0"
    and n: "translate s v = None" and f: "free_frames s \<noteq> {}"
  obtains p s1 s2 where "pmm_get_next_available_block s = Some ((p, PMM_ALLOC_SUCCESS), s1)"
    "paging_map_page v p (PG_PRESENT OR PG_RW) s1 = Some (PAGING_OK, s2)" "demand_mapped [v] s s2"
proof -
  obtain f s1 where s1: "pmm_get_next_available_block s = Some ((push_bit 12 f, PMM_ALLOC_SUCCESS), s1)"
    "unat f \<in> free_frames s" "free_frames s1 = free_frames s - {unat f}" "rt_inv s1" "pmm_only s s1"
    "page_aligned (push_bit 12 f)" by (rule take_block_rt [OF inv f])
  note same = pmm_only_paging [OF s1(5)]
  have inv1: "pg_inv s1" "pmm_inv s1" using s1(4) by (simp_all add: rt_inv_def)
  have t1: "table_at s1 (pde_index v) \<noteq> 0" using v(3) by (simp add: table_at_def same)
  have fl: "flag_error v (PG_PRESENT OR PG_RW) = None" using v(2) by (auto simp: flag_error_def PG_PRESENT_def PG_RW_def PG_USER_def)
  have n1: "translate s1 v = None" using n by (simp add: same)
  let ?e = "(push_bit 12 f AND 0xFFFFF000) OR ((PG_PRESENT OR PG_RW) AND 0xFFF) OR PG_PRESENT"
  have m: "paging_map_page v (push_bit 12 f) (PG_PRESENT OR PG_RW) s1 = Some (PAGING_OK, set_pte v ?e s1)"
    using map_present [OF inv1(1) v(1) s1(6) fl t1] n1 by (simp add: PG_PRESENT_def PG_RW_def PG_USER_def)
  have ee: "entry_of ?e = Some (push_bit 12 f, PG_PRESENT OR PG_RW)"
    using entry_bits [OF s1(6), of "PG_PRESENT OR PG_RW"] by (simp add: PG_PRESENT_def PG_RW_def)
  have tr: "mapped v (Some (push_bit 12 f, PG_PRESENT OR PG_RW)) (translate s) (translate (set_pte v ?e s1))"
    using set_pte_mapped [OF inv1(1) t1 v(1), of ?e] ee by (simp add: same)
  have "card (free_frames s) = card (free_frames s1) + 1"
    using s1(2,3) card_Suc_Diff1 [OF finite_free_frames s1(2)] by simp
  moreover have "{p \<in> set [v]. translate s p = None} = {v}" using n by auto
  moreover have "rt_inv (set_pte v ?e s1)" using set_pte_inv [OF inv1(1) t1] inv1(2) by (simp add: rt_inv_def)
  moreover have "paging_only s (set_pte v ?e s1)"
    by (rule paging_only_trans [OF pmm_only_paging_only [OF s1(5)] set_pte_paging_only])
  moreover have "page_tables_loc_phys (set_pte v ?e s1) = page_tables_loc_phys s" by (simp add: set_pte_def same)
  ultimately have "demand_mapped [v] s (set_pte v ?e s1)"
    using tr n s1(2,3) unfolding demand_mapped_def mapped_def by auto
  then show thesis by (rule that [OF s1(1) m])
qed

lemma demand_mapped_translate:
  assumes "demand_mapped ps s s'" "page_aligned w" "w \<notin> set ps \<or> translate s w \<noteq> None"
  shows "translate s' w = translate s w"
  using assms unfolding demand_mapped_def by (metis (no_types, lifting))

lemma demand_mapped_new:
  assumes "demand_mapped ps s s'" "page_aligned w" "w \<in> set ps" "translate s w = None"
  obtains f where "unat f \<in> free_frames s" "unat f \<notin> free_frames s'" "translate s' w = Some (push_bit 12 f, PG_PRESENT OR PG_RW)"
proof -
  have "if w \<in> set ps \<and> translate s w = None
         then \<exists>f. unat f \<in> free_frames s - free_frames s' \<and> translate s' w = Some (push_bit 12 f, PG_PRESENT OR PG_RW)
         else translate s' w = translate s w" using assms(1,2) unfolding demand_mapped_def by blast
  then show thesis using assms(3,4) that by auto
qed

lemma demand_mapped_Cons:
  assumes a: "demand_mapped [p] s s1" and b: "demand_mapped ps s1 s2" and p: "p \<notin> set ps" "page_aligned p"
    and al: "\<forall>q \<in> set ps. page_aligned q" and n: "translate s p = None"
  shows "demand_mapped (p # ps) s s2"
proof -
  have t1: "translate s1 q = translate s q" if "q \<in> set ps" for q
    using demand_mapped_translate [OF a] al p that by auto
  have set1: "{q \<in> set ps. translate s1 q = None} = {q \<in> set ps. translate s q = None}" using t1 by auto
  have c: "card {q \<in> set (p # ps). translate s q = None} = 1 + card {q \<in> set ps. translate s q = None}"
  proof -
    have "{q \<in> set (p # ps). translate s q = None} = insert p {q \<in> set ps. translate s q = None}" using n by auto
    then show ?thesis using p(1) by simp
  qed
  have cp: "card {q \<in> set [p]. translate s q = None} = 1" using n by (simp add: Collect_conv_if)
  have "\<forall>w. page_aligned w \<longrightarrow>
        (if w \<in> set (p # ps) \<and> translate s w = None
         then \<exists>f. unat f \<in> free_frames s - free_frames s2 \<and> translate s2 w = Some (push_bit 12 f, PG_PRESENT OR PG_RW)
         else translate s2 w = translate s w)"
  proof (intro allI impI)
    fix w :: u32 assume w: "page_aligned w"
    have sub: "free_frames s2 \<subseteq> free_frames s1" "free_frames s1 \<subseteq> free_frames s" using a b by (simp_all add: demand_mapped_def)
    show "if w \<in> set (p # ps) \<and> translate s w = None
         then \<exists>f. unat f \<in> free_frames s - free_frames s2 \<and> translate s2 w = Some (push_bit 12 f, PG_PRESENT OR PG_RW)
         else translate s2 w = translate s w"
    proof (cases "w = p")
      case True
      obtain f where f: "unat f \<in> free_frames s" "unat f \<notin> free_frames s1" "translate s1 p = Some (push_bit 12 f, PG_PRESENT OR PG_RW)"
        using demand_mapped_new [OF a p(2) _ n] by auto
      have "translate s2 p = translate s1 p" using demand_mapped_translate [OF b p(2)] p(1) by blast
      then show ?thesis using f sub True n by auto
    next
      case False
      have t: "translate s1 w = translate s w" using demand_mapped_translate [OF a w] False by auto
      show ?thesis
      proof (cases "w \<in> set ps \<and> translate s w = None")
        case True
        obtain f where f: "unat f \<in> free_frames s1" "unat f \<notin> free_frames s2" "translate s2 w = Some (push_bit 12 f, PG_PRESENT OR PG_RW)"
          using demand_mapped_new [OF b w] True t by auto
        then have "unat f \<in> free_frames s - free_frames s2" using sub by blast
        then show ?thesis using f(3) True by auto
      next
        case False
        then show ?thesis using demand_mapped_translate [OF b w] t \<open>w \<noteq> p\<close> by auto
      qed
    qed
  qed
  then show ?thesis using a b c cp set1 paging_only_trans unfolding demand_mapped_def by auto
qed

lemma map_element_pages_ok:
  assumes "rt_inv s" "distinct ps"
    and "\<forall>p \<in> set ps. page_aligned p \<and> KERNEL_VIRTUAL_BASE \<le> p \<and> table_at s (pde_index p) \<noteq> 0"
    and "card {p \<in> set ps. translate s p = None} \<le> card (free_frames s)"
  shows "\<exists>s'. map_element_pages ps dn s = Some (DPAGE_SUCCESS, s') \<and> demand_mapped ps s s'"
  using assms
proof (induction ps arbitrary: dn s)
  case Nil
  then show ?case using demand_mapped_refl [of s "[]"] by simp
next
  case (Cons p ps)
  have pg: "pg_inv s" using Cons.prems(1) by (simp add: rt_inv_def)
  show ?case
  proof (cases "translate s p = None")
    case False
    then have "{q \<in> set (p # ps). translate s q = None} = {q \<in> set ps. translate s q = None}" by auto
    then obtain s' where s': "map_element_pages ps (dn @ [(p, False)]) s = Some (DPAGE_SUCCESS, s')" "demand_mapped ps s s'"
      using Cons.IH [OF Cons.prems(1), of "dn @ [(p, False)]"] Cons.prems by auto
    moreover have "demand_mapped (p # ps) s s'"
    proof -
      have "{q \<in> set (p # ps). translate s q = None} = {q \<in> set ps. translate s q = None}" using False by auto
      moreover have "w \<in> set (p # ps) \<and> translate s w = None \<longleftrightarrow> w \<in> set ps \<and> translate s w = None" for w using False by auto
      ultimately show ?thesis using s'(2) unfolding demand_mapped_def by (simp only:) blast
    qed
    ultimately show ?thesis using False by (simp add: need_map_spec [OF pg])
  next
    case True
    have c: "card {q \<in> set (p # ps). translate s q = None} = 1 + card {q \<in> set ps. translate s q = None}"
    proof -
      have "{q \<in> set (p # ps). translate s q = None} = insert p {q \<in> set ps. translate s q = None}" using True by auto
      then show ?thesis using Cons.prems(2) by simp
    qed
    then have ne: "free_frames s \<noteq> {}" using Cons.prems(4) by auto
    obtain f s1 s2 where s2: "pmm_get_next_available_block s = Some ((f, PMM_ALLOC_SUCCESS), s1)"
      "paging_map_page p f (PG_PRESENT OR PG_RW) s1 = Some (PAGING_OK, s2)" "demand_mapped [p] s s2"
      using map_one_page [OF Cons.prems(1) _ _ _ True ne] Cons.prems(3) by auto
    have t2: "translate s2 q = translate s q" if "q \<in> set ps" for q
      using demand_mapped_translate [OF s2(3)] Cons.prems(2,3) that by auto
    have e: "{q \<in> set ps. translate s2 q = None} = {q \<in> set ps. translate s q = None}" using t2 by auto
    have "card {q \<in> set [p]. translate s q = None} = 1" using True by (simp add: Collect_conv_if)
    then have "card (free_frames s) = card (free_frames s2) + 1" using s2(3) by (simp add: demand_mapped_def)
    then have "card {q \<in> set ps. translate s2 q = None} \<le> card (free_frames s2)" using c Cons.prems(4) e by simp
    moreover have "rt_inv s2" "\<And>i. table_at s2 i = table_at s i" using s2(3) by (simp_all add: demand_mapped_def table_at_def)
    ultimately obtain s' where s': "map_element_pages ps (dn @ [(p, True)]) s2 = Some (DPAGE_SUCCESS, s')" "demand_mapped ps s2 s'"
      using Cons.IH [of s2 "dn @ [(p, True)]"] Cons.prems(2,3) by auto
    have "demand_mapped (p # ps) s s'"
      by (rule demand_mapped_Cons [OF s2(3) s'(2) _ _ _ True]) (use Cons.prems in auto)
    then show ?thesis using True s2(1,2) s'(1) by (simp add: need_map_spec [OF pg])
  qed
qed

section \<open>Allocation\<close>

lemma first_free_slot_spec:
  assumes "unat k + n \<le> bm_size bm" "bm_size bm < 2 ^ 32"
  shows "first_free_slot n k bm = Some None \<and> {unat k..<unat k + n} \<subseteq> bm_bits bm \<or>
    (\<exists>f. first_free_slot n k bm = Some (Some f) \<and> unat k \<le> unat f \<and> unat f < unat k + n \<and> unat f \<notin> bm_bits bm \<and>
       {unat k..<unat f} \<subseteq> bm_bits bm)"
  using assms(1)
proof (induction n arbitrary: k)
  case (Suc n)
  have t: "bitmap_test bm k = Some (unat k \<in> bm_bits bm)" using Suc.prems by (intro bitmap_test_in) simp
  show ?case
  proof (cases "unat k \<in> bm_bits bm")
    case True
    have k: "unat (k + 1) = unat k + 1" using Suc.prems assms(2) by (subst unat_add_u32) simp_all
    have e: "first_free_slot (Suc n) k bm = first_free_slot n (k + 1) bm" using t True by simp
    have i: "{unat k..<m} = insert (unat k) {unat (k + 1)..<m}" if "unat k < m" for m using that k by auto
    show ?thesis unfolding e using Suc.IH [of "k + 1"] Suc.prems True i k by fastforce
  next
    case False
    then show ?thesis using t by (intro disjI2 exI [of _ k]) simp
  qed
qed simp

lemma element_pages_kernel:
  assumes "KERNEL_VIRTUAL_BASE \<le> v" "0 < sz" "unat v + unat sz \<le> 2 ^ 32" "p \<in> set (element_pages v sz)"
  shows "page_aligned p" "KERNEL_VIRTUAL_BASE \<le> p"
proof -
  have "sz \<noteq> 0" using assms(2) by auto
  then have "unat (sz - 1) = unat sz - 1" by (simp add: unat_minus_one)
  then have "unat (v + (sz - 1)) = unat v + (unat sz - 1)" using assms(2,3) by (subst unat_add_u32) (simp_all add: word_less_nat_alt)
  then have "v \<le> v + sz - 1" by (simp add: word_le_nat_alt algebra_simps)
  then obtain w where w: "KERNEL_VIRTUAL_BASE \<le> w" "p = w AND 0xFFFFF000"
    using assms(1,4) by (auto simp: element_pages_def Let_def split: if_splits intro: order_trans)
  show "page_aligned p" by (simp add: w(2) page_aligned_unat unat_page)
  have "3221225472 \<le> unat w" using w(1) by (simp add: KERNEL_VIRTUAL_BASE_def word_le_nat_alt)
  then have "786432 \<le> unat w div 4096" by linarith
  then show "KERNEL_VIRTUAL_BASE \<le> p" by (simp add: w(2) KERNEL_VIRTUAL_BASE_def word_le_nat_alt unat_page)
qed

lemma element_pages_distinct: "distinct (element_pages v sz)" "card {p \<in> set (element_pages v sz). P p} \<le> 2"
proof -
  show "distinct (element_pages v sz)" by (auto simp: element_pages_def Let_def)
  have "card {p \<in> set (element_pages v sz). P p} \<le> card (set (element_pages v sz))" by (intro card_mono) auto
  also have "\<dots> \<le> length (element_pages v sz)" by (rule card_length)
  finally show "card {p \<in> set (element_pages v sz). P p} \<le> 2" by (auto simp: element_pages_def Let_def split: if_splits)
qed

text \<open>The last slot of a pool ends below the end of the address space, and the tables of its pages are present.\<close>

definition pool_ready :: "u32 \<Rightarrow> u32 \<Rightarrow> u32 \<Rightarrow> 'a paging_scheme \<Rightarrow> bool" where
  "pool_ready base sz bsz s \<longleftrightarrow> KERNEL_VIRTUAL_BASE \<le> base \<and> 0 < sz \<and> unat bsz \<le> 4096 \<and>
     unat base + unat bsz * 8 * unat sz \<le> 2 ^ 32 \<and>
     (\<forall>slot. unat slot < unat bsz * 8 \<longrightarrow>
        (\<forall>p \<in> set (element_pages (base + slot * sz) sz). table_at s (pde_index p) \<noteq> 0))"

lemma pool_slot:
  assumes "pool_ready base sz bsz s" "unat slot < unat bsz * 8"
  shows "unat (base + slot * sz) = unat base + unat slot * unat sz" "unat (base + slot * sz) + unat sz \<le> 2 ^ 32"
proof -
  have b: "unat base + unat bsz * 8 * unat sz \<le> 2 ^ 32" and z: "0 < unat sz" using assms(1) by (simp_all add: pool_ready_def word_less_nat_alt)
  have "(unat slot + 1) * unat sz \<le> unat bsz * 8 * unat sz" using assms(2) by (intro mult_le_mono1) simp
  then have le: "unat base + unat slot * unat sz + unat sz \<le> 2 ^ 32" using b by (simp add: algebra_simps)
  then have "unat base + unat slot * unat sz < 2 ^ 32" using z by linarith
  moreover have "base + slot * sz = of_nat (unat base + unat slot * unat sz)" by simp
  ultimately show "unat (base + slot * sz) = unat base + unat slot * unat sz"
    using unat_of_nat_u32 [of "unat base + unat slot * unat sz"] by (simp only:) simp
  with le show "unat (base + slot * sz) + unat sz \<le> 2 ^ 32" by simp
qed

lemma unat_bits_u32: "unat (b :: u32) \<le> 4096 \<Longrightarrow> unat (b * 8) = unat b * 8"
proof -
  assume "unat b \<le> 4096"
  moreover have "b * 8 = of_nat (unat b * 8)" by simp
  ultimately show ?thesis using unat_of_nat_u32 [of "unat b * 8"] by simp
qed


lemma undo_first_page_spec:
  assumes "rt_inv s" "page_aligned v" "translate s v = Some (push_bit 12 g, fl)" "data_frame s g"
  obtains s' where "undo_first_page v s = Some s'" "mapped v None (translate s) (translate s')"
    "free_frames s' = insert (unat g) (free_frames s)" "rt_inv s'"
proof -
  have inv: "pmm_inv s" "pg_inv s" using assms(1) by (simp_all add: rt_inv_def)
  have t: "table_at s (pde_index v) \<noteq> 0" using assms(3) walk_eq [OF inv(2), of v] by auto
  let ?s = "set_pte v 0 s"
  have u: "paging_unmap_page v s = Some ((PAGING_OK, push_bit 12 g), ?s)" using unmap_spec [OF inv(2) assms(2)] assms(3) by simp
  have d: "data_frame ?s g" using set_pte_keeps_data [OF inv(2) t] assms(4) by (auto simp: keeps_data_def)
  have i: "pmm_inv ?s" "pg_inv ?s" using inv set_pte_inv [OF inv(2) t] by simp_all
  have g: "unat g \<in> owned_frames ?s" "g \<noteq> 0" "page_directory_loc_phys ?s \<noteq> push_bit 12 g"
    "\<forall>i. unat i < 1024 \<longrightarrow> table_at ?s i \<noteq> push_bit 12 g" using d by (simp_all add: data_frame_def)
  obtain s' where s': "pmm_dealloc_specific_block (push_bit 12 g) ?s = Some (PMM_ALLOC_SUCCESS, s')"
    "pmm_inv s'" "pmm_only ?s s'" "free_frames s' = insert (unat g) (free_frames ?s)" by (rule dealloc_step [OF i(1) g(1)])
  have "mapped v None (translate s) (translate s')"
    using set_pte_mapped [OF inv(2) t assms(2), of 0] pmm_only_paging [OF s'(3)] by (simp add: entry_of_def)
  moreover have "rt_inv s'" using s'(2) pg_inv_grow [OF i(2) s'(3,4) g(2-4)] by (simp add: rt_inv_def)
  ultimately show thesis using that [of s'] u s'(1,4) by (simp add: undo_first_page_def)
qed

text \<open>
  (C31) When no frame is left and a slot reaches from a page that is mapped already into one that is not, the failed
  allocation unmaps the first page and gives its frame back, although this call did not map it and the other objects on
  the page are in use.
\<close>

theorem dpage_alloc_drops_shared_page:
  assumes "rt_inv s" "free_frames s = {}" "length bm = unat bsz" "unat bsz \<le> 4096"
    and "first_free_slot (unat (bsz * 8)) 0 bm = Some (Some slot)" "element_pages (base + slot * sz) sz = [p, q]"
    and "translate s p = Some (push_bit 12 g, fl)" "data_frame s g" "translate s q = None"
  shows "\<exists>bm' s'. dpage_alloc clear_element bm base vsz sz bsz s = Some ((0, DPAGE_PMM_INIT_FAILED), bm', s') \<and>
    bm_bits bm' = bm_bits bm \<and> translate s' p = None \<and> unat g \<in> free_frames s'"
proof -
  have inv: "pmm_inv s" "pg_inv s" using assms(1) by (simp_all add: rt_inv_def)
  have al: "page_aligned p" using assms(6) by (auto simp: element_pages_def Let_def page_aligned_unat unat_page split: if_splits)
  obtain s' where s': "undo_first_page p s = Some s'" "mapped p None (translate s) (translate s')"
    "free_frames s' = insert (unat g) (free_frames s)" by (rule undo_first_page_spec [OF assms(1) al assms(7,8)])
  have m: "map_element_pages [p, q] [] s = Some (DPAGE_PMM_INIT_FAILED, s')"
    using assms(7,9) s'(1) get_next_oom [OF inv(1) assms(2)] by (simp add: need_map_spec [OF inv(2)])
  have u: "unat (bsz * 8) = bm_size bm" using unat_bits_u32 [OF assms(4)] assms(3) by (simp add: bm_size_def)
  have sl: "unat slot < bm_size bm" "unat slot \<notin> bm_bits bm"
    using first_free_slot_spec [of 0 "bm_size bm" bm] assms(3-5) u by (auto simp: bm_size_def)
  obtain b1 where b1: "bitmap_set bm slot = Some b1" "length b1 = length bm" "bm_bits b1 = insert (unat slot) (bm_bits bm)"
    by (rule bitmap_set_in [OF sl(1)])
  obtain b2 where b2: "bitmap_clear b1 slot = Some b2" "bm_bits b2 = bm_bits b1 - {unat slot}"
    using bitmap_clear_in [of slot b1] sl(1) b1(2) by (auto simp: bm_size_def)
  have "dpage_alloc clear_element bm base vsz sz bsz s = Some ((0, DPAGE_PMM_INIT_FAILED), b2, s')"
    using assms(5,6) m b1(1) b2(1) sl(1) u
    by (simp add: dpage_alloc_def dpage_bm_slot_to_vaddr_def Let_def dpage_bm_set_def dpage_bm_clear_def word_le_nat_alt)
  moreover have "bm_bits b2 = bm_bits bm" using b1(3) b2(2) sl(2) by auto
  ultimately show ?thesis using s'(2,3) al by (auto simp: mapped_def)
qed

text \<open>Examples: a state whose tables cover the start of the upper half, and one in which no frame is left.\<close>

lemma ex_kernel_table:
  "\<exists>s :: paging. as_inv s \<and> table_at s (pde_index 0xC0000000) \<noteq> 0 \<and> 2 \<le> card (free_frames s) \<and>
     translate s 0xC0000000 = Some (push_bit 12 11, 3) \<and> translate s 0xC0001000 = None \<and> data_frame s 11"
proof -
  have a: "page_aligned 0xC0000000" "page_aligned 0xC0001000" "page_aligned (push_bit 12 (11 :: u32))" by (simp_all add: page_aligned_def)
  have fe: "flag_error 0xC0000000 3 = None" by (simp add: flag_error_def KERNEL_VIRTUAL_BASE_def PG_USER_def)
  have i: "pde_index 0xC0000000 = 768" "pde_index 0xC0001000 = 768" by (simp_all add: pde_index_def)
  have t: "table_at ex_paging 768 = 0" using ex_paging_tables(1) [of 768] by simp
  have n: "translate ex_paging 0xC0000000 = None" "translate ex_paging 0xC0001000 = None"
    using walk_eq [OF as_invD(2) [OF ex_paging_inv]] i t by simp_all
  have c: "card (free_frames ex_paging) = 4" by (simp add: ex_paging_pmm(2))
  have "unat (11 :: u32) \<in> owned_frames ex_paging"
    unfolding owned_diff_free [OF ex_paging_pmm(1)] ex_paging_pmm(2)
    by (simp add: ex_paging_def reserved_frames_def touched_def live_region_def)
  then have df: "data_frame ex_paging 11"
    using ex_paging_tables(1) by (auto simp: data_frame_def) (simp add: ex_paging_def)
  have pt: "\<not> page_table_count ex_paging \<ge> PT_MAX" by (simp add: ex_paging_def PT_MAX_def word_le_nat_alt)
  show ?thesis
  proof (rule map_cases [OF ex_paging_inv a(1,3) fe])
    fix s' assume s': "as_inv s'" "mapped 0xC0000000 (Some (push_bit 12 11, 3 AND 0xFFF OR PG_PRESENT)) (translate ex_paging) (translate s')"
      "keeps_data ex_paging s'" "card (free_frames ex_paging) \<le> card (free_frames s') + 1"
    have tr: "translate s' 0xC0000000 = Some (push_bit 12 11, 3)" "translate s' 0xC0001000 = None"
      using s'(2) a n by (simp_all add: mapped_def PG_PRESENT_def)
    moreover have "table_at s' (pde_index 0xC0000000) \<noteq> 0" using tr(1) walk_eq [OF as_invD(2) [OF s'(1)], of "0xC0000000"] by auto
    moreover have "data_frame s' 11" using s'(3) df by (simp add: keeps_data_def)
    ultimately show ?thesis using s'(1,4) c by auto
  next
    fix r assume "r = PAGING_ERR_NOMEM \<and> (free_frames ex_paging = {} \<or> page_table_count ex_paging \<ge> PT_MAX) \<or>
       r = PAGING_ERR_ALREADY_MAPPED \<and> translate ex_paging 0xC0000000 \<noteq> None \<or>
       r = PAGING_ERR_PT_USER_FLAG_MISMATCH \<and> 3 AND PG_USER \<noteq> 0 \<and> pde_at ex_paging (pde_index 0xC0000000) AND PG_USER = 0"
    moreover have "free_frames ex_paging \<noteq> {}" using c by auto
    ultimately show ?thesis using n pt by (simp add: PG_USER_def)
  qed
qed

lemma exhaust_frames:
  "rt_inv s \<Longrightarrow> \<exists>s'. rt_inv s' \<and> free_frames s' = {} \<and> translate s' = translate s \<and> keeps_data s s'"
proof (induction "card (free_frames s)" arbitrary: s)
  case 0
  then show ?case by auto
next
  case (Suc n)
  then have ne: "free_frames s \<noteq> {}" by auto
  obtain f s1 where s1: "pmm_get_next_available_block s = Some ((push_bit 12 f, PMM_ALLOC_SUCCESS), s1)"
    "unat f \<in> free_frames s" "free_frames s1 = free_frames s - {unat f}" "rt_inv s1" "pmm_only s s1"
    by (rule take_block_rt [OF Suc.prems ne])
  have "n = card (free_frames s1)" using Suc.hyps(2) s1(2,3) by simp
  then obtain s' where "rt_inv s'" "free_frames s' = {}" "translate s' = translate s1" "keeps_data s1 s'"
    using Suc.hyps(1) s1(4) by blast
  moreover have "keeps_data s s1" using pmm_only_keeps_data [OF s1(5)] s1(3) by auto
  moreover have "translate s1 = translate s" using pmm_only_paging [OF s1(5)] by simp
  ultimately show ?case using keeps_data_trans by metis
qed


theorem dpage_alloc_drops_shared_page_witness:
  "\<exists>(s :: paging) bm' s'. translate s 0xC0000000 = Some (push_bit 12 11, 3) \<and>
     dpage_alloc (\<lambda>_ s. s) [0] 0xC0000F80 0x1000 0x100 1 s = Some ((0, DPAGE_PMM_INIT_FAILED), bm', s') \<and>
     translate s' 0xC0000000 = None \<and> 11 \<in> free_frames s'"
proof -
  obtain s0 :: paging where s0: "as_inv s0" "translate s0 0xC0000000 = Some (push_bit 12 11, 3)" "translate s0 0xC0001000 = None"
    "data_frame s0 11" using ex_kernel_table by blast
  have "rt_inv s0" using as_invD [OF s0(1)] by (simp add: rt_inv_def)
  then obtain s where s: "rt_inv s" "free_frames s = {}" "translate s = translate s0" "keeps_data s0 s" using exhaust_frames by blast
  have d: "data_frame s 11" using s(4) s0(4) by (simp add: keeps_data_def)
  have f: "first_free_slot (unat ((1 :: u32) * 8)) 0 [0] = Some (Some 0)" by code_simp
  have e: "element_pages (0xC0000F80 + 0 * 0x100) 0x100 = [0xC0000000, 0xC0001000]" by code_simp
  show ?thesis
    using dpage_alloc_drops_shared_page [OF s(1,2) _ _ f e _ d, where fl = 3 and clear_element = "\<lambda>_ s. s" and vsz = "0x1000"]
      s(3) s0(2,3) by (intro exI [of _ s]) auto
qed

end
