(* ===== verification/Linked_List.thy ===== *)
theory Linked_List
  imports Kernel_Prelude
begin

text \<open>
  Singly linked lists in a heap. The kernel keeps its processes, threads, memory areas and file
  descriptors in lists threaded through a \<^verbatim>\<open>next\<close> field. Here a list is a \<open>next\<close> function and a head;
  \<open>list_at\<close> relates them to the HOL list of the nodes. The loops of the C code that run along such a
  list are instances of two loops, \<open>walk_until\<close> and \<open>cycle_until\<close>; both are partial, since a damaged
  list can be cyclic, and both return on a list.
\<close>

section \<open>Lists and their loops\<close>

text \<open>Pointers are addresses; 0 is the null pointer.\<close>

definition ptr :: "u32 \<Rightarrow> u32 option" where
  "ptr p = (if p = 0 then None else Some p)"

lemma ptr_simps [simp]: "ptr 0 = None" "p \<noteq> 0 \<Longrightarrow> ptr p = Some p" "ptr p = None \<longleftrightarrow> p = 0"
  "ptr p = Some q \<longleftrightarrow> p = q \<and> q \<noteq> 0"
  by (auto simp: ptr_def)

fun list_at :: "('p \<Rightarrow> 'p option) \<Rightarrow> 'p option \<Rightarrow> 'p list \<Rightarrow> bool" where
  "list_at nx p [] \<longleftrightarrow> p = None"
| "list_at nx p (x # xs) \<longleftrightarrow> p = Some x \<and> x \<notin> set xs \<and> list_at nx (nx x) xs"

text \<open>\<^verbatim>\<open>while (it && !stop(it)) it = it->next;\<close> and the final value of \<^verbatim>\<open>it\<close>.\<close>

partial_function (option) walk_until ::
  "('p \<Rightarrow> bool) \<Rightarrow> ('p \<Rightarrow> 'p option) \<Rightarrow> 'p option \<Rightarrow> 'p option option" where
  "walk_until stop nx p =
     (case p of None \<Rightarrow> Some None
      | Some x \<Rightarrow> if stop x then Some (Some x) else walk_until stop nx (nx x))"

text \<open>\<^verbatim>\<open>do { if (stop(t)) return t; t = t->next; } while (t && t != begin); return NULL;\<close>\<close>

partial_function (option) cycle_until ::
  "('p \<Rightarrow> bool) \<Rightarrow> ('p \<Rightarrow> 'p option) \<Rightarrow> 'p \<Rightarrow> 'p \<Rightarrow> 'p option option" where
  "cycle_until stop nx begin t =
     (if stop t then Some (Some t)
      else (case nx t of None \<Rightarrow> Some None
            | Some u \<Rightarrow> if u = begin then Some None else cycle_until stop nx begin u))"

lemma list_at_distinct: "list_at nx p xs \<Longrightarrow> distinct xs"
  by (induction xs arbitrary: p) auto

lemma list_at_unique: "list_at nx p xs \<Longrightarrow> list_at nx p ys \<Longrightarrow> xs = ys"
proof (induction xs arbitrary: p ys)
  case Nil
  then show ?case by (cases ys) auto
next
  case (Cons x xs)
  then show ?case by (cases ys) auto
qed

text \<open>A loop along a list stops at the first node that satisfies the condition.\<close>

lemma walk_until_find:
  assumes "list_at nx p xs"
  shows "walk_until stop nx p = Some (find stop xs)"
  using assms
proof (induction xs arbitrary: p)
  case Nil
  then show ?case by (simp add: walk_until.simps)
next
  case (Cons x xs)
  then show ?case by (simp add: walk_until.simps [of stop nx "Some x"])
qed

lemma list_at_head: "list_at nx p xs \<Longrightarrow> p = (case xs of [] \<Rightarrow> None | x # _ \<Rightarrow> Some x)"
  by (cases xs) auto

lemma list_at_None [simp]: "list_at nx None xs \<longleftrightarrow> xs = []"
  by (cases xs) auto

lemma list_at_cong:
  "(\<And>x. x \<in> set xs \<Longrightarrow> nx x = nx' x) \<Longrightarrow> list_at nx p xs = list_at nx' p xs"
  by (induction xs arbitrary: p) auto

lemma list_at_update_other [simp]:
  "y \<notin> set xs \<Longrightarrow> list_at (nx(y := v)) p xs = list_at nx p xs"
  by (rule list_at_cong) auto

text \<open>Segments: the nodes from \<open>p\<close> up to, but not including, \<open>q\<close>.\<close>

fun seg :: "('p \<Rightarrow> 'p option) \<Rightarrow> 'p option \<Rightarrow> 'p list \<Rightarrow> 'p option \<Rightarrow> bool" where
  "seg nx p [] q \<longleftrightarrow> p = q"
| "seg nx p (x # xs) q \<longleftrightarrow> p = Some x \<and> seg nx (nx x) xs q"

lemma seg_append: "seg nx p (xs @ ys) q \<longleftrightarrow> (\<exists>r. seg nx p xs r \<and> seg nx r ys q)"
  by (induction xs arbitrary: p) auto

lemma seg_cong: "(\<And>x. x \<in> set xs \<Longrightarrow> nx x = nx' x) \<Longrightarrow> seg nx p xs q = seg nx' p xs q"
  by (induction xs arbitrary: p) auto

lemma seg_update_other [simp]: "y \<notin> set xs \<Longrightarrow> seg (nx(y := v)) p xs q = seg nx p xs q"
  by (rule seg_cong) auto

lemma list_at_seg: "list_at nx p xs \<longleftrightarrow> distinct xs \<and> seg nx p xs None"
  by (induction xs arbitrary: p) auto

lemma seg_next:
  assumes "seg nx p (xs @ x # y # ys) q"
  shows "nx x = Some y"
  using assms by (auto simp: seg_append)

lemma seg_last: "seg nx p (xs @ [x]) q \<Longrightarrow> nx x = q"
  by (auto simp: seg_append)


section \<open>Changing a list\<close>

lemma list_at_push:
  assumes "list_at nx p xs" "x \<notin> set xs"
  shows "list_at (nx(x := p)) (Some x) (x # xs)"
  using assms by simp

lemma list_at_insert_after:
  assumes "list_at nx p (xs @ a # ys)" "x \<notin> set (xs @ a # ys)"
  shows "list_at (nx(x := nx a, a := Some x)) p (xs @ a # x # ys)"
  using assms by (auto simp: list_at_seg seg_append)

lemma list_at_append:
  assumes "list_at nx p (xs @ [a])" "x \<notin> set (xs @ [a])"
  shows "list_at (nx(a := Some x, x := None)) p (xs @ [a, x])"
  using assms by (auto simp: list_at_seg seg_append)

lemma list_at_delete_after:
  assumes "list_at nx p (xs @ a # x # ys)"
  shows "list_at (nx(a := nx x)) p (xs @ a # ys)"
  using assms by (auto simp: list_at_seg seg_append)

lemma list_at_tail: "list_at nx p (x # xs) \<Longrightarrow> list_at nx (nx x) xs"
  by simp

text \<open>The node before \<open>t\<close>, and the last node, as the loops find them.\<close>

lemma list_at_next_iff:
  assumes "list_at nx p (xs @ a # t # ys)" "x \<in> set (xs @ a # t # ys)"
  shows "nx x = Some t \<longleftrightarrow> x = a"
proof -
  let ?zs = "xs @ a # t # ys"
  have d: "distinct ?zs" and s: "seg nx p ?zs None" using assms(1) by (simp_all add: list_at_seg)
  have a: "nx a = Some t" using s by (rule seg_next)
  obtain us vs where x: "?zs = us @ x # vs" using split_list [OF assms(2)] by blast
  have "x = a" if n: "nx x = Some t"
  proof (cases vs)
    case Nil
    then show ?thesis using s n x by (simp add: seg_last)
  next
    case (Cons v vs')
    then have "v = t" using s n x seg_next by fastforce
    with x Cons have eq: "xs @ a # t # ys = us @ x # t # vs'" by simp
    have "t \<notin> set (xs @ [a])" "t \<notin> set ys" using d by auto
    moreover have "(xs @ [a]) @ t # ys = (us @ [x]) @ t # vs'" using eq by simp
    ultimately have "xs @ [a] = us @ [x]" using append_Cons_eq_iff by metis
    then show ?thesis by simp
  qed
  with a show ?thesis by blast
qed

lemma find_append: "find P (xs @ ys) = (case find P xs of None \<Rightarrow> find P ys | Some x \<Rightarrow> Some x)"
  by (induction xs) auto

lemma find_split:
  "find P xs = Some a \<Longrightarrow> \<exists>us ws. xs = us @ a # ws \<and> P a \<and> (\<forall>u \<in> set us. \<not> P u)"
proof (induction xs)
  case (Cons x xs)
  show ?case
  proof (cases "P x")
    case True
    then have "x # xs = [] @ a # xs \<and> P a" using Cons.prems by simp
    then show ?thesis by fastforce
  next
    case False
    then obtain us ws where "xs = us @ a # ws" "P a" "\<forall>u \<in> set us. \<not> P u" using Cons by auto
    then have "x # xs = (x # us) @ a # ws \<and> P a \<and> (\<forall>u \<in> set (x # us). \<not> P u)" using False by simp
    then show ?thesis by blast
  qed
qed simp

lemma list_at_find_prev:
  assumes "list_at nx p (xs @ a # t # ys)"
  shows "find (\<lambda>x. nx x = Some t) (xs @ a # t # ys) = Some a"
proof -
  have d: "distinct (xs @ a # t # ys)" using assms by (rule list_at_distinct)
  have "find (\<lambda>x. nx x = Some t) xs = None"
    using list_at_next_iff [OF assms] d by (auto simp: find_None_iff)
  moreover have "nx a = Some t" using list_at_next_iff [OF assms, of a] by simp
  ultimately show ?thesis by (simp add: find_append)
qed

lemma list_at_find_prev_None:
  assumes "list_at nx p xs" "t \<notin> set (tl xs)"
  shows "find (\<lambda>x. nx x = Some t) xs = None"
  using assms
proof (induction xs arbitrary: p)
  case (Cons x xs)
  have "nx x \<noteq> Some t" using Cons.prems by (cases xs) auto
  moreover have "t \<notin> set (tl xs)" using Cons.prems by (cases xs) auto
  ultimately show ?case using Cons.IH [of "nx x"] Cons.prems by simp
qed simp

lemma list_at_find_last:
  assumes "list_at nx p (xs @ [a])"
  shows "find (\<lambda>x. nx x = None) (xs @ [a]) = Some a"
  using assms
proof (induction xs arbitrary: p)
  case (Cons x xs)
  have "nx x \<noteq> None" using Cons.prems by (cases xs) auto
  with Cons.IH [of "nx x"] Cons.prems show ?case by simp
qed simp


section \<open>Rings\<close>

text \<open>A circular list, given by its nodes from some starting node.\<close>

definition ring :: "('p \<Rightarrow> 'p option) \<Rightarrow> 'p list \<Rightarrow> bool" where
  "ring nx xs \<longleftrightarrow> xs \<noteq> [] \<and> distinct xs \<and> seg nx (Some (hd xs)) xs (Some (hd xs))"

lemma ring_next:
  assumes "ring nx (xs @ x # ys)"
  shows "nx x = Some (hd (ys @ xs @ [x]))"
  using assms by (cases xs; cases ys) (auto simp: ring_def seg_append)

lemma ring_rotate:
  assumes "ring nx (xs @ ys)"
  shows "ring nx (ys @ xs)"
proof (cases "xs = [] \<or> ys = []")
  case True
  with assms show ?thesis by auto
next
  case False
  then obtain x xs' y ys' where "xs = x # xs'" "ys = y # ys'" by (cases xs; cases ys) auto
  with assms show ?thesis by (auto simp: ring_def seg_append)
qed

lemma ring_append:
  assumes "ring nx (xs @ [a])" "x \<notin> set (xs @ [a])"
  shows "ring (nx(a := Some x, x := Some (hd (xs @ [a])))) (xs @ [a, x])"
  using assms by (cases xs) (auto simp: ring_def seg_append)

lemma ring_delete_after:
  assumes "ring nx (xs @ a # x # ys)"
  shows "ring (nx(a := nx x)) (xs @ a # ys)"
  using assms by (cases xs; cases ys) (auto simp: ring_def seg_append)

lemma ring_delete_head:
  assumes "ring nx (x # ys @ [a])"
  shows "ring (nx(a := nx x)) (ys @ [a])"
  using assms by (cases ys) (auto simp: ring_def seg_append)

lemma ring_update_other [simp]: "y \<notin> set xs \<Longrightarrow> ring (nx(y := v)) xs = ring nx xs"
  by (simp add: ring_def)

text \<open>The loop around a ring finds the first node in ring order.\<close>

lemma cycle_until_find:
  assumes "ring nx (b # xs)"
  shows "cycle_until stop nx b b = Some (find stop (b # xs))"
proof -
  have "cycle_until stop nx b x = Some (find stop (x # ys))"
    if "seg nx (nx x) ys (Some b)" "b \<notin> set ys" for x ys
    using that
  proof (induction ys arbitrary: x)
    case Nil
    then show ?case by (simp add: cycle_until.simps)
  next
    case (Cons y ys)
    then show ?case by (auto simp: cycle_until.simps [of stop nx b x])
  qed
  moreover have "seg nx (nx b) xs (Some b)" "b \<notin> set xs" using assms by (auto simp: ring_def)
  ultimately show ?thesis by blast
qed

section \<open>Link fields of a store\<close>

text \<open>
  A link field of a store of records: \<open>nx\<close> reads it and \<open>set_nx\<close> assigns it. The changes the kernel makes
  to its lists are assignments of such a field.
\<close>

locale link_field =
  fixes nx :: "'s \<Rightarrow> u32 \<Rightarrow> u32 option"
    and set_nx :: "u32 \<Rightarrow> u32 \<Rightarrow> 's \<Rightarrow> 's"
  assumes nx_set: "nx (set_nx p q s) = (nx s)(p := ptr q)"
begin

lemma push:
  assumes "list_at (nx s) (ptr h) xs" "x \<notin> set xs" "x \<noteq> 0"
  shows "list_at (nx (set_nx x h s)) (ptr x) (x # xs)"
  using assms by (simp add: nx_set)

lemma insert_after:
  assumes "list_at (nx s) h (xs @ a # ys)" "x \<notin> set (xs @ a # ys)" "x \<noteq> 0" "nx s a = ptr q"
  shows "list_at (nx (set_nx a x (set_nx x q s))) h (xs @ a # x # ys)"
  using list_at_insert_after [OF assms(1,2)] assms by (simp add: nx_set)

lemma append_last:
  assumes "list_at (nx s) h (xs @ [a])" "x \<notin> set (xs @ [a])" "x \<noteq> 0" "nx s x = None"
  shows "list_at (nx (set_nx a x s)) h (xs @ [a, x])"
proof -
  have "nx (set_nx a x s) = (nx s)(a := Some x, x := None)" using assms by (auto simp: nx_set)
  with list_at_append [OF assms(1,2)] show ?thesis by simp
qed

lemma delete_after:
  assumes "list_at (nx s) h (xs @ a # x # ys)" "nx s x = ptr q"
  shows "list_at (nx (set_nx a q s)) h (xs @ a # ys)"
  using list_at_delete_after [OF assms(1)] assms(2) by (simp add: nx_set)

lemma delete_reset:
  assumes "list_at (nx s) h (xs @ a # x # ys)" "nx s x = ptr q"
  shows "list_at (nx (set_nx x q' (set_nx a q s))) h (xs @ a # ys)"
  using delete_after [OF assms] list_at_distinct [OF assms(1)] by (auto simp: nx_set)

lemma ring_join:
  assumes "ring (nx s) (xs @ [a])" "x \<notin> set (xs @ [a])" "0 \<notin> set (x # xs @ [a])"
  shows "ring (nx (set_nx x (hd (xs @ [a])) (set_nx a x s))) (xs @ [a, x])"
proof -
  have "hd (xs @ [a]) \<noteq> 0" using assms(3) by (cases xs) auto
  then show ?thesis using ring_append [OF assms(1,2)] assms(3) by (simp add: nx_set)
qed

lemma ring_drop_after:
  assumes "ring (nx s) (xs @ a # x # ys)" "nx s x = ptr q"
  shows "ring (nx (set_nx a q s)) (xs @ a # ys)"
  using ring_delete_after [OF assms(1)] assms(2) by (simp add: nx_set)

lemma ring_drop_head:
  assumes "ring (nx s) (x # ys @ [a])" "nx s x = ptr q"
  shows "ring (nx (set_nx a q s)) (ys @ [a])"
  using ring_delete_head [OF assms(1)] assms(2) by (simp add: nx_set)

lemma list_at_reset: "x \<notin> set xs \<Longrightarrow> list_at (nx (set_nx x q s)) h xs = list_at (nx s) h xs"
  by (simp add: nx_set)

lemma ring_reset: "x \<notin> set xs \<Longrightarrow> ring (nx (set_nx x q s)) xs = ring (nx s) xs"
  by (simp add: nx_set)

end

lemma walk_until_seg:
  assumes "seg nx p xs q" "find stop xs = Some y"
  shows "walk_until stop nx p = Some (Some y)"
  using assms
proof (induction xs arbitrary: p)
  case (Cons x xs)
  then show ?case by (auto simp: walk_until.simps [of stop nx "Some x"] split: if_splits)
qed simp

lemma ring_find_last:
  assumes "ring nx (xs @ [a])"
  shows "find (\<lambda>x. nx x = Some (hd (xs @ [a]))) (xs @ [a]) = Some a"
proof -
  have d: "distinct (xs @ [a])" and s: "seg nx (Some (hd (xs @ [a]))) (xs @ [a]) (Some (hd (xs @ [a])))"
    using assms by (simp_all add: ring_def)
  have "nx x \<noteq> Some (hd (xs @ [a]))" if x: "x \<in> set xs" for x
  proof -
    obtain us vs where e: "xs = us @ x # vs" using split_list [OF x] by blast
    then obtain v ws where v: "vs @ [a] = v # ws" by (cases vs) auto
    have "nx x = Some v" using s e v by (auto simp: seg_append)
    moreover have "v \<noteq> hd (xs @ [a])"
    proof
      assume "v = hd (xs @ [a])"
      then have "v \<in> set (us @ [x])" using e by (cases us) auto
      moreover have "v \<in> set (vs @ [a])" using v by simp
      ultimately show False using d e by auto
    qed
    ultimately show ?thesis by simp
  qed
  then have "find (\<lambda>x. nx x = Some (hd (xs @ [a]))) xs = None" by (auto simp: find_None_iff)
  moreover have "nx a = Some (hd (xs @ [a]))" using s by (rule seg_last)
  ultimately show ?thesis by (simp add: find_append)
qed

section \<open>Successors in a list\<close>

lemma list_at_next:
  assumes "list_at nx p (us @ x # v # vs)"
  shows "nx x = Some v"
  using assms by (auto simp: list_at_seg intro: seg_next)

lemma list_at_last:
  assumes "list_at nx p (us @ [x])"
  shows "nx x = None"
  using assms by (auto simp: list_at_seg intro: seg_last)

lemma list_at_next_in:
  assumes l: "list_at nx p (xs @ ys)" and ys: "ys \<noteq> []" and x: "x \<in> set xs"
  obtains v where "nx x = Some v" "v \<in> set (tl xs @ [hd ys])"
proof -
  obtain u1 u2 where u: "xs = u1 @ x # u2" using split_list [OF x] by blast
  obtain v vs where v: "u2 @ ys = v # vs" using ys by (cases "u2 @ ys") auto
  have "nx x = Some v" using l u v list_at_next [of nx p u1 x v vs] by simp
  moreover have "v \<in> set (tl xs @ [hd ys])" using u v ys by (cases u1; cases u2) auto
  ultimately show ?thesis by (rule that)
qed

lemma list_at_next_notin:
  assumes l: "list_at nx p zs" and t: "t \<notin> set (tl zs)" and x: "x \<in> set zs"
  shows "nx x \<noteq> Some t"
  using list_at_find_prev_None [OF l t] x by (simp add: find_None_iff)

text \<open>A loop that looks for the node before \<open>t\<close> and stops at the last node if there is none.\<close>

lemma find_prev_or_last:
  assumes l: "list_at nx p (xs @ a # ys)" and y: "ys = [] \<and> t \<notin> set (tl (xs @ [a])) \<or> (\<exists>vs. ys = t # vs)"
  shows "find (\<lambda>x. nx x = None \<or> nx x = Some t) (xs @ a # ys) = Some a"
proof -
  have "\<not> (nx x = None \<or> nx x = Some t)" if x: "x \<in> set xs" for x
  proof -
    obtain v where v: "nx x = Some v" "v \<in> set (tl xs @ [a])"
      using list_at_next_in [OF l _ x] by auto
    moreover have "distinct (xs @ a # ys)" using l by (rule list_at_distinct)
    ultimately show ?thesis using y x by (cases xs) auto
  qed
  moreover have "nx a = None \<or> nx a = Some t"
    using y l list_at_last [of nx p xs a] list_at_next [of nx p xs a t] by auto
  ultimately show ?thesis by (simp add: find_append find_None_iff[THEN iffD2])
qed

end
