(* ===== verification/Vma.thy ===== *)
theory Vma
  imports Kva Dpage Linked_List
begin

text \<open>
  Areas of a user address space (\<^verbatim>\<open>vma.c\<close>, \<^verbatim>\<open>mm.h\<close>). The structures \<^verbatim>\<open>vma_t\<close> and \<^verbatim>\<open>mm_t\<close> live in
  demand-paged pools; here each pool is its bitmap and a store from addresses to records. The areas of
  one \<^verbatim>\<open>mm_t\<close> form a list that is sorted by start address. \<^verbatim>\<open>mm_map_region\<close> writes the page tables of an
  address space that need not be the loaded one.
\<close>

section \<open>Structures\<close>

definition VMA_TEXT :: u32 where "VMA_TEXT = 1"
definition VMA_RODATA :: u32 where "VMA_RODATA = 2"
definition VMA_DATA :: u32 where "VMA_DATA = 3"
definition VMA_BSS :: u32 where "VMA_BSS = 4"
definition VMA_STACK :: u32 where "VMA_STACK = 5"
definition VMA_HEAP :: u32 where "VMA_HEAP = 6"
definition VMA_ANON :: u32 where "VMA_ANON = 7"

definition VMA_PROT_READ :: u32 where "VMA_PROT_READ = 1"
definition VMA_PROT_WRITE :: u32 where "VMA_PROT_WRITE = 2"
definition VMA_PROT_EXEC :: u32 where "VMA_PROT_EXEC = 4"

record vma =
  v_start :: u32
  v_end :: u32
  v_type :: u32
  v_prot :: u32
  v_next :: u32
  v_slot_id :: u32

record mm =
  cr3_phys :: u32
  refcount :: u32
  user_base :: u32
  user_limit :: u32
  page_count :: u32
  mm_slot_id :: u32
  vma_head :: u32
  brk_start :: u32
  brk_current :: u32

definition SIZEOF_VMA :: u32 where "SIZEOF_VMA = 24"
definition SIZEOF_MM :: u32 where "SIZEOF_MM = 36"

definition zero_vma :: vma where
  "zero_vma = \<lparr>v_start = 0, v_end = 0, v_type = 0, v_prot = 0, v_next = 0, v_slot_id = 0\<rparr>"

definition zero_mm :: mm where
  "zero_mm = \<lparr>cr3_phys = 0, refcount = 0, user_base = 0, user_limit = 0, page_count = 0, mm_slot_id = 0,
     vma_head = 0, brk_start = 0, brk_current = 0\<rparr>"

record vm = kva +
  vma_vaddr_bitmap :: bitmap
  vmas :: "u32 \<Rightarrow> vma"
  mm_vaddr_bitmap :: bitmap
  mms :: "u32 \<Rightarrow> mm"

definition upd_vma :: "u32 \<Rightarrow> (vma \<Rightarrow> vma) \<Rightarrow> 'a vm_scheme \<Rightarrow> 'a vm_scheme" where
  "upd_vma p f s = s\<lparr>vmas := (vmas s)(p := f (vmas s p))\<rparr>"

definition upd_mm :: "u32 \<Rightarrow> (mm \<Rightarrow> mm) \<Rightarrow> 'a vm_scheme \<Rightarrow> 'a vm_scheme" where
  "upd_mm p f s = s\<lparr>mms := (mms s)(p := f (mms s p))\<rparr>"


section \<open>The pool of areas\<close>

definition VMA_BITMAP_BASE :: u32 where "VMA_BITMAP_BASE = VMA_VIRTUAL_BASE - 0x1000"
definition MMS_BITMAP_BASE :: u32 where "MMS_BITMAP_BASE = MMS_VIRTUAL_BASE - 0x1000"

definition vma_vaddr_size_bytes :: u32 where
  "vma_vaddr_size_bytes = (MMS_BITMAP_BASE - VMA_VIRTUAL_BASE) AND 0xFFFFF000"

definition clear_vma_page :: "u32 \<Rightarrow> 'a vm_scheme \<Rightarrow> 'a vm_scheme" where
  "clear_vma_page base s = s\<lparr>vmas := (\<lambda>p. if p - base < 4096 then zero_vma else vmas s p)\<rparr>"

definition vma_init :: "'a vm_scheme \<Rightarrow> 'a vm_scheme option" where
  "vma_init s = do {
     (ok, bm, s) \<leftarrow> dpage_init clear_vma_page VMA_BITMAP_BASE VMA_VIRTUAL_BASE (vma_vaddr_bitmap s) s;
     if \<not> ok then None else Some (s\<lparr>vma_vaddr_bitmap := bm\<rparr>) }"

definition vma_alloc :: "'a vm_scheme \<Rightarrow> (u32 \<times> 'a vm_scheme) option" where
  "vma_alloc s = do {
     ((ret, _), bm, s) \<leftarrow> dpage_alloc (\<lambda>p. upd_vma p (\<lambda>_. zero_vma)) (vma_vaddr_bitmap s)
        VMA_VIRTUAL_BASE vma_vaddr_size_bytes SIZEOF_VMA (vma_vaddr_size_bytes div 8) s;
     let s = s\<lparr>vma_vaddr_bitmap := bm\<rparr>;
     if ret = 0 then Some (0, s)
     else Some (ret, upd_vma ret (\<lambda>v. v\<lparr>v_start := 0, v_end := 0, v_type := 0, v_prot := 0, v_next := 0,
                       v_slot_id := (ret - VMA_VIRTUAL_BASE) div SIZEOF_VMA\<rparr>) s) }"

definition vma_free :: "u32 \<Rightarrow> 'a vm_scheme \<Rightarrow> 'a vm_scheme option" where
  "vma_free v s =
     (if v = 0 then Some s
      else do {
        bm \<leftarrow> dpage_bm_clear (v_slot_id (vmas s v)) (vma_vaddr_bitmap s) (vma_vaddr_size_bytes div 8);
        Some (s\<lparr>vma_vaddr_bitmap := bm\<rparr>) })"


section \<open>The list of areas\<close>

abbreviation next_vma :: "'a vm_scheme \<Rightarrow> u32 \<Rightarrow> u32 option" where
  "next_vma s p \<equiv> ptr (v_next (vmas s p))"

definition vma_insert :: "u32 \<Rightarrow> u32 \<Rightarrow> 'a vm_scheme \<Rightarrow> 'a vm_scheme option" where
  "vma_insert mm new s =
     (if mm = 0 \<or> new = 0 then Some s
      else let head = vma_head (mms s mm); start = v_start (vmas s new)
           in if head = 0 \<or> start < v_start (vmas s head)
              then Some (upd_mm mm (\<lambda>m. m\<lparr>vma_head := new\<rparr>) (upd_vma new (\<lambda>v. v\<lparr>v_next := head\<rparr>) s))
              else do {
                it \<leftarrow> walk_until (\<lambda>p. v_next (vmas s p) = 0 \<or> \<not> v_start (vmas s (v_next (vmas s p))) < start)
                       (next_vma s) (ptr head);
                case it of
                  None \<Rightarrow> None
                | Some cur \<Rightarrow>
                    let s = upd_vma new (\<lambda>v. v\<lparr>v_next := v_next (vmas s cur)\<rparr>) s
                    in Some (upd_vma cur (\<lambda>v. v\<lparr>v_next := new\<rparr>) s) })"

definition vma_remove :: "u32 \<Rightarrow> u32 \<Rightarrow> 'a vm_scheme \<Rightarrow> 'a vm_scheme option" where
  "vma_remove mm v s =
     (if mm = 0 \<or> v = 0 \<or> vma_head (mms s mm) = 0 then Some s
      else if vma_head (mms s mm) = v
      then Some (upd_mm mm (\<lambda>m. m\<lparr>vma_head := v_next (vmas s v)\<rparr>) s)
      else do {
        it \<leftarrow> walk_until (\<lambda>p. v_next (vmas s p) = v) (next_vma s) (ptr (vma_head (mms s mm)));
        Some (case it of
                None \<Rightarrow> s
              | Some cur \<Rightarrow> upd_vma cur (\<lambda>u. u\<lparr>v_next := v_next (vmas s v)\<rparr>) s) })"

partial_function (option) free_vmas :: "u32 \<Rightarrow> 'a vm_scheme \<Rightarrow> 'a vm_scheme option" where
  "free_vmas cur s =
     (if cur = 0 then Some s
      else do {
        let nxt = v_next (vmas s cur);
        s \<leftarrow> vma_free cur s;
        free_vmas nxt s })"

definition vma_destroy_all :: "u32 \<Rightarrow> 'a vm_scheme \<Rightarrow> 'a vm_scheme option" where
  "vma_destroy_all mm s =
     (if mm = 0 then Some s
      else do {
        s \<leftarrow> free_vmas (vma_head (mms s mm)) s;
        Some (upd_mm mm (\<lambda>m. m\<lparr>vma_head := 0\<rparr>) s) })"

definition vma_find :: "u32 \<Rightarrow> u32 \<Rightarrow> 'a vm_scheme \<Rightarrow> u32 option" where
  "vma_find mm vaddr s =
     (if mm = 0 then Some 0
      else do {
        it \<leftarrow> walk_until (\<lambda>p. v_start (vmas s p) \<le> vaddr \<and> vaddr < v_end (vmas s p)) (next_vma s)
               (ptr (vma_head (mms s mm)));
        Some (case it of None \<Rightarrow> 0 | Some p \<Rightarrow> p) })"


section \<open>Mapping a region\<close>

text \<open>Bytes written upwards from an address, as \<^verbatim>\<open>kmemcpy\<close> from a buffer of the kernel does.\<close>

definition write_bytes :: "u32 \<Rightarrow> u8 list \<Rightarrow> pmem \<Rightarrow> pmem" where
  "write_bytes p bs m = (\<lambda>x. if unat (x - p) < length bs then bs ! unat (x - p) else m x)"

text \<open>
  One round of the loop of \<^verbatim>\<open>mm_map_region\<close> on the directory at \<open>pd\<close>: whether it succeeded and
  \<^verbatim>\<open>data_copied\<close>. The initial data are the bytes at the pointer, or \<open>None\<close> for a null pointer.
\<close>

definition ensure_user_table :: "u32 \<Rightarrow> u32 \<Rightarrow> u32 \<Rightarrow> 'a paging_scheme \<Rightarrow> (bool \<times> 'a paging_scheme) option" where
  "ensure_user_table pd pdi frame s =
     (if ld32 (mem s) (tbl pd pdi) AND PG_PRESENT \<noteq> 0 then Some (True, s)
      else do {
        ((pt_frame, r), s) \<leftarrow> pmm_get_next_available_block s;
        if r \<noteq> PMM_ALLOC_SUCCESS then do {
          (_, s) \<leftarrow> pmm_dealloc_specific_block frame s;
          Some (False, s) }
        else do {
          _ \<leftarrow> phys_to_virt pt_frame;
          let s = s\<lparr>mem := zero_words 1024 pt_frame (mem s)\<rparr>;
          Some (True, s\<lparr>mem := st32 (mem s) (tbl pd pdi) (pt_frame OR PG_PRESENT OR PG_RW OR PG_USER)\<rparr>) } })"

definition copy_initial :: "u8 list option \<Rightarrow> nat \<Rightarrow> nat \<Rightarrow> u32 \<Rightarrow> pmem \<Rightarrow> (nat \<times> pmem) option" where
  "copy_initial initial_data initdata_size data_copied frame m =
     (case initial_data of
        None \<Rightarrow> Some (data_copied, m)
      | Some bs \<Rightarrow>
          if data_copied < initdata_size
          then let to_copy = min (initdata_size - data_copied) 4096
               in if length bs < data_copied + to_copy then None
                  else Some (data_copied + to_copy, write_bytes frame (take to_copy (drop data_copied bs)) m)
          else Some (data_copied, m))"

definition map_region_page ::
  "u32 \<Rightarrow> u32 \<Rightarrow> u32 \<Rightarrow> u8 list option \<Rightarrow> nat \<Rightarrow> nat \<Rightarrow> 'a paging_scheme \<Rightarrow> ((bool \<times> nat) \<times> 'a paging_scheme) option" where
  "map_region_page pd va pte_flags initial_data initdata_size data_copied s = do {
     let pdi = drop_bit 22 va;
     let pti = drop_bit 12 va AND 0x3FF;
     ((frame, r), s) \<leftarrow> pmm_get_next_available_block s;
     if r \<noteq> PMM_ALLOC_SUCCESS then Some ((False, data_copied), s)
     else do {
       (ok, s) \<leftarrow> ensure_user_table pd pdi frame s;
       if \<not> ok then Some ((False, data_copied), s)
       else do {
         let pt = ld32 (mem s) (tbl pd pdi) AND 0xFFFFF000;
         _ \<leftarrow> phys_to_virt pt;
         let s = s\<lparr>mem := st32 (mem s) (tbl pt pti) (frame OR pte_flags)\<rparr>;
         _ \<leftarrow> phys_to_virt frame;
         let s = s\<lparr>mem := zero_words 1024 frame (mem s)\<rparr>;
         (data_copied, m) \<leftarrow> copy_initial initial_data initdata_size data_copied frame (mem s);
         Some ((True, data_copied), s\<lparr>mem := m\<rparr>) } } }"

primrec map_region_pages ::
  "nat \<Rightarrow> nat \<Rightarrow> u32 \<Rightarrow> u32 \<Rightarrow> u32 \<Rightarrow> u32 \<Rightarrow> u8 list option \<Rightarrow> nat \<Rightarrow> nat \<Rightarrow> 'a vm_scheme \<Rightarrow>
   (bool \<times> 'a vm_scheme) option" where
  "map_region_pages 0 p mm pd va_start pte_flags initial_data initdata_size data_copied s = Some (True, s)"
| "map_region_pages (Suc n) p mm pd va_start pte_flags initial_data initdata_size data_copied s = do {
     let va = va_start + of_nat p * 4096;
     ((ok, data_copied), s) \<leftarrow> map_region_page pd va pte_flags initial_data initdata_size data_copied s;
     if \<not> ok then Some (False, s)
     else map_region_pages n (Suc p) mm pd va_start pte_flags initial_data initdata_size data_copied
            (upd_mm mm (\<lambda>m. m\<lparr>page_count := page_count m + 1\<rparr>) s) }"

definition mm_map_region ::
  "u32 \<Rightarrow> u32 \<Rightarrow> u32 \<Rightarrow> u32 \<Rightarrow> u32 \<Rightarrow> u8 list option \<Rightarrow> u32 \<Rightarrow> 'a vm_scheme \<Rightarrow> (int \<times> 'a vm_scheme) option" where
  "mm_map_region mm va_start sz type prot initial_data initdata_size s =
     (if mm = 0 \<or> sz = 0 \<or> va_start AND 0xFFF \<noteq> 0 \<or> sz AND 0xFFF \<noteq> 0 then Some (- 1, s)
      else if va_start < user_base (mms s mm) \<or> va_start + sz > user_limit (mms s mm) then Some (- 1, s)
      else do {
        (new, s) \<leftarrow> vma_alloc s;
        if new = 0 then Some (- 1, s)
        else do {
          let s = upd_vma new (\<lambda>v. v\<lparr>v_start := va_start, v_end := va_start + sz, v_type := type, v_prot := prot\<rparr>) s;
          let pte_flags = (PG_PRESENT OR PG_USER) OR (if prot AND VMA_PROT_WRITE \<noteq> 0 then PG_RW else 0);
          let pd = cr3_phys (mms s mm);
          _ \<leftarrow> phys_to_virt pd;
          (ok, s) \<leftarrow> map_region_pages (unat (sz div 4096)) 0 mm pd va_start pte_flags
                      initial_data (unat initdata_size) 0 s;
          if ok then do { s \<leftarrow> vma_insert mm new s; Some (0, s) }
          else do {
            s \<leftarrow> vma_remove mm new s;
            s \<leftarrow> vma_free new s;
            Some (- 1, s) } } })"

text \<open>A state with empty pools; the examples of the later theories start from it.\<close>

definition ex_vm :: vm where
  "ex_vm = kva.extend ex_kva (vm.fields [] (\<lambda>_. zero_vma) [] (\<lambda>_. zero_mm))"

section \<open>The areas of an address space\<close>

interpretation vl: link_field next_vma "\<lambda>p q. upd_vma p (\<lambda>r. r\<lparr>v_next := q\<rparr>)"
  by unfold_locales (auto simp: upd_vma_def)

text \<open>The areas of \<open>mm\<close>, sorted by start address.\<close>

definition areas :: "'a vm_scheme \<Rightarrow> u32 \<Rightarrow> u32 list \<Rightarrow> bool" where
  "areas s mm vs \<longleftrightarrow> 0 \<notin> set vs \<and> list_at (next_vma s) (ptr (vma_head (mms s mm))) vs \<and>
     sorted (map (\<lambda>v. v_start (vmas s v)) vs)"

definition in_area :: "'a vm_scheme \<Rightarrow> u32 \<Rightarrow> u32 \<Rightarrow> bool" where
  "in_area s a v \<longleftrightarrow> v_start (vmas s v) \<le> a \<and> a < v_end (vmas s v)"

lemma vma_find_areas:
  assumes "areas s mm vs" "mm \<noteq> 0"
  shows "vma_find mm a s = Some (case find (in_area s a) vs of None \<Rightarrow> 0 | Some v \<Rightarrow> v)"
  using walk_until_find [of "next_vma s" "ptr (vma_head (mms s mm))" vs "in_area s a"] assms
  by (simp add: vma_find_def areas_def in_area_def [abs_def])

definition links_only :: "'a vm_scheme \<Rightarrow> 'a vm_scheme \<Rightarrow> bool" where
  "links_only s s' \<longleftrightarrow> (\<forall>v. (vmas s' v)\<lparr>v_next := 0\<rparr> = (vmas s v)\<lparr>v_next := 0\<rparr>)"

lemma links_only_fields:
  assumes "links_only s s'"
  shows "v_start (vmas s' v) = v_start (vmas s v)" "v_end (vmas s' v) = v_end (vmas s v)"
    "in_area s' a v = in_area s a v"
proof -
  have e: "(vmas s' v)\<lparr>v_next := 0\<rparr> = (vmas s v)\<lparr>v_next := 0\<rparr>" using assms by (simp add: links_only_def)
  show st: "v_start (vmas s' v) = v_start (vmas s v)" using arg_cong [OF e, of v_start] by simp
  show en: "v_end (vmas s' v) = v_end (vmas s v)" using arg_cong [OF e, of v_end] by simp
  show "in_area s' a v = in_area s a v" by (simp add: in_area_def st en)
qed

text \<open>The node after which the loop of \<^verbatim>\<open>vma_insert\<close> inserts.\<close>

lemma vma_insert_place:
  assumes l: "list_at (next_vma s) (ptr h) vs" and nz: "0 \<notin> set vs" and ne: "vs \<noteq> []"
    and srt: "sorted (map st vs)" and hd: "\<not> start < st (hd vs)"
  obtains us a ws where "vs = us @ a # ws"
    "walk_until (\<lambda>p. v_next (vmas s p) = 0 \<or> \<not> st (v_next (vmas s p)) < start) (next_vma s) (ptr h) = Some (Some a)"
    "st a \<le> start" "ws = [] \<or> start \<le> st (hd ws)"
proof -
  let ?P = "\<lambda>p. v_next (vmas s p) = 0 \<or> \<not> st (v_next (vmas s p)) < start"
  have vs: "vs = butlast vs @ [last vs]" using ne by simp
  have "next_vma s (last vs) = None" using l by (subst (asm) vs) (rule list_at_last)
  then have "\<exists>z \<in> set vs. ?P z" using ne by (intro bexI [of _ "last vs"]) auto
  then have "find ?P vs \<noteq> None" unfolding find_None_iff by blast
  then obtain a where f: "find ?P vs = Some a" by blast
  obtain us ws where vs: "vs = us @ a # ws" "?P a" "\<forall>u \<in> set us. \<not> ?P u" using find_split [OF f] by blast
  have "st a \<le> start"
  proof (cases us rule: rev_cases)
    case Nil
    then show ?thesis using hd vs(1) by simp
  next
    case (snoc us' u)
    then have "next_vma s u = Some a" using list_at_next [of "next_vma s" _ us' u a ws] l vs(1) by simp
    then show ?thesis using vs(3) snoc by auto
  qed
  moreover have "start \<le> st (hd ws)" if "ws \<noteq> []"
  proof -
    obtain w ws' where w: "ws = w # ws'" using \<open>ws \<noteq> []\<close> by (cases ws) auto
    then have "next_vma s a = Some w" using list_at_next [of "next_vma s" _ us a w ws'] l vs(1) by simp
    then show ?thesis using vs(2) w by auto
  qed
  ultimately show thesis using that [OF vs(1)] walk_until_find [OF l] f by auto
qed

lemma sorted_insert_at:
  assumes "sorted (map f (us @ ws))" "\<forall>u \<in> set us. f u \<le> f x" "ws = [] \<or> f x \<le> f (hd ws)"
  shows "sorted (map f (us @ x # ws))"
proof -
  have "f x \<le> f w" if "w \<in> set ws" for w using assms(1,3) that by (cases ws) (auto simp: sorted_append)
  then show ?thesis using assms(1,2) by (auto simp: sorted_append)
qed

lemma vma_insert_spec:
  assumes a: "areas s mm vs" and nz: "mm \<noteq> 0" "new \<noteq> 0" and fresh: "new \<notin> set vs"
  obtains s' us ws where "vma_insert mm new s = Some s'" "vs = us @ ws" "areas s' mm (us @ new # ws)" "links_only s s'"
    "\<forall>m. m \<noteq> mm \<longrightarrow> mms s' m = mms s m" "\<forall>v. v \<notin> insert new (set vs) \<longrightarrow> vmas s' v = vmas s v"
proof -
  let ?st = "\<lambda>v. v_start (vmas s v)" and ?h = "vma_head (mms s mm)"
  have l: "list_at (next_vma s) (ptr ?h) vs" and z: "0 \<notin> set vs" and srt: "sorted (map ?st vs)"
    using a by (simp_all add: areas_def)
  have h: "?h = 0 \<longleftrightarrow> vs = []" "vs \<noteq> [] \<Longrightarrow> ?h = hd vs" using l by (cases vs; auto)+
  show thesis
  proof (cases "?h = 0 \<or> ?st new < ?st ?h")
    case True
    let ?s = "upd_mm mm (\<lambda>m. m\<lparr>vma_head := new\<rparr>) (upd_vma new (\<lambda>v. v\<lparr>v_next := ?h\<rparr>) s)"
    have ins: "vma_insert mm new s = Some ?s" using nz True by (simp add: vma_insert_def Let_def)
    have lo: "links_only s ?s" by (simp add: links_only_def upd_mm_def upd_vma_def)
    have "list_at (next_vma ?s) (ptr (vma_head (mms ?s mm))) (new # vs)"
      using vl.push [OF l fresh nz(2)] by (simp add: upd_mm_def)
    moreover have "sorted (map ?st ([] @ new # vs))"
      using True h srt by (intro sorted_insert_at) auto
    ultimately have "areas ?s mm (new # vs)" unfolding areas_def links_only_fields [OF lo] using z nz by simp
    with ins lo show thesis by (intro that [of ?s "[]" vs]) (simp_all add: upd_mm_def upd_vma_def)
  next
    case False
    then have ne: "vs \<noteq> []" "\<not> ?st new < ?st (hd vs)" using h by auto
    obtain us c ws where c: "vs = us @ c # ws"
      "walk_until (\<lambda>p. v_next (vmas s p) = 0 \<or> \<not> ?st (v_next (vmas s p)) < ?st new) (next_vma s) (ptr ?h) = Some (Some c)"
      "?st c \<le> ?st new" "ws = [] \<or> ?st new \<le> ?st (hd ws)"
      by (rule vma_insert_place [OF l z ne(1) srt ne(2)])
    let ?s = "upd_vma c (\<lambda>v. v\<lparr>v_next := new\<rparr>) (upd_vma new (\<lambda>v. v\<lparr>v_next := v_next (vmas s c)\<rparr>) s)"
    have ins: "vma_insert mm new s = Some ?s" using nz False c(2) by (simp add: vma_insert_def Let_def)
    have lo: "links_only s ?s" by (simp add: links_only_def upd_vma_def)
    have "list_at (next_vma ?s) (ptr ?h) (us @ c # new # ws)"
      using vl.insert_after [of s "ptr ?h" us c ws new "v_next (vmas s c)"] l fresh nz(2) c(1) by simp
    moreover have "\<forall>u \<in> set (us @ [c]). ?st u \<le> ?st new" using srt c(1,3) by (auto simp: sorted_append)
    then have "sorted (map ?st ((us @ [c]) @ new # ws))" using srt c(1,4) by (intro sorted_insert_at) auto
    moreover have "vma_head (mms ?s mm) = ?h" by (simp add: upd_vma_def)
    ultimately have "areas ?s mm ((us @ [c]) @ new # ws)"
      unfolding areas_def links_only_fields [OF lo] using z nz c(1) by simp
    with ins lo show thesis using c(1) by (intro that [of ?s "us @ [c]" ws]) (auto simp: upd_vma_def)
  qed
qed

text \<open>
  (C35) Inserting an area keeps the list of areas sorted and touches no other address space. If the new area overlaps
  none of the others, an address in it is found to belong to it afterwards, and every other address to the area it
  belonged to before, or to none.
\<close>

theorem vma_insert_then_find:
  assumes "areas s mm vs" "mm \<noteq> 0" "new \<noteq> 0" "new \<notin> set vs"
    and "\<forall>v \<in> set vs. \<forall>a. \<not> (in_area s a v \<and> in_area s a new)"
  shows "\<exists>s' vs'. vma_insert mm new s = Some s' \<and> areas s' mm vs' \<and> set vs' = insert new (set vs) \<and>
    (\<forall>a. vma_find mm a s' = (if in_area s a new then Some new else vma_find mm a s)) \<and>
    (\<forall>m. m \<noteq> mm \<longrightarrow> mms s' m = mms s m) \<and> (\<forall>v. v \<notin> insert new (set vs) \<longrightarrow> vmas s' v = vmas s v)"
proof -
  obtain s' us ws where s': "vma_insert mm new s = Some s'" "vs = us @ ws" "areas s' mm (us @ new # ws)" "links_only s s'"
    "\<forall>m. m \<noteq> mm \<longrightarrow> mms s' m = mms s m" "\<forall>v. v \<notin> insert new (set vs) \<longrightarrow> vmas s' v = vmas s v"
    by (rule vma_insert_spec [OF assms(1-4)])
  have ia: "in_area s' = in_area s" using links_only_fields(3) [OF s'(4)] by (simp add: fun_eq_iff)
  have "vma_find mm a s' = (if in_area s a new then Some new else vma_find mm a s)" for a
  proof (cases "in_area s a new")
    case True
    then have "find (in_area s a) us = None" using assms(5) s'(2) by (auto simp: find_None_iff)
    then show ?thesis
      using True vma_find_areas [OF s'(3) assms(2), of a] ia by (simp add: find_append)
  next
    case False
    then show ?thesis
      using vma_find_areas [OF s'(3) assms(2), of a] vma_find_areas [OF assms(1,2), of a] ia s'(2)
      by (simp add: find_append split: option.split)
  qed
  moreover have "set (us @ new # ws) = insert new (set vs)" using s'(2) by auto
  ultimately show ?thesis using s'(1,3,5,6) by blast
qed

theorem vma_insert_then_find_witness:
  "let s = ex_vm\<lparr>mms := (\<lambda>_. zero_mm)(0x100 := zero_mm\<lparr>vma_head := 0x18\<rparr>),
                 vmas := (\<lambda>_. zero_vma)(0x18 := zero_vma\<lparr>v_start := 0x5000, v_end := 0x6000\<rparr>,
                                        0x30 := zero_vma\<lparr>v_start := 0x1000, v_end := 0x3000\<rparr>)\<rparr>
   in \<exists>s'. vma_insert 0x100 0x30 s = Some s' \<and> vma_find 0x100 0x2000 s' = Some 0x30 \<and>
        vma_find 0x100 0x5004 s' = vma_find 0x100 0x5004 s"
proof -
  let ?s = "ex_vm\<lparr>mms := (\<lambda>_. zero_mm)(0x100 := zero_mm\<lparr>vma_head := 0x18\<rparr>),
                 vmas := (\<lambda>_. zero_vma)(0x18 := zero_vma\<lparr>v_start := 0x5000, v_end := 0x6000\<rparr>,
                                        0x30 := zero_vma\<lparr>v_start := 0x1000, v_end := 0x3000\<rparr>)\<rparr>"
  have ar: "areas ?s 0x100 [0x18]" by (simp add: areas_def zero_mm_def zero_vma_def)
  have dj: "\<forall>v \<in> set [0x18]. \<forall>a. \<not> (in_area ?s a v \<and> in_area ?s a 0x30)"
    by (auto simp: in_area_def zero_vma_def word_less_nat_alt word_le_nat_alt)
  have "in_area ?s 0x2000 0x30" "\<not> in_area ?s 0x5004 0x30" by (simp_all add: in_area_def zero_vma_def)
  with vma_insert_then_find [OF ar _ _ _ dj] show ?thesis unfolding Let_def by auto
qed

end
