(* ===== verification/Mm.thy ===== *)
theory Mm
  imports Vma
begin

text \<open>
  User address spaces (\<^verbatim>\<open>mm.c\<close>): creating one with the kernel's half of the directory, cloning the user
  half page by page for \<^verbatim>\<open>fork\<close>, destroying one, and loading one. Page tables are words in physical
  memory; \<open>None\<close> is a panic, and a page fault where the kernel writes through a temporary page.
\<close>

section \<open>Creation\<close>

definition TEMP_PAGE_VA :: u32 where "TEMP_PAGE_VA = 0xFFFFF000"

definition mm_vaddr_size_bytes :: u32 where
  "mm_vaddr_size_bytes = (STACK_VIRTUAL_BASE - MMS_VIRTUAL_BASE) AND 0xFFFFF000"

datatype mm_status =
  MM_SUCCESS | MM_PD_PMM_INIT_FAILED | MM_MM_PMM_INIT_FAILED | MM_NO_MORE_REGION_SLOTS |
  MM_PD_PG_INIT_FAILED | MM_MM_PG_INIT_FAILED

definition clear_mm_page :: "u32 \<Rightarrow> 'a vm_scheme \<Rightarrow> 'a vm_scheme" where
  "clear_mm_page base s = s\<lparr>mms := (\<lambda>p. if p - base < 4096 then zero_mm else mms s p)\<rparr>"

definition mm_init :: "'a vm_scheme \<Rightarrow> 'a vm_scheme option" where
  "mm_init s = do {
     (ok, bm, s) \<leftarrow> dpage_init clear_mm_page MMS_BITMAP_BASE MMS_VIRTUAL_BASE (mm_vaddr_bitmap s) s;
     if \<not> ok then None else Some (s\<lparr>mm_vaddr_bitmap := bm\<rparr>) }"

text \<open>The frame the processor uses for an access to a page, in the loaded address space.\<close>

definition loaded_frame :: "u32 \<Rightarrow> 'a paging_scheme \<Rightarrow> u32 option" where
  "loaded_frame v s = map_option fst (walk (mem s) (cr3 s AND 0xFFFFF000) v)"

primrec copy_pdes :: "nat \<Rightarrow> u32 \<Rightarrow> u32 \<Rightarrow> u32 \<Rightarrow> pmem \<Rightarrow> pmem" where
  "copy_pdes 0 i dst src m = m"
| "copy_pdes (Suc n) i dst src m = copy_pdes n (i + 1) dst src (st32 m (tbl dst i) (ld32 m (tbl src i)))"

text \<open>The new directory's address (0 on failure) and \<^verbatim>\<open>*out_status\<close>, which success leaves alone.\<close>

definition mm_alloc_pd :: "'a paging_scheme \<Rightarrow> ((u32 \<times> mm_status option) \<times> 'a paging_scheme) option" where
  "mm_alloc_pd s = do {
     ((phys, res), s) \<leftarrow> pmm_get_next_available_block s;
     if res \<noteq> PMM_ALLOC_SUCCESS then Some ((0, Some MM_PD_PMM_INIT_FAILED), s)
     else do {
       (r, s) \<leftarrow> paging_map_page TEMP_PAGE_VA phys (PG_PRESENT OR PG_RW) s;
       if r \<noteq> PAGING_OK then do {
         (_, s) \<leftarrow> pmm_dealloc_specific_block phys s;
         Some ((0, Some MM_PD_PG_INIT_FAILED), s) }
       else do {
         temp \<leftarrow> loaded_frame TEMP_PAGE_VA s;
         let s = s\<lparr>mem := zero_words 1024 temp (mem s)\<rparr>;
         _ \<leftarrow> phys_to_virt (paging_get_kernel_pd_phys s);
         let first = drop_bit 22 KERNEL_VIRTUAL_BASE;
         let s = s\<lparr>mem := copy_pdes (1024 - unat first) first temp (paging_get_kernel_pd_phys s) (mem s)\<rparr>;
         ((r, unmap_phys), s) \<leftarrow> paging_unmap_page TEMP_PAGE_VA s;
         if r \<noteq> PAGING_OK \<or> unmap_phys \<noteq> phys then None
         else Some ((phys, None), s) } } }"

definition mm_alloc_mm :: "'a vm_scheme \<Rightarrow> ((u32 \<times> dpage_alloc_status) \<times> 'a vm_scheme) option" where
  "mm_alloc_mm s = do {
     (r, bm, s) \<leftarrow> dpage_alloc (\<lambda>p. upd_mm p (\<lambda>_. zero_mm)) (mm_vaddr_bitmap s)
        MMS_VIRTUAL_BASE mm_vaddr_size_bytes SIZEOF_MM (mm_vaddr_size_bytes div 8) s;
     Some (r, s\<lparr>mm_vaddr_bitmap := bm\<rparr>) }"

definition mm_create :: "'a vm_scheme \<Rightarrow> (u32 \<times> 'a vm_scheme) option" where
  "mm_create s = do {
     ((pd, _), s) \<leftarrow> mm_alloc_pd s;
     if pd = 0 then Some (0, s)
     else do {
       ((mm, _), s) \<leftarrow> mm_alloc_mm s;
       if mm = 0 then do {
         (_, s) \<leftarrow> pmm_dealloc_specific_block pd s;
         Some (0, s) }
       else Some (mm, upd_mm mm (\<lambda>m. m\<lparr>cr3_phys := pd, refcount := 1, user_base := 0,
                       user_limit := KERNEL_VIRTUAL_BASE, page_count := 0,
                       mm_slot_id := (mm - MMS_VIRTUAL_BASE) div SIZEOF_MM\<rparr>) s) } }"


section \<open>Destruction\<close>

primrec free_table_pages :: "nat \<Rightarrow> u32 \<Rightarrow> u32 \<Rightarrow> 'a pmm_scheme \<Rightarrow> 'a pmm_scheme option" where
  "free_table_pages 0 j pt s = Some s"
| "free_table_pages (Suc n) j pt s = do {
     let pte = ld32 (mem s) (tbl pt j);
     if pte AND PG_PRESENT = 0 then free_table_pages n (j + 1) pt s
     else do {
       (_, s) \<leftarrow> pmm_dealloc_specific_block (pte AND 0xFFFFF000) s;
       free_table_pages n (j + 1) pt s } }"

primrec free_user_tables :: "nat \<Rightarrow> u32 \<Rightarrow> u32 \<Rightarrow> 'a pmm_scheme \<Rightarrow> 'a pmm_scheme option" where
  "free_user_tables 0 i pd s = Some s"
| "free_user_tables (Suc n) i pd s = do {
     let pde = ld32 (mem s) (tbl pd i);
     if pde AND PG_PRESENT = 0 then free_user_tables n (i + 1) pd s
     else do {
       let pt_phys = pde AND 0xFFFFF000;
       _ \<leftarrow> phys_to_virt pt_phys;
       s \<leftarrow> free_table_pages 1024 0 pt_phys s;
       (_, s) \<leftarrow> pmm_dealloc_specific_block pt_phys s;
       free_user_tables n (i + 1) pd s } }"

definition mm_destroy :: "u32 \<Rightarrow> 'a vm_scheme \<Rightarrow> 'a vm_scheme option" where
  "mm_destroy mm s =
     (if mm = 0 then Some s
      else if cr3 s AND 0xFFFFF000 = cr3_phys (mms s mm) then None
      else do {
        s \<leftarrow> vma_destroy_all mm s;
        let pd = cr3_phys (mms s mm);
        _ \<leftarrow> phys_to_virt pd;
        s \<leftarrow> free_user_tables (unat (drop_bit 22 KERNEL_VIRTUAL_BASE)) 0 pd s;
        (_, s) \<leftarrow> pmm_dealloc_specific_block pd s;
        bm \<leftarrow> dpage_bm_clear (mm_slot_id (mms s mm)) (mm_vaddr_bitmap s) (mm_vaddr_size_bytes div 8);
        Some (s\<lparr>mm_vaddr_bitmap := bm\<rparr>) })"


section \<open>Cloning\<close>

text \<open>
  The inner loop over the entries of one table, the outer loop over the user entries of the directory, and
  the loop over the areas; each returns whether all allocations succeeded. \<^verbatim>\<open>kmemcpy\<close> copies through the
  physical window, from frame to frame.
\<close>

primrec clone_table_pages ::
  "nat \<Rightarrow> u32 \<Rightarrow> u32 \<Rightarrow> u32 \<Rightarrow> u32 \<Rightarrow> 'a vm_scheme \<Rightarrow> (bool \<times> 'a vm_scheme) option" where
  "clone_table_pages 0 j parent_pt child_pt child s = Some (True, s)"
| "clone_table_pages (Suc n) j parent_pt child_pt child s = do {
     let pte = ld32 (mem s) (tbl parent_pt j);
     if pte AND PG_PRESENT = 0 then clone_table_pages n (j + 1) parent_pt child_pt child s
     else do {
       ((child_frame, r), s) \<leftarrow> pmm_get_next_available_block s;
       if r \<noteq> PMM_ALLOC_SUCCESS then Some (False, s)
       else do {
         _ \<leftarrow> phys_to_virt (pte AND 0xFFFFF000);
         _ \<leftarrow> phys_to_virt child_frame;
         let s = s\<lparr>mem := kmemcpy child_frame (pte AND 0xFFFFF000) 4096 (mem s)\<rparr>;
         let s = s\<lparr>mem := st32 (mem s) (tbl child_pt j) (child_frame OR (pte AND 0xFFF))\<rparr>;
         clone_table_pages n (j + 1) parent_pt child_pt child
           (upd_mm child (\<lambda>m. m\<lparr>page_count := page_count m + 1\<rparr>) s) } } }"

primrec clone_user_tables ::
  "nat \<Rightarrow> u32 \<Rightarrow> u32 \<Rightarrow> u32 \<Rightarrow> u32 \<Rightarrow> 'a vm_scheme \<Rightarrow> (bool \<times> 'a vm_scheme) option" where
  "clone_user_tables 0 i parent_pd child_pd child s = Some (True, s)"
| "clone_user_tables (Suc n) i parent_pd child_pd child s = do {
     let pde = ld32 (mem s) (tbl parent_pd i);
     if pde AND PG_PRESENT = 0 then clone_user_tables n (i + 1) parent_pd child_pd child s
     else do {
       let parent_pt = pde AND 0xFFFFF000;
       ((child_pt, r), s) \<leftarrow> pmm_get_next_available_block s;
       if r \<noteq> PMM_ALLOC_SUCCESS then Some (False, s)
       else do {
         _ \<leftarrow> phys_to_virt parent_pt;
         _ \<leftarrow> phys_to_virt child_pt;
         let s = s\<lparr>mem := zero_words 1024 child_pt (mem s)\<rparr>;
         let s = s\<lparr>mem := st32 (mem s) (tbl child_pd i) (child_pt OR (pde AND 0xFFF))\<rparr>;
         (ok, s) \<leftarrow> clone_table_pages 1024 0 parent_pt child_pt child s;
         if \<not> ok then Some (False, s)
         else clone_user_tables n (i + 1) parent_pd child_pd child s } } }"

partial_function (option) clone_vmas :: "u32 \<Rightarrow> u32 \<Rightarrow> 'a vm_scheme \<Rightarrow> (bool \<times> 'a vm_scheme) option" where
  "clone_vmas pvma child s =
     (if pvma = 0 then Some (True, s)
      else Option.bind (vma_alloc s) (\<lambda>(cvma, s).
        if cvma = 0 then Some (False, s)
        else let v = vmas s pvma;
                 s = upd_vma cvma (\<lambda>u. u\<lparr>v_start := v_start v, v_end := v_end v, v_type := v_type v, v_prot := v_prot v\<rparr>) s
             in Option.bind (vma_insert child cvma s) (\<lambda>s. clone_vmas (v_next (vmas s pvma)) child s)))"

definition mm_clone_user_eager :: "u32 \<Rightarrow> 'a vm_scheme \<Rightarrow> (u32 \<times> 'a vm_scheme) option" where
  "mm_clone_user_eager parent s =
     (if parent = 0 then Some (0, s)
      else do {
        (child, s) \<leftarrow> mm_create s;
        if child = 0 then Some (0, s)
        else do {
          _ \<leftarrow> phys_to_virt (cr3_phys (mms s parent));
          _ \<leftarrow> phys_to_virt (cr3_phys (mms s child));
          (ok, s) \<leftarrow> clone_user_tables (unat (drop_bit 22 KERNEL_VIRTUAL_BASE)) 0
                      (cr3_phys (mms s parent)) (cr3_phys (mms s child)) child s;
          if \<not> ok then do { s \<leftarrow> mm_destroy child s; Some (0, s) }
          else do {
            (ok, s) \<leftarrow> clone_vmas (vma_head (mms s parent)) child s;
            if \<not> ok then do { s \<leftarrow> mm_destroy child s; Some (0, s) }
            else Some (child, s) } } })"


section \<open>Loading\<close>

definition mm_switch :: "u32 \<Rightarrow> 'a vm_scheme \<Rightarrow> 'a vm_scheme" where
  "mm_switch mm s =
     (if mm = 0 then s
      else if cr3 s AND 0xFFFFF000 = cr3_phys (mms s mm) AND 0xFFFFF000 then s
      else s\<lparr>cr3 := cr3_phys (mms s mm)\<rparr>)"

end
