(* ===== verification/Errno.thy ===== *)
theory Errno
  imports Kernel_Prelude
begin

text \<open>
  Error codes (\<^verbatim>\<open>errno.h\<close>) and their messages (\<^verbatim>\<open>errno.c\<close>). A system call returns a code negated; the
  codes are integers.
\<close>

section \<open>Codes\<close>

type_synonym errno = int

definition ESUCCESS :: errno where "ESUCCESS = 0x00"
definition EPERM :: errno where "EPERM = 0x01"
definition ENOENT :: errno where "ENOENT = 0x02"
definition ESRCH :: errno where "ESRCH = 0x03"
definition EINTR :: errno where "EINTR = 0x04"
definition EIO :: errno where "EIO = 0x05"
definition ENXIO :: errno where "ENXIO = 0x06"
definition E2BIG :: errno where "E2BIG = 0x07"
definition ENOEXEC :: errno where "ENOEXEC = 0x08"
definition EBADF :: errno where "EBADF = 0x09"
definition ECHILD :: errno where "ECHILD = 0x0A"
definition EAGAIN :: errno where "EAGAIN = 0x0B"
definition ENOMEM :: errno where "ENOMEM = 0x0C"
definition EACCES :: errno where "EACCES = 0x0D"
definition EFAULT :: errno where "EFAULT = 0x0E"
definition ENOTBLK :: errno where "ENOTBLK = 0x0F"
definition EBUSY :: errno where "EBUSY = 0x10"
definition EEXIST :: errno where "EEXIST = 0x11"
definition EXDEV :: errno where "EXDEV = 0x12"
definition ENODEV :: errno where "ENODEV = 0x13"
definition ENOTDIR :: errno where "ENOTDIR = 0x14"
definition EISDIR :: errno where "EISDIR = 0x15"
definition EINVAL :: errno where "EINVAL = 0x16"
definition ENFILE :: errno where "ENFILE = 0x17"
definition EMFILE :: errno where "EMFILE = 0x18"
definition ENOTTY :: errno where "ENOTTY = 0x19"
definition ETXTBSY :: errno where "ETXTBSY = 0x1A"
definition EFBIG :: errno where "EFBIG = 0x1B"
definition ENOSPC :: errno where "ENOSPC = 0x1C"
definition ESPIPE :: errno where "ESPIPE = 0x1D"
definition EROFS :: errno where "EROFS = 0x1E"
definition EMLINK :: errno where "EMLINK = 0x1F"
definition EPIPE :: errno where "EPIPE = 0x20"
definition EDOM :: errno where "EDOM = 0x21"
definition ERANGE :: errno where "ERANGE = 0x22"
definition EDEADLK :: errno where "EDEADLK = 0x23"
definition ENAMETOOLONG :: errno where "ENAMETOOLONG = 0x24"
definition ENOLCK :: errno where "ENOLCK = 0x25"
definition ENOSYS :: errno where "ENOSYS = 0x26"
definition ENOTEMPTY :: errno where "ENOTEMPTY = 0x27"
definition ELOOP :: errno where "ELOOP = 0x28"
definition ERRNO_UNUSED_41 :: errno where "ERRNO_UNUSED_41 = 0x29"
definition ENOMSG :: errno where "ENOMSG = 0x2A"
definition EIDRM :: errno where "EIDRM = 0x2B"
definition ECHRNG :: errno where "ECHRNG = 0x2C"
definition EL2NSYNC :: errno where "EL2NSYNC = 0x2D"
definition EL3HLT :: errno where "EL3HLT = 0x2E"
definition EL3RST :: errno where "EL3RST = 0x2F"
definition ELNRNG :: errno where "ELNRNG = 0x30"
definition EUNATCH :: errno where "EUNATCH = 0x31"
definition ENOCSI :: errno where "ENOCSI = 0x32"
definition EL2HLT :: errno where "EL2HLT = 0x33"
definition EBADE :: errno where "EBADE = 0x34"
definition EBADR :: errno where "EBADR = 0x35"
definition EXFULL :: errno where "EXFULL = 0x36"
definition ENOANO :: errno where "ENOANO = 0x37"
definition EBADRQC :: errno where "EBADRQC = 0x38"
definition EBADSLT :: errno where "EBADSLT = 0x39"
definition EDEADLOCK :: errno where "EDEADLOCK = 0x3A"
definition EBFONT :: errno where "EBFONT = 0x3B"
definition ENOSTR :: errno where "ENOSTR = 0x3C"
definition ENODATA :: errno where "ENODATA = 0x3D"
definition ETIME :: errno where "ETIME = 0x3E"
definition ENOSR :: errno where "ENOSR = 0x3F"
definition ENONET :: errno where "ENONET = 0x40"
definition ENOPKG :: errno where "ENOPKG = 0x41"
definition EREMOTE :: errno where "EREMOTE = 0x42"
definition ENOLINK :: errno where "ENOLINK = 0x43"
definition EADV :: errno where "EADV = 0x44"
definition ESRMNT :: errno where "ESRMNT = 0x45"
definition ECOMM :: errno where "ECOMM = 0x46"
definition EPROTO :: errno where "EPROTO = 0x47"
definition EMULTIHOP :: errno where "EMULTIHOP = 0x48"
definition EDOTDOT :: errno where "EDOTDOT = 0x49"
definition EBADMSG :: errno where "EBADMSG = 0x4A"
definition EOVERFLOW :: errno where "EOVERFLOW = 0x4B"
definition ENOTUNIQ :: errno where "ENOTUNIQ = 0x4C"
definition EBADFD :: errno where "EBADFD = 0x4D"
definition EREMCHG :: errno where "EREMCHG = 0x4E"
definition ELIBACC :: errno where "ELIBACC = 0x4F"
definition ELIBBAD :: errno where "ELIBBAD = 0x50"
definition ELIBSCN :: errno where "ELIBSCN = 0x51"
definition ELIBMAX :: errno where "ELIBMAX = 0x52"
definition ELIBEXEC :: errno where "ELIBEXEC = 0x53"
definition EILSEQ :: errno where "EILSEQ = 0x54"
definition ERESTART :: errno where "ERESTART = 0x55"
definition ESTRPIPE :: errno where "ESTRPIPE = 0x56"
definition EUSERS :: errno where "EUSERS = 0x57"
definition ENOTSOCK :: errno where "ENOTSOCK = 0x58"
definition EDESTADDRREQ :: errno where "EDESTADDRREQ = 0x59"
definition EMSGSIZE :: errno where "EMSGSIZE = 0x5A"
definition EPROTOTYPE :: errno where "EPROTOTYPE = 0x5B"
definition ENOPROTOOPT :: errno where "ENOPROTOOPT = 0x5C"
definition EPROTONOSUPPORT :: errno where "EPROTONOSUPPORT = 0x5D"
definition ESOCKTNOSUPPORT :: errno where "ESOCKTNOSUPPORT = 0x5E"
definition EOPNOTSUPP :: errno where "EOPNOTSUPP = 0x5F"
definition EPFNOSUPPORT :: errno where "EPFNOSUPPORT = 0x60"
definition EAFNOSUPPORT :: errno where "EAFNOSUPPORT = 0x61"
definition EADDRINUSE :: errno where "EADDRINUSE = 0x62"
definition EADDRNOTAVAIL :: errno where "EADDRNOTAVAIL = 0x63"
definition ENETDOWN :: errno where "ENETDOWN = 0x64"
definition ENETUNREACH :: errno where "ENETUNREACH = 0x65"
definition ENETRESET :: errno where "ENETRESET = 0x66"
definition ECONNABORTED :: errno where "ECONNABORTED = 0x67"
definition ECONNRESET :: errno where "ECONNRESET = 0x68"
definition ENOBUFS :: errno where "ENOBUFS = 0x69"
definition EISCONN :: errno where "EISCONN = 0x6A"
definition ENOTCONN :: errno where "ENOTCONN = 0x6B"
definition ESHUTDOWN :: errno where "ESHUTDOWN = 0x6C"
definition ETOOMANYREFS :: errno where "ETOOMANYREFS = 0x6D"
definition ETIMEDOUT :: errno where "ETIMEDOUT = 0x6E"
definition ECONNREFUSED :: errno where "ECONNREFUSED = 0x6F"
definition EHOSTDOWN :: errno where "EHOSTDOWN = 0x70"
definition EHOSTUNREACH :: errno where "EHOSTUNREACH = 0x71"
definition EALREADY :: errno where "EALREADY = 0x72"
definition EINPROGRESS :: errno where "EINPROGRESS = 0x73"
definition ESTALE :: errno where "ESTALE = 0x74"
definition EUCLEAN :: errno where "EUCLEAN = 0x75"
definition ENOTNAM :: errno where "ENOTNAM = 0x76"
definition ENAVAIL :: errno where "ENAVAIL = 0x77"
definition EISNAM :: errno where "EISNAM = 0x78"
definition EREMOTEIO :: errno where "EREMOTEIO = 0x79"
definition EDQUOT :: errno where "EDQUOT = 0x7A"
definition ENOMEDIUM :: errno where "ENOMEDIUM = 0x7B"
definition EMEDIUMTYPE :: errno where "EMEDIUMTYPE = 0x7C"
definition ECANCELED :: errno where "ECANCELED = 0x7D"
definition ENOKEY :: errno where "ENOKEY = 0x7E"
definition EKEYEXPIRED :: errno where "EKEYEXPIRED = 0x7F"
definition EKEYREVOKED :: errno where "EKEYREVOKED = 0x80"
definition EKEYREJECTED :: errno where "EKEYREJECTED = 0x81"
definition EOWNERDEAD :: errno where "EOWNERDEAD = 0x82"
definition ENOTRECOVERABLE :: errno where "ENOTRECOVERABLE = 0x83"
definition ERFKILL :: errno where "ERFKILL = 0x84"
definition EHWPOISON :: errno where "EHWPOISON = 0x85"
definition EWOULDBLOCK :: errno where "EWOULDBLOCK = EAGAIN"
definition ENOTSUP :: errno where "ENOTSUP = EOPNOTSUPP"

lemmas errno_defs =
  ESUCCESS_def EPERM_def ENOENT_def ESRCH_def EINTR_def EIO_def ENXIO_def E2BIG_def ENOEXEC_def
  EBADF_def ECHILD_def EAGAIN_def ENOMEM_def EACCES_def EFAULT_def ENOTBLK_def EBUSY_def EEXIST_def
  EXDEV_def ENODEV_def ENOTDIR_def EISDIR_def EINVAL_def ENFILE_def EMFILE_def ENOTTY_def ETXTBSY_def
  EFBIG_def ENOSPC_def ESPIPE_def EROFS_def EMLINK_def EPIPE_def EDOM_def ERANGE_def EDEADLK_def
  ENAMETOOLONG_def ENOLCK_def ENOSYS_def ENOTEMPTY_def ELOOP_def ERRNO_UNUSED_41_def ENOMSG_def
  EIDRM_def ECHRNG_def EL2NSYNC_def EL3HLT_def EL3RST_def ELNRNG_def EUNATCH_def ENOCSI_def EL2HLT_def
  EBADE_def EBADR_def EXFULL_def ENOANO_def EBADRQC_def EBADSLT_def EDEADLOCK_def EBFONT_def ENOSTR_def
  ENODATA_def ETIME_def ENOSR_def ENONET_def ENOPKG_def EREMOTE_def ENOLINK_def EADV_def ESRMNT_def
  ECOMM_def EPROTO_def EMULTIHOP_def EDOTDOT_def EBADMSG_def EOVERFLOW_def ENOTUNIQ_def EBADFD_def
  EREMCHG_def ELIBACC_def ELIBBAD_def ELIBSCN_def ELIBMAX_def ELIBEXEC_def EILSEQ_def ERESTART_def
  ESTRPIPE_def EUSERS_def ENOTSOCK_def EDESTADDRREQ_def EMSGSIZE_def EPROTOTYPE_def ENOPROTOOPT_def
  EPROTONOSUPPORT_def ESOCKTNOSUPPORT_def EOPNOTSUPP_def EPFNOSUPPORT_def EAFNOSUPPORT_def
  EADDRINUSE_def EADDRNOTAVAIL_def ENETDOWN_def ENETUNREACH_def ENETRESET_def ECONNABORTED_def
  ECONNRESET_def ENOBUFS_def EISCONN_def ENOTCONN_def ESHUTDOWN_def ETOOMANYREFS_def ETIMEDOUT_def
  ECONNREFUSED_def EHOSTDOWN_def EHOSTUNREACH_def EALREADY_def EINPROGRESS_def ESTALE_def EUCLEAN_def
  ENOTNAM_def ENAVAIL_def EISNAM_def EREMOTEIO_def EDQUOT_def ENOMEDIUM_def EMEDIUMTYPE_def
  ECANCELED_def ENOKEY_def EKEYEXPIRED_def EKEYREVOKED_def EKEYREJECTED_def EOWNERDEAD_def
  ENOTRECOVERABLE_def ERFKILL_def EHWPOISON_def EWOULDBLOCK_def ENOTSUP_def


section \<open>Messages\<close>

text \<open>The cases of the \<^verbatim>\<open>switch\<close>, in order.\<close>

definition errno_messages :: "(errno \<times> string) list" where
  "errno_messages =
    [(EPERM, ''Operation not permitted''),
     (ENOENT, ''No such file or directory''),
     (ESRCH, ''No such process''),
     (EINTR, ''Interrupted system call''),
     (EIO, ''I/O error''),
     (ENXIO, ''No such device or address''),
     (E2BIG, ''Argument list too long''),
     (ENOEXEC, ''Exec format error''),
     (EBADF, ''Bad file number''),
     (ECHILD, ''No child processes''),
     (EAGAIN, ''Try again''),
     (ENOMEM, ''Out of memory''),
     (EACCES, ''Permission denied''),
     (EFAULT, ''Bad address''),
     (ENOTBLK, ''Block device required''),
     (EBUSY, ''Device or resource busy''),
     (EEXIST, ''File exists''),
     (EXDEV, ''Cross-device link''),
     (ENODEV, ''No such device''),
     (ENOTDIR, ''Not a directory''),
     (EISDIR, ''Is a directory''),
     (EINVAL, ''Invalid argument''),
     (ENFILE, ''File table overflow''),
     (EMFILE, ''Too many open files''),
     (ENOTTY, ''Not a typewriter''),
     (ETXTBSY, ''Text file busy''),
     (EFBIG, ''File too large''),
     (ENOSPC, ''No space left on device''),
     (ESPIPE, ''Illegal seek''),
     (EROFS, ''Read-only file system''),
     (EMLINK, ''Too many links''),
     (EPIPE, ''Broken pipe''),
     (EDOM, ''Math argument out of domain of func''),
     (ERANGE, ''Math result not representable''),
     (EDEADLK, ''Resource deadlock would occur''),
     (ENAMETOOLONG, ''File name too long''),
     (ENOLCK, ''No record locks available''),
     (ENOSYS, ''Function not implemented''),
     (ENOTEMPTY, ''Directory not empty''),
     (ELOOP, ''Too many symbolic links encountered''),
     (ERRNO_UNUSED_41, ''Unused error number''),
     (ENOMSG, ''No message of desired type''),
     (EIDRM, ''Identifier removed''),
     (ECHRNG, ''Channel number out of range''),
     (EL2NSYNC, ''Level 2 not synchronized''),
     (EL3HLT, ''Level 3 halted''),
     (EL3RST, ''Level 3 reset''),
     (ELNRNG, ''Link number out of range''),
     (EUNATCH, ''Protocol driver not attached''),
     (ENOCSI, ''No CSI structure available''),
     (EL2HLT, ''Level 2 halted''),
     (EBADE, ''Invalid exchange''),
     (EBADR, ''Invalid request descriptor''),
     (EXFULL, ''Exchange full''),
     (ENOANO, ''No anode''),
     (EBADRQC, ''Invalid request code''),
     (EBADSLT, ''Invalid slot''),
     (EDEADLOCK, ''File locking deadlock error''),
     (EBFONT, ''Bad font file format''),
     (ENOSTR, ''Device not a stream''),
     (ENODATA, ''No data available''),
     (ETIME, ''Timer expired''),
     (ENOSR, ''Out of streams resources''),
     (ENONET, ''Machine is not on the network''),
     (ENOPKG, ''Package not installed''),
     (EREMOTE, ''Object is remote''),
     (ENOLINK, ''Link has been severed''),
     (EADV, ''Advertise error''),
     (ESRMNT, ''Srmount error''),
     (ECOMM, ''Communication error on send''),
     (EPROTO, ''Protocol error''),
     (EMULTIHOP, ''Multihop attempted''),
     (EDOTDOT, ''RFS specific error''),
     (EBADMSG, ''Not a data message''),
     (EOVERFLOW, ''Value too large for defined data type''),
     (ENOTUNIQ, ''Name not unique on network''),
     (EBADFD, ''File descriptor in bad state''),
     (EREMCHG, ''Remote address changed''),
     (ELIBACC, ''Can not access a needed shared library''),
     (ELIBBAD, ''Accessing a corrupted shared library''),
     (ELIBSCN, ''.lib section in a.out corrupted''),
     (ELIBMAX, ''Attempting to link in too many shared libraries''),
     (ELIBEXEC, ''Cannot exec a shared library directly''),
     (EILSEQ, ''Illegal byte sequence''),
     (ERESTART, ''Interrupted system call should be restarted''),
     (ESTRPIPE, ''Streams pipe error''),
     (EUSERS, ''Too many users''),
     (ENOTSOCK, ''Socket operation on non-socket''),
     (EDESTADDRREQ, ''Destination address required''),
     (EMSGSIZE, ''Message too long''),
     (EPROTOTYPE, ''Protocol wrong type for socket''),
     (ENOPROTOOPT, ''Protocol not available''),
     (EPROTONOSUPPORT, ''Protocol not supported''),
     (ESOCKTNOSUPPORT, ''Socket type not supported''),
     (EOPNOTSUPP, ''Operation not supported on transport endpoint''),
     (EPFNOSUPPORT, ''Protocol family not supported''),
     (EAFNOSUPPORT, ''Address family not supported by protocol''),
     (EADDRINUSE, ''Address already in use''),
     (EADDRNOTAVAIL, ''Cannot assign requested address''),
     (ENETDOWN, ''Network is down''),
     (ENETUNREACH, ''Network is unreachable''),
     (ENETRESET, ''Network dropped connection because of reset''),
     (ECONNABORTED, ''Software caused connection abort''),
     (ECONNRESET, ''Connection reset by peer''),
     (ENOBUFS, ''No buffer space available''),
     (EISCONN, ''Transport endpoint is already connected''),
     (ENOTCONN, ''Transport endpoint is not connected''),
     (ESHUTDOWN, ''Cannot send after transport endpoint shutdown''),
     (ETOOMANYREFS, ''Too many references: cannot splice''),
     (ETIMEDOUT, ''Connection timed out''),
     (ECONNREFUSED, ''Connection refused''),
     (EHOSTDOWN, ''Host is down''),
     (EHOSTUNREACH, ''No route to host''),
     (EALREADY, ''Operation already in progress''),
     (EINPROGRESS, ''Operation now in progress''),
     (ESTALE, ''Stale file handle''),
     (EUCLEAN, ''Structure needs cleaning''),
     (ENOTNAM, ''Not a XENIX named type file''),
     (ENAVAIL, ''No XENIX semaphores available''),
     (EISNAM, ''Is a named type file''),
     (EREMOTEIO, ''Remote I/O error''),
     (EDQUOT, ''Quota exceeded''),
     (ENOMEDIUM, ''No medium found''),
     (EMEDIUMTYPE, ''Wrong medium type''),
     (ECANCELED, ''Operation Canceled''),
     (ENOKEY, ''Required key not available''),
     (EKEYEXPIRED, ''Key has expired''),
     (EKEYREVOKED, ''Key has been revoked''),
     (EKEYREJECTED, ''Key was rejected by service''),
     (EOWNERDEAD, ''Owner died''),
     (ENOTRECOVERABLE, ''State not recoverable''),
     (ERFKILL, ''Operation not possible due to RF-kill''),
     (EHWPOISON, ''Memory page has hardware error'')]"

definition errno_to_string :: "errno \<Rightarrow> string" where
  "errno_to_string err = (case map_of errno_messages err of Some m \<Rightarrow> m | None \<Rightarrow> ''Unknown errno'')"

section \<open>Properties\<close>

lemma errno_messages_codes: "map fst errno_messages = [1..133]"
  by code_simp

lemma errno_messages_known: "''Unknown errno'' \<notin> set (map snd errno_messages)"
  by (simp add: errno_messages_def)

lemma map_of_None_codes: "map_of errno_messages err = None \<longleftrightarrow> err \<notin> {1..133}"
proof -
  have "fst ` set errno_messages = set [1..133]" by (simp only: errno_messages_codes flip: set_map)
  then show ?thesis by (simp add: map_of_eq_None_iff)
qed



end
