(* ===== verification/Files.thy ===== *)
theory Files
  imports Mm Errno
begin

text \<open>
  Open files (\<^verbatim>\<open>io/file.h\<close>, \<^verbatim>\<open>io/kobject.h\<close>, \<^verbatim>\<open>io/fdpool.c\<close>, \<^verbatim>\<open>io/openfile.c\<close>, \<^verbatim>\<open>io/fdman.c\<close>,
  \<^verbatim>\<open>io/console.c\<close>). A descriptor of a process refers to an open file, an open file to a target, and open
  files and targets count their references. The three kinds of structure live in demand-paged pools.
  A function pointer of the C code is the name of the function it can point to; the functions of a block
  device's driver, which are not part of the kernel, are addresses.
\<close>

section \<open>Structures\<close>

datatype kobject_type =
  KOBJECT_TYPE_BLKDEV | KOBJECT_TYPE_VNODE | KOBJECT_TYPE_OPENFILE | KOBJECT_TYPE_PIPE | KOBJECT_TYPE_STREAM

datatype kobject_op = Console_Op_Get | Console_Op_Put
datatype target_read_fn = Console_Read | Kblkdev_Read_Bytes
datatype target_write_fn = Console_Write | Kblkdev_Write_Bytes

record kobject =
  k_type :: kobject_type
  k_refcount :: u32
  k_flags :: u32
  k_self :: u32
  op_get :: "kobject_op option"
  op_put :: "kobject_op option"

record blkdev_ops =
  bo_read :: u32
  bo_write :: u32
  bo_flush :: u32
  bo_get_info :: u32

record kblkdev =
  block_size :: u32
  blk_ops :: blkdev_ops
  base_lba :: u64
  span_blocks :: u64
  driver_context :: u32

text \<open>Of the union \<^verbatim>\<open>ftdata_t\<close> only the member for block devices is ever used.\<close>

record file_target =
  ft_kobj :: kobject
  ft_read :: "target_read_fn option"
  ft_write :: "target_write_fn option"
  ft_blkdev :: kblkdev
  ft_pool_id :: u32

record open_file =
  of_kobj :: kobject
  of_offset :: u64
  of_target :: u32
  of_pool_id :: u32

record fd_entry =
  fd_id :: u32
  fd_of :: u32
  fd_next :: u32
  local_id :: u16

record console =
  con_target :: u32
  con_of :: u32

definition SIZEOF_OPEN_FILE :: u32 where "SIZEOF_OPEN_FILE = 40"
definition SIZEOF_FD_ENTRY :: u32 where "SIZEOF_FD_ENTRY = 16"
definition SIZEOF_FILE_TARGET :: u32 where "SIZEOF_FILE_TARGET = 76"

definition zero_kobject :: kobject where
  "zero_kobject = \<lparr>k_type = KOBJECT_TYPE_BLKDEV, k_refcount = 0, k_flags = 0, k_self = 0, op_get = None, op_put = None\<rparr>"

definition zero_kblkdev :: kblkdev where
  "zero_kblkdev = \<lparr>block_size = 0, blk_ops = \<lparr>bo_read = 0, bo_write = 0, bo_flush = 0, bo_get_info = 0\<rparr>,
     base_lba = 0, span_blocks = 0, driver_context = 0\<rparr>"

definition zero_file_target :: file_target where
  "zero_file_target = \<lparr>ft_kobj = zero_kobject, ft_read = None, ft_write = None, ft_blkdev = zero_kblkdev, ft_pool_id = 0\<rparr>"

definition zero_open_file :: open_file where
  "zero_open_file = \<lparr>of_kobj = zero_kobject, of_offset = 0, of_target = 0, of_pool_id = 0\<rparr>"

definition zero_fd_entry :: fd_entry where
  "zero_fd_entry = \<lparr>fd_id = 0, fd_of = 0, fd_next = 0, local_id = 0\<rparr>"

text \<open>\<open>console_out\<close> is what has been written to the text console.\<close>

record files = vm +
  openfile_bitmap :: bitmap
  open_files :: "u32 \<Rightarrow> open_file"
  fd_bitmap :: bitmap
  fd_entries :: "u32 \<Rightarrow> fd_entry"
  ftarget_bitmap :: bitmap
  file_targets :: "u32 \<Rightarrow> file_target"
  consoles :: "console list"
  selected_console :: nat
  console_out :: "u8 list"

definition upd_open_file :: "u32 \<Rightarrow> (open_file \<Rightarrow> open_file) \<Rightarrow> 'a files_scheme \<Rightarrow> 'a files_scheme" where
  "upd_open_file p f s = s\<lparr>open_files := (open_files s)(p := f (open_files s p))\<rparr>"

definition upd_fd_entry :: "u32 \<Rightarrow> (fd_entry \<Rightarrow> fd_entry) \<Rightarrow> 'a files_scheme \<Rightarrow> 'a files_scheme" where
  "upd_fd_entry p f s = s\<lparr>fd_entries := (fd_entries s)(p := f (fd_entries s p))\<rparr>"

definition upd_file_target :: "u32 \<Rightarrow> (file_target \<Rightarrow> file_target) \<Rightarrow> 'a files_scheme \<Rightarrow> 'a files_scheme" where
  "upd_file_target p f s = s\<lparr>file_targets := (file_targets s)(p := f (file_targets s p))\<rparr>"

definition upd_refcount :: "(u32 \<Rightarrow> u32) \<Rightarrow> kobject \<Rightarrow> kobject" where
  "upd_refcount f k = k\<lparr>k_refcount := f (k_refcount k)\<rparr>"

text \<open>The operations of the console do nothing.\<close>

definition console_op_get :: "u32 \<Rightarrow> 'a files_scheme \<Rightarrow> 'a files_scheme" where
  "console_op_get obj s = s"

definition console_op_put :: "u32 \<Rightarrow> 'a files_scheme \<Rightarrow> 'a files_scheme" where
  "console_op_put obj s = s"

fun call_kobject_op :: "kobject_op option \<Rightarrow> u32 \<Rightarrow> 'a files_scheme \<Rightarrow> 'a files_scheme" where
  "call_kobject_op None obj s = s"
| "call_kobject_op (Some Console_Op_Get) obj s = console_op_get obj s"
| "call_kobject_op (Some Console_Op_Put) obj s = console_op_put obj s"


section \<open>Pools\<close>

definition OPENFILE_BITMAP_BASE :: u32 where "OPENFILE_BITMAP_BASE = OPENFILE_VIRTUAL_BASE - 0x1000"
definition FD_BITMAP_BASE :: u32 where "FD_BITMAP_BASE = FD_VIRTUAL_BASE - 0x1000"
definition FTARGET_BITMAP_BASE :: u32 where "FTARGET_BITMAP_BASE = FTARGET_VIRTUAL_BASE - 0x1000"
definition FTARGET_END :: u32 where "FTARGET_END = 0xEFFFFFFF"

definition openfile_vaddr_size_bytes :: u32 where
  "openfile_vaddr_size_bytes = (FD_BITMAP_BASE - OPENFILE_VIRTUAL_BASE) AND 0xFFFFF000"
definition fd_vaddr_size_bytes :: u32 where
  "fd_vaddr_size_bytes = (FTARGET_BITMAP_BASE - FD_VIRTUAL_BASE) AND 0xFFFFF000"
definition ftarget_vaddr_size_bytes :: u32 where
  "ftarget_vaddr_size_bytes = (FTARGET_END - FTARGET_VIRTUAL_BASE) AND 0xFFFFF000"

definition openfile_bitmap_size_bytes :: u32 where "openfile_bitmap_size_bytes = 0x1000"
definition fd_bitmap_size_bytes :: u32 where "fd_bitmap_size_bytes = 0x1000"
definition ftarget_bitmap_size_bytes :: u32 where "ftarget_bitmap_size_bytes = 0x1000"

definition clear_open_file_page :: "u32 \<Rightarrow> 'a files_scheme \<Rightarrow> 'a files_scheme" where
  "clear_open_file_page base s = s\<lparr>open_files := (\<lambda>p. if p - base < 4096 then zero_open_file else open_files s p)\<rparr>"

definition clear_fd_page :: "u32 \<Rightarrow> 'a files_scheme \<Rightarrow> 'a files_scheme" where
  "clear_fd_page base s = s\<lparr>fd_entries := (\<lambda>p. if p - base < 4096 then zero_fd_entry else fd_entries s p)\<rparr>"

definition clear_ftarget_page :: "u32 \<Rightarrow> 'a files_scheme \<Rightarrow> 'a files_scheme" where
  "clear_ftarget_page base s = s\<lparr>file_targets := (\<lambda>p. if p - base < 4096 then zero_file_target else file_targets s p)\<rparr>"

definition fdpool_init :: "'a files_scheme \<Rightarrow> 'a files_scheme option" where
  "fdpool_init s = do {
     (ok, bm, s) \<leftarrow> dpage_init clear_open_file_page OPENFILE_BITMAP_BASE OPENFILE_VIRTUAL_BASE (openfile_bitmap s) s;
     if \<not> ok then None else do {
       let s = s\<lparr>openfile_bitmap := bm\<rparr>;
       (ok, bm, s) \<leftarrow> dpage_init clear_fd_page FD_BITMAP_BASE FD_VIRTUAL_BASE (fd_bitmap s) s;
       if \<not> ok then None else do {
         let s = s\<lparr>fd_bitmap := bm\<rparr>;
         (ok, bm, s) \<leftarrow> dpage_init clear_ftarget_page FTARGET_BITMAP_BASE FTARGET_VIRTUAL_BASE (ftarget_bitmap s) s;
         if \<not> ok then None else Some (s\<lparr>ftarget_bitmap := bm\<rparr>) } } }"

definition fdpool_free_ftarget :: "u32 \<Rightarrow> 'a files_scheme \<Rightarrow> 'a files_scheme option" where
  "fdpool_free_ftarget ft s =
     (if ft = 0 then Some s
      else do {
        bm \<leftarrow> dpage_bm_clear (ft_pool_id (file_targets s ft)) (ftarget_bitmap s) ftarget_bitmap_size_bytes;
        Some (upd_file_target ft (\<lambda>_. zero_file_target) (s\<lparr>ftarget_bitmap := bm\<rparr>)) })"

definition fdpool_free_openfile :: "u32 \<Rightarrow> 'a files_scheme \<Rightarrow> 'a files_scheme option" where
  "fdpool_free_openfile oof s =
     (if oof = 0 then Some s
      else do {
        bm \<leftarrow> dpage_bm_clear (of_pool_id (open_files s oof)) (openfile_bitmap s) openfile_bitmap_size_bytes;
        Some (upd_open_file oof (\<lambda>_. zero_open_file) (s\<lparr>openfile_bitmap := bm\<rparr>)) })"

definition fdpool_free_fdentry :: "u32 \<Rightarrow> 'a files_scheme \<Rightarrow> 'a files_scheme option" where
  "fdpool_free_fdentry fd s =
     (if fd = 0 then Some s
      else do {
        bm \<leftarrow> dpage_bm_clear (fd_id (fd_entries s fd)) (fd_bitmap s) fd_bitmap_size_bytes;
        Some (upd_fd_entry fd (\<lambda>_. zero_fd_entry) (s\<lparr>fd_bitmap := bm\<rparr>)) })"


section \<open>References\<close>

definition file_target_get :: "u32 \<Rightarrow> 'a files_scheme \<Rightarrow> 'a files_scheme" where
  "file_target_get target s =
     (if target = 0 then s
      else let s = upd_file_target target (\<lambda>t. t\<lparr>ft_kobj := upd_refcount (\<lambda>n. n + 1) (ft_kobj t)\<rparr>) s
           in call_kobject_op (op_get (ft_kobj (file_targets s target))) target s)"

definition file_target_put :: "u32 \<Rightarrow> 'a files_scheme \<Rightarrow> 'a files_scheme option" where
  "file_target_put target s =
     (if target = 0 then Some s
      else if k_refcount (ft_kobj (file_targets s target)) = 0 then None
      else let s = call_kobject_op (op_put (ft_kobj (file_targets s target))) target s;
               s = upd_file_target target (\<lambda>t. t\<lparr>ft_kobj := upd_refcount (\<lambda>n. n - 1) (ft_kobj t)\<rparr>) s
           in if k_refcount (ft_kobj (file_targets s target)) = 0 then fdpool_free_ftarget target s else Some s)"

definition open_file_get :: "u32 \<Rightarrow> 'a files_scheme \<Rightarrow> 'a files_scheme" where
  "open_file_get oof s =
     (if oof = 0 then s
      else let s = upd_open_file oof (\<lambda>f. f\<lparr>of_kobj := upd_refcount (\<lambda>n. n + 1) (of_kobj f)\<rparr>) s
           in call_kobject_op (op_get (of_kobj (open_files s oof))) oof s)"

definition open_file_put :: "u32 \<Rightarrow> 'a files_scheme \<Rightarrow> 'a files_scheme option" where
  "open_file_put oof s =
     (if oof = 0 then Some s
      else if k_refcount (of_kobj (open_files s oof)) = 0 then None
      else let s = call_kobject_op (op_put (of_kobj (open_files s oof))) oof s;
               s = upd_open_file oof (\<lambda>f. f\<lparr>of_kobj := upd_refcount (\<lambda>n. n - 1) (of_kobj f)\<rparr>) s
           in if k_refcount (of_kobj (open_files s oof)) = 0
              then do { s \<leftarrow> file_target_put (of_target (open_files s oof)) s; fdpool_free_openfile oof s }
              else Some s)"


section \<open>Allocation\<close>

definition fdpool_alloc_openfile :: "u32 \<Rightarrow> 'a files_scheme \<Rightarrow> (u32 \<times> 'a files_scheme) option" where
  "fdpool_alloc_openfile target s = do {
     ((ret, _), bm, s) \<leftarrow> dpage_alloc (\<lambda>p. upd_open_file p (\<lambda>_. zero_open_file)) (openfile_bitmap s)
        OPENFILE_VIRTUAL_BASE openfile_vaddr_size_bytes SIZEOF_OPEN_FILE openfile_bitmap_size_bytes s;
     let s = s\<lparr>openfile_bitmap := bm\<rparr>;
     if ret = 0 then Some (0, s)
     else let s = upd_open_file ret (\<lambda>f. f\<lparr>
                    of_offset := 0,
                    of_kobj := \<lparr>k_type = KOBJECT_TYPE_OPENFILE, k_refcount = 1, k_flags = 0, k_self = ret,
                                op_get = None, op_put = None\<rparr>,
                    of_pool_id := (ret - OPENFILE_VIRTUAL_BASE) div SIZEOF_OPEN_FILE,
                    of_target := target\<rparr>) s
          in Some (ret, if target \<noteq> 0 then file_target_get target s else s) }"

definition fdpool_get_openfile :: "u32 \<Rightarrow> 'a files_scheme \<Rightarrow> u32 option" where
  "fdpool_get_openfile index s =
     (if index \<ge> openfile_vaddr_size_bytes div SIZEOF_OPEN_FILE then Some 0
      else do {
        used \<leftarrow> dpage_is_allocated index (openfile_bitmap s) openfile_bitmap_size_bytes;
        Some (if \<not> used then 0 else OPENFILE_VIRTUAL_BASE + index * SIZEOF_OPEN_FILE) })"

definition fdpool_alloc_fdentry :: "u32 \<Rightarrow> 'a files_scheme \<Rightarrow> (u32 \<times> 'a files_scheme) option" where
  "fdpool_alloc_fdentry oof s = do {
     ((ret, _), bm, s) \<leftarrow> dpage_alloc (\<lambda>p. upd_fd_entry p (\<lambda>_. zero_fd_entry)) (fd_bitmap s)
        FD_VIRTUAL_BASE fd_vaddr_size_bytes SIZEOF_FD_ENTRY fd_bitmap_size_bytes s;
     let s = s\<lparr>fd_bitmap := bm\<rparr>;
     if ret = 0 then Some (0, s)
     else Some (ret, upd_fd_entry ret (\<lambda>e. e\<lparr>fd_id := (ret - FD_VIRTUAL_BASE) div SIZEOF_FD_ENTRY,
                       fd_of := oof, fd_next := 0, local_id := 0\<rparr>) s) }"

definition fdpool_get_fdentry :: "u32 \<Rightarrow> 'a files_scheme \<Rightarrow> u32 option" where
  "fdpool_get_fdentry index s =
     (if index \<ge> fd_vaddr_size_bytes div SIZEOF_FD_ENTRY then Some 0
      else do {
        used \<leftarrow> dpage_is_allocated index (fd_bitmap s) fd_bitmap_size_bytes;
        Some (if \<not> used then 0 else FD_VIRTUAL_BASE + index * SIZEOF_FD_ENTRY) })"

definition fdpool_alloc_ftarget :: "kobject_type \<Rightarrow> 'a files_scheme \<Rightarrow> (u32 \<times> 'a files_scheme) option" where
  "fdpool_alloc_ftarget type s = do {
     ((ret, _), bm, s) \<leftarrow> dpage_alloc (\<lambda>p. upd_file_target p (\<lambda>_. zero_file_target)) (ftarget_bitmap s)
        FTARGET_VIRTUAL_BASE ftarget_vaddr_size_bytes SIZEOF_FILE_TARGET ftarget_bitmap_size_bytes s;
     let s = s\<lparr>ftarget_bitmap := bm\<rparr>;
     if ret = 0 then Some (0, s)
     else Some (ret, upd_file_target ret (\<lambda>t. t\<lparr>
                  ft_kobj := \<lparr>k_type = type, k_refcount = 1, k_flags = 0, k_self = ret, op_get = None, op_put = None\<rparr>,
                  ft_read := None, ft_write := None, ft_blkdev := zero_kblkdev,
                  ft_pool_id := (ret - FTARGET_VIRTUAL_BASE) div SIZEOF_FILE_TARGET\<rparr>) s) }"

definition fdpool_get_ftarget :: "u32 \<Rightarrow> 'a files_scheme \<Rightarrow> u32 option" where
  "fdpool_get_ftarget index s =
     (if index \<ge> ftarget_vaddr_size_bytes div SIZEOF_FILE_TARGET then Some 0
      else do {
        used \<leftarrow> dpage_is_allocated index (ftarget_bitmap s) ftarget_bitmap_size_bytes;
        Some (if \<not> used then 0 else FTARGET_VIRTUAL_BASE + index * SIZEOF_FILE_TARGET) })"


section \<open>The console\<close>

definition CONSOLE_COUNT :: nat where "CONSOLE_COUNT = 1"

primrec console_init_from :: "nat \<Rightarrow> nat \<Rightarrow> 'a files_scheme \<Rightarrow> 'a files_scheme option" where
  "console_init_from 0 i s = Some s"
| "console_init_from (Suc n) i s = do {
     (target, s) \<leftarrow> fdpool_alloc_ftarget KOBJECT_TYPE_STREAM s;
     let s = s\<lparr>consoles := (consoles s)[i := (consoles s ! i)\<lparr>con_target := target\<rparr>]\<rparr>;
     if target = 0 then None
     else do {
       let s = upd_file_target target (\<lambda>t. t\<lparr>ft_kobj := (ft_kobj t)\<lparr>op_get := Some Console_Op_Get, op_put := Some Console_Op_Put\<rparr>,
                 ft_read := Some Console_Read, ft_write := Some Console_Write\<rparr>) s;
       (oof, s) \<leftarrow> fdpool_alloc_openfile target s;
       let s = s\<lparr>consoles := (consoles s)[i := (consoles s ! i)\<lparr>con_of := oof\<rparr>]\<rparr>;
       if oof = 0 then None else console_init_from n (Suc i) s } }"

definition console_init :: "'a files_scheme \<Rightarrow> 'a files_scheme option" where
  "console_init s = console_init_from CONSOLE_COUNT 0 s"

definition console_get_stdio :: "'a files_scheme \<Rightarrow> u32" where
  "console_get_stdio s = con_of (consoles s ! selected_console s)"

definition unix_io_init :: "'a files_scheme \<Rightarrow> 'a files_scheme option" where
  "unix_io_init s = do { s \<leftarrow> fdpool_init s; console_init s }"

text \<open>A buffer is the bytes at its address, or \<open>None\<close> for a null pointer.\<close>

definition console_read :: "u32 \<Rightarrow> u32 \<Rightarrow> u64 \<Rightarrow> 'a files_scheme \<Rightarrow> int \<times> 'a files_scheme" where
  "console_read target len off s = (- EAGAIN, s)"

definition console_write ::
  "u32 \<Rightarrow> u8 list option \<Rightarrow> u32 \<Rightarrow> u64 \<Rightarrow> 'a files_scheme \<Rightarrow> (int \<times> 'a files_scheme) option" where
  "console_write target buffer len off s =
     (if len = 0 then Some (0, s)
      else (case buffer of
        None \<Rightarrow> Some (- EFAULT, s)
      | Some bs \<Rightarrow>
          if length bs < unat len then None
          else Some (sint len, s\<lparr>console_out := console_out s @ take (unat len) bs\<rparr>)))"


section \<open>Copying the descriptors of a process\<close>

partial_function (option) free_copies :: "u32 \<Rightarrow> 'a files_scheme \<Rightarrow> 'a files_scheme option" where
  "free_copies head s =
     (if head = 0 then Some s
      else let nxt = fd_next (fd_entries s head)
           in Option.bind (open_file_put (fd_of (fd_entries s head)) s) (\<lambda>s.
              Option.bind (fdpool_free_fdentry head s) (\<lambda>s. free_copies nxt s)))"

partial_function (option) copy_entries ::
  "u32 \<Rightarrow> u32 \<Rightarrow> u32 \<Rightarrow> 'a files_scheme \<Rightarrow> (u32 \<times> 'a files_scheme) option" where
  "copy_entries src copy_head copy_tail s =
     (if src = 0 then Some (copy_head, s)
      else Option.bind (fdpool_alloc_fdentry (fd_of (fd_entries s src)) s) (\<lambda>(copy, s).
        let copy_head = (if copy_head = 0 then copy else copy_head)
        in if copy = 0 then Option.bind (free_copies copy_head s) (\<lambda>s. Some (0, s))
           else let e = fd_entries s src;
                    s = upd_fd_entry copy (\<lambda>c. c\<lparr>fd_of := fd_of e, local_id := local_id e\<rparr>) s;
                    s = (if fd_of (fd_entries s copy) \<noteq> 0 then open_file_get (fd_of (fd_entries s copy)) s else s);
                    s = (if copy_tail \<noteq> 0 then upd_fd_entry copy_tail (\<lambda>c. c\<lparr>fd_next := copy\<rparr>) s else s);
                    copy_head = (if copy_tail \<noteq> 0 then copy_head else copy)
                in copy_entries (fd_next (fd_entries s src)) copy_head copy s))"

definition fde_fork_copy :: "u32 \<Rightarrow> 'a files_scheme \<Rightarrow> (u32 \<times> 'a files_scheme) option" where
  "fde_fork_copy src s = (if src = 0 then Some (0, s) else copy_entries src 0 0 s)"

text \<open>An example state without files.\<close>

definition ex_files :: files where
  "ex_files = vm.extend ex_vm
     (files.fields [] (\<lambda>_. zero_open_file) [] (\<lambda>_. zero_fd_entry) [] (\<lambda>_. zero_file_target) [] 0 [])"

end
