(* ===== verification/Pool.thy ===== *)
theory Pool
  imports Files
begin

text \<open>
  The pools of threads, processes and kernel stacks (\<^verbatim>\<open>pool.c\<close>): their sizes from the amount of memory,
  the kernel regions they lie in, and the guard page below every kernel stack.
\<close>

section \<open>Definitions\<close>

definition POOL_PAGES :: u32 where "POOL_PAGES = 256"
definition THREAD_POOL_DIV :: u32 where "THREAD_POOL_DIV = 1"
definition PROCESS_POOL_DIV :: u32 where "PROCESS_POOL_DIV = 2"
definition KSTACK_USABLE_PAGES :: u32 where "KSTACK_USABLE_PAGES = 2"
definition KSTACK_GUARD_PAGES :: u32 where "KSTACK_GUARD_PAGES = 1"
definition KSTACK_STRIDE_PAGES :: u32 where "KSTACK_STRIDE_PAGES = KSTACK_USABLE_PAGES + KSTACK_GUARD_PAGES"

lemmas pool_defs = POOL_PAGES_def THREAD_POOL_DIV_def PROCESS_POOL_DIV_def KSTACK_USABLE_PAGES_def
  KSTACK_GUARD_PAGES_def KSTACK_STRIDE_PAGES_def

definition REGION_THREADPOOL :: string where "REGION_THREADPOOL = ''threadpool''"
definition REGION_PROCESSPOOL :: string where "REGION_PROCESSPOOL = ''processpool''"
definition REGION_KSTACK :: string where "REGION_KSTACK = ''kstacks''"

text \<open>The sizes of \<^verbatim>\<open>thread_t\<close> and \<^verbatim>\<open>process_t\<close> (\<^verbatim>\<open>sched.h\<close>) on i386.\<close>

definition SIZEOF_THREAD :: u32 where "SIZEOF_THREAD = 148"
definition SIZEOF_PROCESS :: u32 where "SIZEOF_PROCESS = 84"

record pool = files +
  thread_pool_base :: u32
  g_thread_pool_slot_count :: u32
  process_pool_base :: u32
  g_process_pool_slot_count :: u32
  kstack_pool_base :: u32
  g_kstack_pool_slot_count :: u32

text \<open>The addresses of the bottom and of the top of a kernel stack.\<close>

definition pool_get_kstack :: "u32 \<Rightarrow> 'a pool_scheme \<Rightarrow> (u32 \<times> u32) option" where
  "pool_get_kstack slot s =
     (if slot \<ge> g_kstack_pool_slot_count s then None
      else let kstack_virt = kstack_pool_base s + slot * KSTACK_STRIDE_PAGES * 4096
           in Some (kstack_virt + KSTACK_GUARD_PAGES * 4096, kstack_virt + KSTACK_STRIDE_PAGES * 4096))"

definition maxScalar :: u32 where "maxScalar = 4"

function pool_scalar :: "u32 \<Rightarrow> u32 \<Rightarrow> u32" where
  "pool_scalar memory_mb scalar =
     (if drop_bit 1 memory_mb \<noteq> 0 \<and> memory_mb > 16 \<and> scalar < maxScalar
      then pool_scalar (drop_bit 1 memory_mb) (scalar + 1) else scalar)"
  by auto
termination
  by (relation "measure (\<lambda>(m, k). unat m)") (auto simp: drop_bit_eq_div word_less_nat_alt unat_div)

text \<open>The sizes of the pool of threads and of the pool of processes, and the pages of the kernel stacks.\<close>

definition pool_sizes :: "u32 \<Rightarrow> u32 \<times> u32 \<times> u32" where
  "pool_sizes scalar =
     (let processpool_size = (POOL_PAGES div PROCESS_POOL_DIV) * 4096 * scalar;
          kstack_pages = (POOL_PAGES div THREAD_POOL_DIV) * KSTACK_STRIDE_PAGES * scalar;
          threadpool_size = (POOL_PAGES div THREAD_POOL_DIV) * 4096 * scalar;
          threadpool_size =
            (if threadpool_size div SIZEOF_THREAD > kstack_pages div KSTACK_STRIDE_PAGES
             then push_bit 12 (drop_bit 12 ((kstack_pages div KSTACK_STRIDE_PAGES) * SIZEOF_THREAD))
             else threadpool_size)
      in (threadpool_size, processpool_size, kstack_pages))"

primrec set_guards :: "nat \<Rightarrow> u32 \<Rightarrow> u32 \<Rightarrow> 'a paging_scheme \<Rightarrow> 'a paging_scheme option" where
  "set_guards 0 i base s = Some s"
| "set_guards (Suc n) i base s = do {
     (r, s) \<leftarrow> paging_set_flags (base + i * 4096) PG_PRESENT s;
     if r \<noteq> PAGING_OK then None else set_guards n (i + KSTACK_STRIDE_PAGES) base s }"

definition pool_init :: "'a pool_scheme \<Rightarrow> 'a pool_scheme option" where
  "pool_init s = do {
     let scalar = pool_scalar (g_avail_memory_kib s div 1024) 1;
     let (threadpool_size, processpool_size, kstack_pages) = pool_sizes scalar;
     (base, s) \<leftarrow> kva_register_region REGION_THREADPOOL threadpool_size s;
     let s = s\<lparr>thread_pool_base := base\<rparr>;
     (base, s) \<leftarrow> kva_register_region REGION_PROCESSPOOL processpool_size s;
     let s = s\<lparr>process_pool_base := base\<rparr>;
     (base, s) \<leftarrow> kva_register_region REGION_KSTACK (kstack_pages * 4096) s;
     let s = s\<lparr>kstack_pool_base := base,
               g_thread_pool_slot_count := threadpool_size div SIZEOF_THREAD,
               g_process_pool_slot_count := processpool_size div SIZEOF_PROCESS,
               g_kstack_pool_slot_count := kstack_pages div KSTACK_STRIDE_PAGES\<rparr>;
     (ok, s) \<leftarrow> kva_map_region REGION_THREADPOOL s;
     if \<not> ok then None else do {
       (ok, s) \<leftarrow> kva_map_region REGION_PROCESSPOOL s;
       if \<not> ok then None else do {
         (ok, s) \<leftarrow> kva_map_region REGION_KSTACK s;
         if \<not> ok then None
         else set_guards (unat (kstack_pages div KSTACK_STRIDE_PAGES)) 0 (kstack_pool_base s) s } } }"

text \<open>An example state with two slots in each pool.\<close>

definition ex_pool :: pool where
  "ex_pool = files.extend ex_files (pool.fields 0xC1000000 2 0xC1010000 2 0xC1020000 2)"

section \<open>Sizes and kernel stacks\<close>

lemma pool_scalar_range:
  "1 \<le> k \<Longrightarrow> k \<le> maxScalar \<Longrightarrow> 1 \<le> pool_scalar m k \<and> pool_scalar m k \<le> maxScalar"
proof (induction m k rule: pool_scalar.induct)
  case (1 m k)
  have "k < maxScalar \<Longrightarrow> 1 \<le> k + 1 \<and> k + 1 \<le> maxScalar"
    using "1.prems" by (simp add: maxScalar_def word_le_nat_alt word_less_nat_alt unat_add_u32)
  then show ?case using 1 by (subst pool_scalar.simps, subst (2) pool_scalar.simps) auto
qed

lemma word_1_to_4: "1 \<le> k \<Longrightarrow> k \<le> 4 \<Longrightarrow> k \<in> {1, 2, 3, 4 :: u32}"
  by (simp add: word_le_nat_alt u32_eq_iff) linarith

lemma pool_sizes_values:
  "pool_sizes 1 = (0x9000, 0x80000, 768)" "pool_sizes 2 = (0x12000, 0x100000, 1536)"
  "pool_sizes 3 = (0x1B000, 0x180000, 2304)" "pool_sizes 4 = (0x25000, 0x200000, 3072)"
  by (code_simp)+

lemma pool_sizes_fit:
  assumes "pool_sizes (pool_scalar m 1) = (tp, pp, kp)"
  shows "tp div SIZEOF_THREAD \<le> kp div KSTACK_STRIDE_PAGES"
proof -
  have "pool_scalar m 1 \<in> {1, 2, 3, 4}"
    using pool_scalar_range [of 1 m] word_1_to_4 [of "pool_scalar m 1"] by (simp add: maxScalar_def)
  then show ?thesis using assms
    by (auto simp: pool_sizes_values SIZEOF_THREAD_def pool_defs)
qed

text \<open>The address of a slot, without wrap-around.\<close>

lemma kstack_slot_nat:
  assumes "unat base + unat (n :: u32) * 12288 < 2 ^ 32" "i < n" "k \<le> 12288"
  shows "unat (base + i * 3 * 4096 + of_nat k :: u32) = unat base + unat i * 12288 + k"
proof -
  have "unat i < unat n" using assms(2) by (simp add: word_less_nat_alt)
  then have i: "(unat i + 1) * 12288 \<le> unat n * 12288" by (intro mult_le_mono1) simp
  have "base + i * 3 * 4096 + of_nat k = (of_nat (unat base + unat i * 12288 + k) :: u32)" by simp
  moreover have "unat (of_nat (unat base + unat i * 12288 + k) :: u32) = unat base + unat i * 12288 + k"
    using assms i by (intro unat_of_nat_u32) simp
  ultimately show ?thesis by (simp only:)
qed

lemma pool_get_kstack_nat:
  assumes "unat (kstack_pool_base s) + unat (g_kstack_pool_slot_count s) * 12288 < 2 ^ 32" "i < g_kstack_pool_slot_count s"
  shows "\<exists>b t. pool_get_kstack i s = Some (b, t) \<and>
    unat b = unat (kstack_pool_base s) + unat i * 12288 + 4096 \<and> unat t = unat b + 8192"
  using kstack_slot_nat [OF assms, of 4096] kstack_slot_nat [OF assms, of 12288] assms(2)
  by (simp add: pool_get_kstack_def pool_defs Let_def not_le [symmetric])

text \<open>
  (C29) With the sizes the kernel computes for any amount of memory every slot of the pool of threads has a kernel stack of
  8 KiB, and the stacks of two slots, each with the guard page below it, do not overlap. The stacks lie in the region
  registered for them, provided the region does not reach the end of the address space.
\<close>

theorem kstack_of_every_thread:
  assumes "pool_sizes (pool_scalar m 1) = (tp, pp, kp)"
    and "g_kstack_pool_slot_count s = kp div KSTACK_STRIDE_PAGES"
    and "unat (kstack_pool_base s) + unat (g_kstack_pool_slot_count s) * 12288 < 2 ^ 32"
    and "i < tp div SIZEOF_THREAD" "j < tp div SIZEOF_THREAD"
  shows "\<exists>b t b' t'. pool_get_kstack i s = Some (b, t) \<and> pool_get_kstack j s = Some (b', t') \<and>
    unat t = unat b + 8192 \<and> unat (kstack_pool_base s) + 4096 \<le> unat b \<and>
    unat t \<le> unat (kstack_pool_base s) + unat (g_kstack_pool_slot_count s) * 12288 \<and>
    (i \<noteq> j \<longrightarrow> {unat b - 4096..<unat t} \<inter> {unat b' - 4096..<unat t'} = {})"
proof -
  have ij: "i < g_kstack_pool_slot_count s" "j < g_kstack_pool_slot_count s"
    using pool_sizes_fit [OF assms(1)] assms(2,4,5) by auto
  obtain b t where b: "pool_get_kstack i s = Some (b, t)" "unat b = unat (kstack_pool_base s) + unat i * 12288 + 4096"
    "unat t = unat b + 8192" using pool_get_kstack_nat [OF assms(3) ij(1)] by blast
  obtain b' t' where b': "pool_get_kstack j s = Some (b', t')" "unat b' = unat (kstack_pool_base s) + unat j * 12288 + 4096"
    "unat t' = unat b' + 8192" using pool_get_kstack_nat [OF assms(3) ij(2)] by blast
  have "unat i < unat (g_kstack_pool_slot_count s)" using ij(1) by (simp add: word_less_nat_alt)
  then have "(unat i + 1) * 12288 \<le> unat (g_kstack_pool_slot_count s) * 12288" by (intro mult_le_mono1) simp
  then have "unat t \<le> unat (kstack_pool_base s) + unat (g_kstack_pool_slot_count s) * 12288" using b by simp
  moreover have "{unat b - 4096..<unat t} \<inter> {unat b' - 4096..<unat t'} = {}" if "i \<noteq> j"
  proof -
    have "unat i < unat j \<or> unat j < unat i" using that by (auto simp: u32_eq_iff)
    then have "(unat i + 1) * 12288 \<le> unat j * 12288 \<or> (unat j + 1) * 12288 \<le> unat i * 12288" by auto
    then show ?thesis using b b' by auto
  qed
  ultimately show ?thesis using b b' by auto
qed

theorem kstack_of_every_thread_witness:
  "\<exists>b t b' t'. pool_get_kstack 0 (ex_pool\<lparr>g_kstack_pool_slot_count := 256\<rparr>) = Some (b, t) \<and>
     pool_get_kstack 1 (ex_pool\<lparr>g_kstack_pool_slot_count := 256\<rparr>) = Some (b', t') \<and>
     {unat b - 4096..<unat t} \<inter> {unat b' - 4096..<unat t'} = {}"
proof -
  have "pool_scalar 8 1 = 1" by (simp add: pool_scalar.simps)
  then have p: "pool_sizes (pool_scalar 8 1) = (0x9000, 0x80000, 768)" by (simp add: pool_sizes_values)
  have b: "kstack_pool_base (ex_pool\<lparr>g_kstack_pool_slot_count := 256\<rparr>) = 0xC1020000"
    by (simp add: ex_pool_def files.defs pool.defs)
  show ?thesis
    using kstack_of_every_thread [OF p, of "ex_pool\<lparr>g_kstack_pool_slot_count := 256\<rparr>" 0 1]
    by (simp add: b SIZEOF_THREAD_def pool_defs) blast
qed

end
