(* ===== verification/Trap.thy ===== *)
theory Trap
  imports Pool
begin

text \<open>
  Trap frames and the table of interrupt handlers (\<^verbatim>\<open>isr.h\<close>, \<^verbatim>\<open>isr.c\<close>). The kernel stacks are a store of
  32-bit words by address; a trap frame is eighteen words on one of them, and a frame that was entered from
  user mode has the user's stack pointer and stack segment above it.
\<close>

section \<open>Trap frames\<close>

definition GDT_SEL_KCODE :: u32 where "GDT_SEL_KCODE = 0x08"
definition GDT_SEL_KDATA :: u32 where "GDT_SEL_KDATA = 0x10"
definition GDT_SEL_UCODE :: u32 where "GDT_SEL_UCODE = 0x18"
definition GDT_SEL_UDATA :: u32 where "GDT_SEL_UDATA = 0x20"

record trap_frame =
  edi :: u32
  esi :: u32
  ebp :: u32
  esp_dummy :: u32
  ebx :: u32
  edx :: u32
  ecx :: u32
  eax :: u32
  ds :: u32
  es :: u32
  fs :: u32
  gs :: u32
  cr2 :: u32
  vector :: u32
  error :: u32
  eip :: u32
  cs :: u32
  eflags :: u32

type_synonym stack = "u32 \<Rightarrow> u32"

definition frame_words :: "trap_frame \<Rightarrow> u32 list" where
  "frame_words f = [edi f, esi f, ebp f, esp_dummy f, ebx f, edx f, ecx f, eax f, ds f, es f, fs f, gs f,
     cr2 f, vector f, error f, eip f, cs f, eflags f]"

text \<open>\<^verbatim>\<open>*tf\<close> as a value, and the assignment \<^verbatim>\<open>*tf = f\<close>.\<close>

definition load_frame :: "stack \<Rightarrow> u32 \<Rightarrow> trap_frame" where
  "load_frame k a = \<lparr>edi = k a, esi = k (a + 4), ebp = k (a + 8), esp_dummy = k (a + 12), ebx = k (a + 16),
     edx = k (a + 20), ecx = k (a + 24), eax = k (a + 28), ds = k (a + 32), es = k (a + 36), fs = k (a + 40),
     gs = k (a + 44), cr2 = k (a + 48), vector = k (a + 52), error = k (a + 56), eip = k (a + 60),
     cs = k (a + 64), eflags = k (a + 68)\<rparr>"

primrec store_words :: "u32 list \<Rightarrow> u32 \<Rightarrow> stack \<Rightarrow> stack" where
  "store_words [] a k = k"
| "store_words (w # ws) a k = store_words ws (a + 4) (k(a := w))"

definition store_frame :: "trap_frame \<Rightarrow> u32 \<Rightarrow> stack \<Rightarrow> stack" where
  "store_frame f a k = store_words (frame_words f) a k"

definition tf_has_user_tail :: "trap_frame \<Rightarrow> bool" where
  "tf_has_user_tail f \<longleftrightarrow> cs f AND 3 = 3"

definition tf_user_esp_slot :: "u32 \<Rightarrow> u32" where
  "tf_user_esp_slot tf = tf + 72"

definition tf_user_ss_slot :: "u32 \<Rightarrow> u32" where
  "tf_user_ss_slot tf = tf_user_esp_slot tf + 4"


section \<open>Handlers\<close>

text \<open>The functions the kernel registers.\<close>

datatype isr_handler =
  Exception_ud | Exception_np | Exception_ss | Exception_gpf | Exception_pf |
  Increment_ticks | Kb_handler | Sched_on_int81h | Syscall_handler

record trap = pool +
  kstacks :: stack
  g_isr_handlers :: "isr_handler option list" \<comment> \<open>256 entries\<close>

definition isr_register :: "u8 \<Rightarrow> isr_handler \<Rightarrow> 'a trap_scheme \<Rightarrow> 'a trap_scheme" where
  "isr_register v f s = s\<lparr>g_isr_handlers := (g_isr_handlers s)[unat v := Some f]\<rparr>"


section \<open>Lemmas\<close>

lemma load_store_frame [simp]: "load_frame (store_frame f a k) a = f"
  by (simp add: load_frame_def store_frame_def frame_words_def add.assoc)

text \<open>An example state without handlers.\<close>

definition ex_trap :: trap where
  "ex_trap = pool.extend ex_pool (trap.fields (\<lambda>_. 0) (replicate 256 None))"

end
