(* ===== verification/Sched.thy ===== *)
theory Sched
  imports Trap
begin

text \<open>
  The scheduler (\<^verbatim>\<open>sched.h\<close>, first part of \<^verbatim>\<open>sched.c\<close>): threads in a pool, a circular run queue, a sleep
  queue sorted by wake-up time, and for every process a list of threads that wait. Structures are records
  in stores by address and pointers are addresses, 0 for \<^verbatim>\<open>NULL\<close>. The functions run with interrupts
  disabled, so each is one step; \<^verbatim>\<open>sched_thread_yield\<close> asks for a switch, which happens when the software
  interrupt it raises returns through \<^verbatim>\<open>sched_do_switch\<close>. \<open>None\<close> is a panic, an access through a null
  pointer, or a loop along a damaged list that does not end.
\<close>

section \<open>Structures\<close>

datatype process_state = PROC_UNUSED | PROC_ALIVE | PROC_ZOMBIE | PROC_REAPED
datatype process_context = CTX_USER | CTX_DRIVER | CTX_KERNEL
datatype thread_state =
  THREAD_UNUSED | THREAD_RUNNABLE | THREAD_RUNNING | THREAD_SLEEPING | THREAD_BLOCKED | THREAD_ZOMBIE
datatype wait_kind = WAIT_NONE | WAIT_ANY | WAIT_CHILD | WAIT_SLEEP | WAIT_IO
datatype reap_result = REAP_SUCCESS | REAP_NO_ZOMBIE | REAP_INVALID_PID | REAP_UNLINKED_CHILD

definition MAXCOMLEN :: nat where "MAXCOMLEN = 16"
definition IDLECOMNAME :: string where "IDLECOMNAME = ''sysidle''"

text \<open>Exit codes are \<^verbatim>\<open>int\<close>, kept as their 32 bits.\<close>

record process =
  p_slot_inuse :: bool
  p_slot_id :: u32
  pid :: u32
  ppid :: u32
  p_state :: process_state
  live_thread_count :: u32
  p_exit_code :: u32
  p_context :: process_context
  comm :: "char list"
  parent :: u32
  first_child :: u32
  next_sibling :: u32
  main_thread :: u32
  thread_list :: u32
  waiters :: u32
  addr_space :: u32
  fd_list :: u32
  fd_count :: u16

record thread =
  t_slot_inuse :: bool
  t_slot_id :: u32
  generation_id :: u32
  tid :: u32
  t_state :: thread_state
  t_proc :: u32
  saved_esp :: u32
  kstack_base :: u32
  kstack_top :: u32
  wake_tick :: u32
  t_exit_code :: u32
  entry :: u32
  wait_kind :: wait_kind
  wait_target_pid :: u32
  wait_owner :: u32
  wait_next :: u32
  rq_next :: u32
  sleep_next :: u32
  threadlist_next :: u32

text \<open>
  \<open>thread_bootstrap\<close> and \<open>sched_idle\<close> are the addresses of these functions; \<open>ticks\<close> is the counter of
  \<^verbatim>\<open>pit.c\<close>, and the last two fields are the words of the task state segment the scheduler writes.
\<close>

record sched = trap +
  rr_ticks_left :: u32
  thread_pool :: u32
  thread_pool_count :: u32
  process_pool :: u32
  process_pool_count :: u32
  threads :: "u32 \<Rightarrow> thread"
  processes :: "u32 \<Rightarrow> process"
  thread_head :: u32
  thread_current :: u32
  thread_sleep_head :: u32
  sched_pending :: bool
  next_tid :: u32
  ticks :: u64
  thread_bootstrap :: u32
  sched_idle :: u32
  tss_esp0 :: u32
  tss_ss0 :: u16

definition RR_SCHEDULER_CADENCE :: u32 where "RR_SCHEDULER_CADENCE = 10"

definition upd_thread :: "u32 \<Rightarrow> (thread \<Rightarrow> thread) \<Rightarrow> 'a sched_scheme \<Rightarrow> 'a sched_scheme" where
  "upd_thread p f s = s\<lparr>threads := (threads s)(p := f (threads s p))\<rparr>"

definition upd_process :: "u32 \<Rightarrow> (process \<Rightarrow> process) \<Rightarrow> 'a sched_scheme \<Rightarrow> 'a sched_scheme" where
  "upd_process p f s = s\<lparr>processes := (processes s)(p := f (processes s p))\<rparr>"

text \<open>The pointers along which the loops of this file run.\<close>

abbreviation rq_nx :: "'a sched_scheme \<Rightarrow> u32 \<Rightarrow> u32 option" where
  "rq_nx s p \<equiv> ptr (rq_next (threads s p))"
abbreviation sleep_nx :: "'a sched_scheme \<Rightarrow> u32 \<Rightarrow> u32 option" where
  "sleep_nx s p \<equiv> ptr (sleep_next (threads s p))"
abbreviation wait_nx :: "'a sched_scheme \<Rightarrow> u32 \<Rightarrow> u32 option" where
  "wait_nx s p \<equiv> ptr (wait_next (threads s p))"
abbreviation tl_nx :: "'a sched_scheme \<Rightarrow> u32 \<Rightarrow> u32 option" where
  "tl_nx s p \<equiv> ptr (threadlist_next (threads s p))"
abbreviation sibling_nx :: "'a sched_scheme \<Rightarrow> u32 \<Rightarrow> u32 option" where
  "sibling_nx s p \<equiv> ptr (next_sibling (processes s p))"

primrec copy_comm :: "nat \<Rightarrow> nat \<Rightarrow> char list \<Rightarrow> string \<Rightarrow> nat \<times> char list" where
  "copy_comm 0 i dest src = (i, dest)"
| "copy_comm (Suc k) i dest src =
     (let dest = dest[i := cchar src i]
      in if cchar src i = CHR 0x00 then (i, dest) else copy_comm k (Suc i) dest src)"

definition sched_strncpy :: "char list \<Rightarrow> string \<Rightarrow> nat \<Rightarrow> char list" where
  "sched_strncpy dest src n =
     (let lim = min n MAXCOMLEN;
          (i, dest) = copy_comm lim 0 dest src
      in if lim > 0 \<and> (i = lim \<or> cchar src i \<noteq> CHR 0x00) then dest[lim - 1 := CHR 0x00] else dest)"

definition sched_set_tss_esp0 :: "u32 \<Rightarrow> 'a sched_scheme \<Rightarrow> 'a sched_scheme" where
  "sched_set_tss_esp0 t s =
     (if t = 0 then s
      else s\<lparr>tss_esp0 := kstack_top (threads s t), tss_ss0 := ucast GDT_SEL_KDATA\<rparr>)"


section \<open>Slots\<close>

definition thread_at :: "u32 \<Rightarrow> 'a sched_scheme \<Rightarrow> u32" where
  "thread_at i s = thread_pool s + i * SIZEOF_THREAD"

definition process_at :: "u32 \<Rightarrow> 'a sched_scheme \<Rightarrow> u32" where
  "process_at i s = process_pool s + i * SIZEOF_PROCESS"

primrec scan_thread_slots :: "nat \<Rightarrow> u32 \<Rightarrow> 'a sched_scheme \<Rightarrow> u32 option" where
  "scan_thread_slots 0 i s = None"
| "scan_thread_slots (Suc n) i s =
     (if \<not> t_slot_inuse (threads s (thread_at i s)) then Some i
      else scan_thread_slots n ((i + 1) mod thread_pool_count s) s)"

text \<open>The thread (0 if there is no free slot), its index, and the state.\<close>

definition alloc_thread_slot :: "'a sched_scheme \<Rightarrow> (u32 \<times> u32) \<times> 'a sched_scheme" where
  "alloc_thread_slot s =
     (if thread_pool_count s = 0 then ((0, 0), s)
      else (case scan_thread_slots (unat (thread_pool_count s)) (next_tid s mod thread_pool_count s) s of
              None \<Rightarrow> ((0, 0), s)
            | Some i \<Rightarrow> ((thread_at i s, i), s\<lparr>next_tid := (i + 1) mod thread_pool_count s\<rparr>)))"

primrec scan_process_slots :: "nat \<Rightarrow> u32 \<Rightarrow> 'a sched_scheme \<Rightarrow> u32 option" where
  "scan_process_slots 0 i s = None"
| "scan_process_slots (Suc n) i s =
     (if \<not> p_slot_inuse (processes s (process_at i s)) then Some i else scan_process_slots n (i + 1) s)"

definition alloc_process_slot :: "'a sched_scheme \<Rightarrow> u32 \<times> u32" where
  "alloc_process_slot s =
     (case scan_process_slots (unat (process_pool_count s)) 0 s of
        None \<Rightarrow> (0, 0) | Some i \<Rightarrow> (process_at i s, i))"

primrec push_words :: "u32 list \<Rightarrow> u32 \<Rightarrow> stack \<Rightarrow> u32 \<times> stack" where
  "push_words [] sp k = (sp, k)"
| "push_words (w # ws) sp k = push_words ws (sp - 4) (k(sp - 4 := w))"

definition build_initial_frame :: "u32 \<Rightarrow> u32 \<Rightarrow> 'a sched_scheme \<Rightarrow> 'a sched_scheme" where
  "build_initial_frame t start_eip s =
     (let (sp, k) = push_words
            [0, 0, 0x202, GDT_SEL_KCODE, start_eip, 0, 0, 0,
             GDT_SEL_KDATA, GDT_SEL_KDATA, GDT_SEL_KDATA, GDT_SEL_KDATA,
             0, 0, 0, 0, 0, 0, 0, 0] (kstack_top (threads s t)) (kstacks s)
      in upd_thread t (\<lambda>r. r\<lparr>saved_esp := sp\<rparr>) (s\<lparr>kstacks := k\<rparr>))"


section \<open>The sleep queue\<close>

definition sleepq_insert :: "u32 \<Rightarrow> 'a sched_scheme \<Rightarrow> 'a sched_scheme option" where
  "sleepq_insert t s =
     (let s = upd_thread t (\<lambda>r. r\<lparr>sleep_next := 0\<rparr>) s; head = thread_sleep_head s; wake = wake_tick (threads s t)
      in if head = 0 \<or> wake < wake_tick (threads s head)
         then Some (upd_thread t (\<lambda>r. r\<lparr>sleep_next := head\<rparr>) s\<lparr>thread_sleep_head := t\<rparr>)
         else do {
           it \<leftarrow> walk_until (\<lambda>p. sleep_next (threads s p) = 0 \<or> \<not> wake_tick (threads s (sleep_next (threads s p))) \<le> wake)
                  (sleep_nx s) (ptr head);
           case it of
             None \<Rightarrow> None
           | Some p \<Rightarrow>
               let s = upd_thread t (\<lambda>r. r\<lparr>sleep_next := sleep_next (threads s p)\<rparr>) s
               in Some (upd_thread p (\<lambda>r. r\<lparr>sleep_next := t\<rparr>) s) })"

definition sleepq_remove :: "u32 \<Rightarrow> 'a sched_scheme \<Rightarrow> 'a sched_scheme option" where
  "sleepq_remove t s =
     (if thread_sleep_head s = 0 \<or> t = 0 then Some s
      else if thread_sleep_head s = t
      then Some (upd_thread t (\<lambda>r. r\<lparr>sleep_next := 0\<rparr>) (s\<lparr>thread_sleep_head := sleep_next (threads s t)\<rparr>))
      else do {
        it \<leftarrow> walk_until (\<lambda>p. sleep_next (threads s p) = 0 \<or> sleep_next (threads s p) = t) (sleep_nx s)
               (ptr (thread_sleep_head s));
        case it of
          None \<Rightarrow> None
        | Some p \<Rightarrow>
            if sleep_next (threads s p) = t
            then Some (upd_thread t (\<lambda>r. r\<lparr>sleep_next := 0\<rparr>)
                        (upd_thread p (\<lambda>r. r\<lparr>sleep_next := sleep_next (threads s t)\<rparr>) s))
            else Some s })"


section \<open>The run queue\<close>

definition next_runnable :: "u32 \<Rightarrow> 'a sched_scheme \<Rightarrow> u32 option" where
  "next_runnable start s =
     (if thread_head s = 0 then Some 0
      else let t = (if start \<noteq> 0 then start else thread_head s)
           in do {
             r \<leftarrow> cycle_until (\<lambda>p. t_state (threads s p) = THREAD_RUNNABLE) (rq_nx s) t t;
             Some (case r of None \<Rightarrow> 0 | Some u \<Rightarrow> u) })"

definition runq_append :: "u32 \<Rightarrow> 'a sched_scheme \<Rightarrow> 'a sched_scheme option" where
  "runq_append t s =
     (if thread_head s = 0
      then Some (upd_thread t (\<lambda>r. r\<lparr>rq_next := t\<rparr>) (s\<lparr>thread_head := t\<rparr>))
      else do {
        it \<leftarrow> walk_until (\<lambda>p. rq_next (threads s p) = thread_head s) (rq_nx s) (ptr (thread_head s));
        case it of
          None \<Rightarrow> None
        | Some tail \<Rightarrow>
            Some (upd_thread t (\<lambda>r. r\<lparr>rq_next := thread_head s\<rparr>) (upd_thread tail (\<lambda>r. r\<lparr>rq_next := t\<rparr>) s)) })"

text \<open>The \<^verbatim>\<open>do\<close> loop of \<^verbatim>\<open>thread_unlink_from_runq\<close>, and the thread it ends at.\<close>

partial_function (option) runq_pred :: "u32 \<Rightarrow> u32 \<Rightarrow> u32 \<Rightarrow> 'a sched_scheme \<Rightarrow> u32 option" where
  "runq_pred t begin it s =
     (let nxt = rq_next (threads s it)
      in if nxt = t then Some it
         else if nxt = 0 then None
         else if nxt = begin then Some nxt
         else runq_pred t begin nxt s)"

definition thread_unlink_from_runq :: "u32 \<Rightarrow> 'a sched_scheme \<Rightarrow> 'a sched_scheme option" where
  "thread_unlink_from_runq t s =
     (if t = 0 \<or> thread_head s = 0 then Some s
      else if thread_head s = t
      then do {
        s \<leftarrow> (if rq_next (threads s t) = t then Some (s\<lparr>thread_head := 0\<rparr>)
              else do {
                it \<leftarrow> walk_until (\<lambda>p. rq_next (threads s p) = thread_head s) (rq_nx s) (ptr (thread_head s));
                case it of
                  None \<Rightarrow> None
                | Some tail \<Rightarrow>
                    let head = rq_next (threads s t)
                    in Some (upd_thread tail (\<lambda>r. r\<lparr>rq_next := head\<rparr>) (s\<lparr>thread_head := head\<rparr>)) });
        Some (upd_thread t (\<lambda>r. r\<lparr>rq_next := 0\<rparr>) s) }
      else do {
        it \<leftarrow> runq_pred t (thread_head s) (thread_head s) s;
        if rq_next (threads s it) = t
        then Some (upd_thread t (\<lambda>r. r\<lparr>rq_next := 0\<rparr>) (upd_thread it (\<lambda>r. r\<lparr>rq_next := rq_next (threads s t)\<rparr>) s))
        else Some s })"

text \<open>\<^verbatim>\<open>thread_list\<close> of the process, with the thread appended.\<close>

definition threadlist_append :: "u32 \<Rightarrow> u32 \<Rightarrow> 'a sched_scheme \<Rightarrow> 'a sched_scheme option" where
  "threadlist_append proc t s =
     (if main_thread (processes s proc) = 0
      then Some (upd_process proc (\<lambda>p. p\<lparr>main_thread := t, thread_list := t\<rparr>) s)
      else do {
        it \<leftarrow> walk_until (\<lambda>p. threadlist_next (threads s p) = 0) (tl_nx s) (ptr (thread_list (processes s proc)));
        case it of None \<Rightarrow> None | Some p \<Rightarrow> Some (upd_thread p (\<lambda>r. r\<lparr>threadlist_next := t\<rparr>) s) })"

definition sched_add_thread :: "u32 \<Rightarrow> u32 \<Rightarrow> 'a sched_scheme \<Rightarrow> (u32 \<times> 'a sched_scheme) option" where
  "sched_add_thread entr proc s =
     (if proc = 0 then Some (0, s)
      else let ((t, slot), s) = alloc_thread_slot s
           in if t = 0 then Some (0, s)
              else do {
                s \<leftarrow> threadlist_append proc t s;
                let s = upd_process proc (\<lambda>p. p\<lparr>live_thread_count := live_thread_count p + 1\<rparr>) s;
                let s = upd_thread t (\<lambda>r. r\<lparr>t_proc := proc, t_slot_inuse := True, t_slot_id := slot,
                          t_state := THREAD_RUNNABLE, wake_tick := 0, t_exit_code := 0, entry := entr,
                          wait_kind := WAIT_NONE, wait_target_pid := 0, wait_owner := 0, wait_next := 0,
                          rq_next := 0, threadlist_next := 0\<rparr>) s;
                (bottom, top) \<leftarrow> pool_get_kstack slot s;
                let s = upd_thread t (\<lambda>r. r\<lparr>kstack_base := bottom, kstack_top := top\<rparr>) s;
                let s = build_initial_frame t (thread_bootstrap s) s;
                s \<leftarrow> runq_append t s;
                Some (t, s) })"


section \<open>Switching\<close>

definition run_thread :: "u32 \<Rightarrow> u32 \<Rightarrow> 'a sched_scheme \<Rightarrow> u32 \<times> 'a sched_scheme" where
  "run_thread t old_esp s =
     (let s = s\<lparr>thread_current := t\<rparr>
      in if t = 0 then (old_esp, s)
         else let s = upd_thread t (\<lambda>r. r\<lparr>t_state := THREAD_RUNNING\<rparr>) s;
                  s = sched_set_tss_esp0 t s;
                  mm = addr_space (processes s (t_proc (threads s t)));
                  s = (if mm \<noteq> 0 then mm_switch mm s else s)
              in (saved_esp (threads s t), s))"

definition sched_do_switch :: "u32 \<Rightarrow> 'a sched_scheme \<Rightarrow> (u32 \<times> 'a sched_scheme) option" where
  "sched_do_switch old_esp s =
     (let s = s\<lparr>sched_pending := False\<rparr>; cur = thread_current s;
          s = (if cur = 0 then s
               else let s = upd_thread cur (\<lambda>r. r\<lparr>saved_esp := old_esp\<rparr>) s
                    in if t_state (threads s cur) = THREAD_RUNNING
                       then upd_thread cur (\<lambda>r. r\<lparr>t_state := THREAD_RUNNABLE\<rparr>) s else s)
      in if thread_head s = 0 then Some (old_esp, s)
         else do {
           t \<leftarrow> next_runnable (if cur = 0 then thread_head s else rq_next (threads s cur)) s;
           Some (run_thread t old_esp s) })"

definition sched_thread_yield :: "'a sched_scheme \<Rightarrow> 'a sched_scheme" where
  "sched_thread_yield s = (if thread_current s = 0 then s else s\<lparr>sched_pending := True\<rparr>)"

definition sched_block_current_locked :: "wait_kind \<Rightarrow> u32 \<Rightarrow> 'a sched_scheme \<Rightarrow> 'a sched_scheme" where
  "sched_block_current_locked kind target s =
     (let cur = thread_current s
      in if cur = 0 then s
         else let proc = t_proc (threads s cur);
                  s = upd_thread cur (\<lambda>r. r\<lparr>t_state := THREAD_BLOCKED, wait_kind := kind, wait_target_pid := target,
                        wait_owner := proc, wait_next := waiters (processes s proc)\<rparr>) s
              in upd_process proc (\<lambda>p. p\<lparr>waiters := cur\<rparr>) s)"

definition sched_block_current :: "wait_kind \<Rightarrow> u32 \<Rightarrow> 'a sched_scheme \<Rightarrow> 'a sched_scheme" where
  "sched_block_current kind target s =
     (if thread_current s = 0 then s else sched_thread_yield (sched_block_current_locked kind target s))"

definition sched_wake_thread :: "u32 \<Rightarrow> 'a sched_scheme \<Rightarrow> 'a sched_scheme option" where
  "sched_wake_thread t s =
     (if t = 0 then Some s
      else (case t_state (threads s t) of
        THREAD_SLEEPING \<Rightarrow> sleepq_remove t (upd_thread t (\<lambda>r. r\<lparr>t_state := THREAD_RUNNABLE\<rparr>) s)
      | THREAD_BLOCKED \<Rightarrow> do {
          let s = upd_thread t (\<lambda>r. r\<lparr>t_state := THREAD_RUNNABLE\<rparr>) s;
          let owner = wait_owner (threads s t);
          s \<leftarrow> (if owner = 0 then Some s
                else if waiters (processes s owner) = t
                then Some (upd_process owner (\<lambda>p. p\<lparr>waiters := wait_next (threads s t)\<rparr>) s)
                else do {
                  it \<leftarrow> walk_until (\<lambda>p. wait_next (threads s p) = t) (wait_nx s) (ptr (waiters (processes s owner)));
                  Some (case it of None \<Rightarrow> s
                        | Some p \<Rightarrow> upd_thread p (\<lambda>r. r\<lparr>wait_next := wait_next (threads s t)\<rparr>) s) });
          Some (upd_thread t (\<lambda>r. r\<lparr>wait_kind := WAIT_NONE, wait_target_pid := 0, wait_owner := 0, wait_next := 0\<rparr>) s) }
      | _ \<Rightarrow> Some s))"

definition sched_thread_sleep :: "u64 \<Rightarrow> 'a sched_scheme \<Rightarrow> 'a sched_scheme option" where
  "sched_thread_sleep n s =
     (let cur = thread_current s
      in if cur = 0 then Some s
         else do {
           let s = upd_thread cur (\<lambda>r. r\<lparr>wake_tick := ucast (ticks s + n), t_state := THREAD_SLEEPING\<rparr>) s;
           s \<leftarrow> sleepq_insert cur s;
           Some (sched_thread_yield s) })"

text \<open>The threads whose time has come; the flag is \<^verbatim>\<open>woke_any\<close>.\<close>

partial_function (option) wake_sleepers :: "u64 \<Rightarrow> bool \<Rightarrow> 'a sched_scheme \<Rightarrow> (bool \<times> 'a sched_scheme) option" where
  "wake_sleepers now woke_any s =
     (let t = thread_sleep_head s
      in if t \<noteq> 0 \<and> ucast (wake_tick (threads s t)) \<le> now
         then let s = s\<lparr>thread_sleep_head := sleep_next (threads s t)\<rparr>;
                  s = upd_thread t (\<lambda>r. r\<lparr>sleep_next := 0\<rparr>) s
              in if t_slot_inuse (threads s t) \<and> t_state (threads s t) = THREAD_SLEEPING
                 then wake_sleepers now True (upd_thread t (\<lambda>r. r\<lparr>t_state := THREAD_RUNNABLE\<rparr>) s)
                 else wake_sleepers now woke_any s
         else Some (woke_any, s))"

definition sched_on_tick :: "'a sched_scheme \<Rightarrow> 'a sched_scheme option" where
  "sched_on_tick s = do {
     (woke_any, s) \<leftarrow> wake_sleepers (ticks s) False s;
     let s = s\<lparr>rr_ticks_left := rr_ticks_left s - 1\<rparr>;
     Some (if rr_ticks_left s = 0 then s\<lparr>rr_ticks_left := RR_SCHEDULER_CADENCE, sched_pending := True\<rparr>
           else if woke_any then s\<lparr>sched_pending := True\<rparr> else s) }"

definition sched_current_thread :: "'a sched_scheme \<Rightarrow> u32" where
  "sched_current_thread s = thread_current s"

definition sched_current_process :: "'a sched_scheme \<Rightarrow> u32" where
  "sched_current_process s = (if thread_current s \<noteq> 0 then t_proc (threads s (thread_current s)) else 0)"

section \<open>Names of processes\<close>

lemma copy_comm_spec:
  assumes "copy_comm k i dest src = (j, d)" "i + k \<le> length dest" "\<forall>m < i. dest ! m = cchar src m \<and> cchar src m \<noteq> CHR 0x00"
  shows "length d = length dest \<and> j \<le> i + k \<and> (\<forall>m < j. d ! m = cchar src m \<and> cchar src m \<noteq> CHR 0x00) \<and>
    (j < i + k \<longrightarrow> d ! j = CHR 0x00 \<and> cchar src j = CHR 0x00)"
  using assms
proof (induction k arbitrary: i dest)
  case (Suc k)
  show ?case
  proof (cases "cchar src i = CHR 0x00")
    case True
    then show ?thesis using Suc.prems by (auto simp: Let_def)
  next
    case False
    then have "copy_comm k (Suc i) (dest[i := cchar src i]) src = (j, d)" using Suc.prems(1) by (simp add: Let_def)
    moreover have "\<forall>m < Suc i. dest[i := cchar src i] ! m = cchar src m \<and> cchar src m \<noteq> CHR 0x00"
      using False Suc.prems(2,3) by (auto simp: less_Suc_eq nth_list_update)
    ultimately show ?thesis using Suc.IH [of "Suc i" "dest[i := cchar src i]"] Suc.prems(2) by simp
  qed
qed auto

lemma cchar_prefix:
  assumes "\<forall>m < n. cchar src m \<noteq> CHR 0x00"
  shows "n \<le> length src" "take n (takeWhile (\<lambda>c. c \<noteq> CHR 0x00) src) = take n src"
    "cchar src n = CHR 0x00 \<Longrightarrow> takeWhile (\<lambda>c. c \<noteq> CHR 0x00) src = take n src"
proof -
  show n: "n \<le> length src" using assms [rule_format, of "length src"] by (cases "n \<le> length src") (auto simp: cchar_def)
  have "\<And>m. m < n \<Longrightarrow> m < length src \<Longrightarrow> src ! m \<noteq> CHR 0x00" using assms by (auto simp: cchar_def)
  then have "takeWhile (\<lambda>c. c \<noteq> CHR 0x00) (take n src) = take n src" by (auto simp: takeWhile_eq_all_conv in_set_conv_nth)
  then show "take n (takeWhile (\<lambda>c. c \<noteq> CHR 0x00) src) = take n src"
    using takeWhile_append [of "\<lambda>c. c \<noteq> CHR 0x00" "take n src" "drop n src"] n
    by (simp add: takeWhile_eq_all_conv del: takeWhile_append1 takeWhile_append2)
  show "takeWhile (\<lambda>c. c \<noteq> CHR 0x00) src = take n src" if "cchar src n = CHR 0x00"
    using assms that n by (intro takeWhile_eq_take_P_nth) (auto simp: cchar_def split: if_splits)
qed

text \<open>
  (C0) The name of a process is a terminated string whatever it is given: the buffer keeps its size, holds a terminator, and
  the string in it is the source up to its terminator, cut to 15 characters.
\<close>

theorem sched_strncpy_string:
  assumes "length dest = MAXCOMLEN"
  shows "length (sched_strncpy dest src MAXCOMLEN) = MAXCOMLEN \<and> CHR 0x00 \<in> set (sched_strncpy dest src MAXCOMLEN) \<and>
    takeWhile (\<lambda>c. c \<noteq> CHR 0x00) (sched_strncpy dest src MAXCOMLEN) = take (MAXCOMLEN - 1) (takeWhile (\<lambda>c. c \<noteq> CHR 0x00) src)"
proof -
  obtain j d where c: "copy_comm 16 0 dest src = (j, d)" by (cases "copy_comm 16 0 dest src")
  have l: "length dest = 16" using assms by (simp add: MAXCOMLEN_def)
  have D: "length d = 16" "j \<le> 16" "\<forall>m < j. d ! m = cchar src m \<and> cchar src m \<noteq> CHR 0x00"
    "j < 16 \<Longrightarrow> d ! j = CHR 0x00 \<and> cchar src j = CHR 0x00"
    using copy_comm_spec [OF c] l by auto
  have tk: "take n d = take n src" if "n \<le> j" for n
    using that D cchar_prefix(1) [of j src] by (intro nth_equalityI) (auto simp: cchar_def)
  show ?thesis
  proof (cases "j = 16")
    case True
    then have r: "sched_strncpy dest src MAXCOMLEN = d[15 := CHR 0x00]" using c by (simp add: sched_strncpy_def MAXCOMLEN_def)
    have "takeWhile (\<lambda>c. c \<noteq> CHR 0x00) (d[15 := CHR 0x00]) = take 15 (d[15 := CHR 0x00])"
      using D True by (intro takeWhile_eq_take_P_nth) (auto simp: nth_list_update)
    also have "\<dots> = take 15 src" using tk [of 15] True by simp
    also have "\<dots> = take 15 (takeWhile (\<lambda>c. c \<noteq> CHR 0x00) src)" using cchar_prefix(2) [of 15 src] D(3) True by simp
    finally show ?thesis using D(1) r set_update_memI [of 15 d] by (simp add: MAXCOMLEN_def)
  next
    case False
    then have j: "j < 16" "d ! j = CHR 0x00" "cchar src j = CHR 0x00" using D(2,4) by auto
    have r: "sched_strncpy dest src MAXCOMLEN = d" using c j by (simp add: sched_strncpy_def MAXCOMLEN_def)
    have "takeWhile (\<lambda>c. c \<noteq> CHR 0x00) d = take j d" using D j by (intro takeWhile_eq_take_P_nth) auto
    also have "\<dots> = takeWhile (\<lambda>c. c \<noteq> CHR 0x00) src" using tk [of j] cchar_prefix(3) [of j src] D(3) j(3) by simp
    also have "\<dots> = take 15 (takeWhile (\<lambda>c. c \<noteq> CHR 0x00) src)" using cchar_prefix(3) [of j src] D(3) j by simp
    finally show ?thesis using D(1) r j nth_mem [of j d] by (auto simp: MAXCOMLEN_def)
  qed
qed

theorem sched_strncpy_string_witness:
  "takeWhile (\<lambda>c. c \<noteq> CHR 0x00) (sched_strncpy (replicate 16 CHR ''x'') ''a name that is too long'' MAXCOMLEN) = ''a name that is ''"
  using sched_strncpy_string [of "replicate 16 CHR ''x''" "''a name that is too long''"] by (simp add: MAXCOMLEN_def)

end
