(* ===== verification/Proc.thy ===== *)
theory Proc
  imports Sched
begin

text \<open>
  Processes (second part of \<^verbatim>\<open>sched.c\<close>): creation with an address space and descriptors, the tree of
  parents and children, \<^verbatim>\<open>fork\<close>, the exit of a thread, reaping, and waiting for a child.
\<close>

section \<open>Exit\<close>

definition waits_for :: "u32 \<Rightarrow> thread \<Rightarrow> bool" where
  "waits_for child_pid t \<longleftrightarrow>
     wait_kind t = WAIT_ANY \<or> (wait_kind t = WAIT_CHILD \<and> wait_target_pid t = child_pid)"

definition wake_parent_waiter :: "u32 \<Rightarrow> 'a sched_scheme \<Rightarrow> 'a sched_scheme option" where
  "wake_parent_waiter child s =
     (if child = 0 \<or> parent (processes s child) = 0 then Some s
      else do {
        it \<leftarrow> walk_until (\<lambda>p. waits_for (pid (processes s child)) (threads s p)) (wait_nx s)
               (ptr (waiters (processes s (parent (processes s child)))));
        case it of None \<Rightarrow> Some s | Some t \<Rightarrow> sched_wake_thread t s })"

partial_function (option) close_fds :: "u32 \<Rightarrow> 'a files_scheme \<Rightarrow> 'a files_scheme option" where
  "close_fds fd_it s =
     (if fd_it = 0 then Some s
      else let nxt = fd_next (fd_entries s fd_it)
           in Option.bind (open_file_put (fd_of (fd_entries s fd_it)) s) (\<lambda>s.
              Option.bind (fdpool_free_fdentry fd_it s) (\<lambda>s. close_fds nxt s)))"

definition sched_proc_cleanup_fds :: "u32 \<Rightarrow> 'a sched_scheme \<Rightarrow> 'a sched_scheme option" where
  "sched_proc_cleanup_fds proc s =
     (if proc = 0 then Some s
      else do {
        s \<leftarrow> close_fds (fd_list (processes s proc)) s;
        Some (upd_process proc (\<lambda>p. p\<lparr>fd_list := 0, fd_count := 0\<rparr>) s) })"

text \<open>
  The exiting thread is taken out of the list of its process: \<^verbatim>\<open>prev\<close> is the thread before it, or null
  when it is the first.
\<close>

definition threadlist_patch :: "u32 \<Rightarrow> u32 \<Rightarrow> 'a sched_scheme \<Rightarrow> 'a sched_scheme option" where
  "threadlist_patch proc cur s =
     (if thread_list (processes s proc) = cur
      then let nxt = threadlist_next (threads s cur);
               s = upd_process proc (\<lambda>p. p\<lparr>main_thread := nxt, thread_list := nxt\<rparr>) s
           in Some (upd_thread cur (\<lambda>r. r\<lparr>threadlist_next := 0\<rparr>) s)
      else do {
        it \<leftarrow> walk_until (\<lambda>p. threadlist_next (threads s p) = cur) (tl_nx s) (ptr (thread_list (processes s proc)));
        case it of
          None \<Rightarrow> None
        | Some prev \<Rightarrow>
            let s = upd_thread prev (\<lambda>r. r\<lparr>threadlist_next := threadlist_next (threads s cur)\<rparr>) s
            in Some (upd_thread cur (\<lambda>r. r\<lparr>threadlist_next := 0\<rparr>) s) })"

text \<open>The state when the thread has given up the processor, for good.\<close>

definition sched_thread_exit :: "u32 \<Rightarrow> 'a sched_scheme \<Rightarrow> 'a sched_scheme option" where
  "sched_thread_exit code s =
     (let cur = thread_current s
      in if cur = 0 then Some s
         else do {
           let proc = t_proc (threads s cur);
           let s = upd_thread cur (\<lambda>r. r\<lparr>t_exit_code := code, t_state := THREAD_ZOMBIE\<rparr>) s;
           let s = upd_process proc (\<lambda>p. p\<lparr>live_thread_count := live_thread_count p - 1\<rparr>) s;
           s \<leftarrow> (if live_thread_count (processes s proc) = 0
                 then do {
                   let s = upd_process proc (\<lambda>p. p\<lparr>p_state := PROC_ZOMBIE, p_exit_code := code\<rparr>) s;
                   s \<leftarrow> wake_parent_waiter proc s;
                   sched_proc_cleanup_fds proc s }
                 else threadlist_patch proc cur s);
           Some (sched_thread_yield s) })"

definition thread_kill_current :: "u32 \<Rightarrow> 'a sched_scheme \<Rightarrow> 'a sched_scheme option" where
  "thread_kill_current code s = sched_thread_exit code s"


section \<open>Families\<close>

text \<open>The child at the end of the parent's list.\<close>

definition append_child :: "u32 \<Rightarrow> u32 \<Rightarrow> 'a sched_scheme \<Rightarrow> 'a sched_scheme option" where
  "append_child par child s =
     (if first_child (processes s par) = 0
      then Some (upd_process par (\<lambda>p. p\<lparr>first_child := child\<rparr>) s)
      else do {
        it \<leftarrow> walk_until (\<lambda>p. next_sibling (processes s p) = 0) (sibling_nx s) (ptr (first_child (processes s par)));
        case it of None \<Rightarrow> None | Some p \<Rightarrow> Some (upd_process p (\<lambda>q. q\<lparr>next_sibling := child\<rparr>) s) })"

text \<open>The child out of the parent's list.\<close>

definition unlink_child :: "u32 \<Rightarrow> u32 \<Rightarrow> 'a sched_scheme \<Rightarrow> 'a sched_scheme option" where
  "unlink_child par child s =
     (if first_child (processes s par) = child
      then Some (upd_process par (\<lambda>p. p\<lparr>first_child := next_sibling (processes s child)\<rparr>) s)
      else do {
        it \<leftarrow> walk_until (\<lambda>p. next_sibling (processes s p) = child) (sibling_nx s) (ptr (first_child (processes s par)));
        Some (case it of
                None \<Rightarrow> s
              | Some p \<Rightarrow> upd_process p (\<lambda>q. q\<lparr>next_sibling := next_sibling (processes s child)\<rparr>) s) })"

definition proc_add_child :: "u32 \<Rightarrow> u32 \<Rightarrow> 'a sched_scheme \<Rightarrow> 'a sched_scheme option" where
  "proc_add_child par child s =
     (if par = 0 \<or> child = 0 then Some s
      else append_child par child (upd_process child (\<lambda>p. p\<lparr>parent := par, ppid := pid (processes s par)\<rparr>) s))"

definition proc_remove_child :: "u32 \<Rightarrow> u32 \<Rightarrow> 'a sched_scheme \<Rightarrow> 'a sched_scheme option" where
  "proc_remove_child par child s =
     (if par = 0 \<or> child = 0 then Some s
      else do {
        s \<leftarrow> unlink_child par child s;
        Some (upd_process child (\<lambda>p. p\<lparr>parent := 0, ppid := 0\<rparr>) s) })"

primrec find_process :: "nat \<Rightarrow> u32 \<Rightarrow> u32 \<Rightarrow> 'a sched_scheme \<Rightarrow> u32" where
  "find_process 0 i k s = 0"
| "find_process (Suc n) i k s =
     (if p_slot_inuse (processes s (process_at i s)) \<and> pid (processes s (process_at i s)) = k then process_at i s
      else find_process n (i + 1) k s)"

definition proc_find :: "u32 \<Rightarrow> 'a sched_scheme \<Rightarrow> u32" where
  "proc_find k s = find_process (unat (process_pool_count s)) 0 k s"

definition proc_has_children :: "u32 \<Rightarrow> 'a sched_scheme \<Rightarrow> bool" where
  "proc_has_children par s \<longleftrightarrow> par \<noteq> 0 \<and> first_child (processes s par) \<noteq> 0"

partial_function (option) zombie_from :: "u32 \<Rightarrow> u32 \<Rightarrow> u32 \<Rightarrow> 'a sched_scheme \<Rightarrow> u32 option" where
  "zombie_from par child_pid child s =
     (if child = 0 then Some 0
      else if (child_pid = - 1 \<or> pid (processes s child) = child_pid) \<and> p_state (processes s child) = PROC_ZOMBIE
      then Some child
      else if par = child then None
      else zombie_from par child_pid (next_sibling (processes s child)) s)"

definition proc_find_zombie_child :: "u32 \<Rightarrow> u32 \<Rightarrow> 'a sched_scheme \<Rightarrow> u32 option" where
  "proc_find_zombie_child par child_pid s =
     (if par = 0 then Some 0 else zombie_from par child_pid (first_child (processes s par)) s)"


section \<open>Creation\<close>

text \<open>The three descriptors of a root process.\<close>

definition alloc_stdio :: "u32 \<Rightarrow> 'a files_scheme \<Rightarrow> (u32 \<times> 'a files_scheme) option" where
  "alloc_stdio stdio s = do {
     (e, s) \<leftarrow> fdpool_alloc_fdentry stdio s;
     Some (e, if e \<noteq> 0 \<and> stdio \<noteq> 0 then open_file_get stdio s else s) }"

definition drop_stdio :: "u32 \<Rightarrow> 'a files_scheme \<Rightarrow> 'a files_scheme option" where
  "drop_stdio e s =
     (if e = 0 then Some s
      else do { s \<leftarrow> open_file_put (fd_of (fd_entries s e)) s; fdpool_free_fdentry e s })"

definition bootstrap_stdio :: "u32 \<Rightarrow> 'a sched_scheme \<Rightarrow> 'a sched_scheme option" where
  "bootstrap_stdio p s = do {
     let stdio = console_get_stdio s;
     (stdin_entry, s) \<leftarrow> alloc_stdio stdio s;
     (stdout_entry, s) \<leftarrow> alloc_stdio stdio s;
     (stderr_entry, s) \<leftarrow> alloc_stdio stdio s;
     if stdin_entry = 0 \<or> stdout_entry = 0 \<or> stderr_entry = 0
     then do {
       s \<leftarrow> drop_stdio stdin_entry s;
       s \<leftarrow> drop_stdio stdout_entry s;
       drop_stdio stderr_entry s }
     else do {
       let s = upd_fd_entry stdin_entry (\<lambda>e. e\<lparr>fd_next := stdout_entry\<rparr>) s;
       let s = upd_fd_entry stdout_entry (\<lambda>e. e\<lparr>fd_next := stderr_entry\<rparr>) s;
       let s = upd_process p (\<lambda>q. q\<lparr>fd_list := stdin_entry\<rparr>) s;
       let s = upd_fd_entry stdin_entry (\<lambda>e. e\<lparr>local_id := 0\<rparr>) s;
       let s = upd_fd_entry stdout_entry (\<lambda>e. e\<lparr>local_id := 1\<rparr>) s;
       let s = upd_fd_entry stderr_entry (\<lambda>e. e\<lparr>local_id := 2\<rparr>) s;
       Some (upd_process p (\<lambda>q. q\<lparr>fd_count := 3\<rparr>) s) } }"

definition proc_alloc ::
  "u32 \<Rightarrow> process_context \<Rightarrow> string option \<Rightarrow> 'a sched_scheme \<Rightarrow> (u32 \<times> 'a sched_scheme) option" where
  "proc_alloc par ctxt name s =
     (let (p, slot) = alloc_process_slot s
      in if p = 0 then Some (0, s)
         else do {
           let s = upd_process p (\<lambda>q. q\<lparr>p_slot_inuse := True, p_slot_id := slot, pid := slot,
                     ppid := (if par \<noteq> 0 then pid (processes s par) else 0),
                     p_state := PROC_ALIVE, p_exit_code := 0, live_thread_count := 0, fd_count := 0, fd_list := 0,
                     parent := par\<rparr>) s;
           let s = upd_process p (\<lambda>q. q\<lparr>
                     p_context := (if par \<noteq> 0 then p_context (processes s par) else ctxt),
                     comm := sched_strncpy (comm q) (case name of Some n \<Rightarrow> n | None \<Rightarrow> ''<anonymous>'') MAXCOMLEN,
                     first_child := 0, next_sibling := 0, main_thread := 0, thread_list := 0, waiters := 0\<rparr>) s;
           (mm, s) \<leftarrow> (if p_context (processes s p) \<noteq> CTX_KERNEL
                      then (if par \<noteq> 0 then mm_clone_user_eager (addr_space (processes s par)) s else mm_create s)
                      else Some (0, s));
           let s = upd_process p (\<lambda>q. q\<lparr>addr_space := mm\<rparr>) s;
           if p_context (processes s p) \<noteq> CTX_KERNEL \<and> mm = 0
           then Some (0, upd_process p (\<lambda>q. q\<lparr>p_slot_inuse := False\<rparr>) s)
           else do {
             s \<leftarrow> (if par \<noteq> 0 then append_child par p s else Some s);
             s \<leftarrow> (if p_context (processes s p) \<noteq> CTX_KERNEL \<and> par = 0 then bootstrap_stdio p s else Some s);
             Some (p, s) } })"

definition sched_get_proc_local_fd :: "u32 \<Rightarrow> int \<Rightarrow> 'a sched_scheme \<Rightarrow> u32 option" where
  "sched_get_proc_local_fd proc local_fd s =
     (if proc = 0 then Some 0
      else do {
        it \<leftarrow> walk_until (\<lambda>e. uint (local_id (fd_entries s e)) = local_fd) (\<lambda>e. ptr (fd_next (fd_entries s e)))
               (ptr (fd_list (processes s proc)));
        Some (case it of None \<Rightarrow> 0 | Some e \<Rightarrow> fd_of (fd_entries s e)) })"


section \<open>Reaping\<close>

definition proc_free :: "u32 \<Rightarrow> 'a sched_scheme \<Rightarrow> 'a sched_scheme option" where
  "proc_free p s =
     (if p = 0 then Some s
      else do {
        s \<leftarrow> (if parent (processes s p) \<noteq> 0 then unlink_child (parent (processes s p)) p s else Some s);
        s \<leftarrow> (if addr_space (processes s p) \<noteq> 0
              then do { s \<leftarrow> mm_destroy (addr_space (processes s p)) s; Some (upd_process p (\<lambda>q. q\<lparr>addr_space := 0\<rparr>) s) }
              else Some s);
        Some (upd_process p (\<lambda>q. q\<lparr>p_slot_inuse := False, live_thread_count := 0, p_state := PROC_UNUSED,
                main_thread := 0, thread_list := 0, waiters := 0, first_child := 0, next_sibling := 0, parent := 0\<rparr>) s) })"

definition thread_reap :: "u32 \<Rightarrow> 'a sched_scheme \<Rightarrow> 'a sched_scheme option" where
  "thread_reap t s =
     (if t = 0 then Some s
      else do {
        s \<leftarrow> thread_unlink_from_runq t s;
        s \<leftarrow> sleepq_remove t s;
        let proc = t_proc (threads s t);
        s \<leftarrow> (if proc = 0 then Some s
              else do {
                s \<leftarrow> (if thread_list (processes s proc) = t
                      then Some (upd_process proc (\<lambda>p. p\<lparr>thread_list := threadlist_next (threads s t)\<rparr>) s)
                      else do {
                        it \<leftarrow> walk_until (\<lambda>p. threadlist_next (threads s p) = t) (tl_nx s)
                               (ptr (thread_list (processes s proc)));
                        Some (case it of None \<Rightarrow> s
                              | Some p \<Rightarrow> upd_thread p (\<lambda>r. r\<lparr>threadlist_next := threadlist_next (threads s t)\<rparr>) s) });
                Some (if main_thread (processes s proc) = t
                      then upd_process proc (\<lambda>p. p\<lparr>main_thread := thread_list (processes s proc)\<rparr>) s else s) });
        Some (upd_thread t (\<lambda>r. r\<lparr>t_state := THREAD_UNUSED, t_slot_inuse := False, rq_next := 0, sleep_next := 0,
                entry := 0, t_proc := 0, threadlist_next := 0, wait_kind := WAIT_NONE, wait_target_pid := 0,
                wait_owner := 0, wait_next := 0\<rparr>) s) })"

partial_function (option) reap_threads :: "u32 \<Rightarrow> 'a sched_scheme \<Rightarrow> 'a sched_scheme option" where
  "reap_threads t s =
     (if t = 0 then Some s
      else let nxt = threadlist_next (threads s t)
           in Option.bind (thread_reap t s) (\<lambda>s. reap_threads nxt s))"

text \<open>\<^verbatim>\<open>*out_result\<close>; \<open>None\<close> when it is not written.\<close>

definition proc_reap_child :: "u32 \<Rightarrow> u32 \<Rightarrow> 'a sched_scheme \<Rightarrow> (reap_result option \<times> 'a sched_scheme) option" where
  "proc_reap_child par child s =
     (if par = 0 then Some (None, s)
      else if child = 0 then Some (Some REAP_INVALID_PID, s)
      else if parent (processes s child) \<noteq> par then Some (Some REAP_UNLINKED_CHILD, s)
      else if p_state (processes s child) \<noteq> PROC_ZOMBIE then Some (Some REAP_NO_ZOMBIE, s)
      else do {
        s \<leftarrow> reap_threads (thread_list (processes s child)) s;
        s \<leftarrow> proc_free child s;
        Some (Some REAP_SUCCESS, s) })"


section \<open>Waiting\<close>

text \<open>
  One round of the loop of \<^verbatim>\<open>proc_waitpid\<close>: it returns a value, with the exit code when a child was
  reaped, or the thread is blocked and the loop goes on when it runs again.
\<close>

datatype wait_outcome = Wait_Returns int "u32 option" | Wait_Blocks

definition have_matching_child :: "u32 \<Rightarrow> u32 \<Rightarrow> 'a sched_scheme \<Rightarrow> bool option" where
  "have_matching_child par match_pid s =
     (if match_pid = - 1 then Some (proc_has_children par s)
      else do {
        it \<leftarrow> walk_until (\<lambda>c. pid (processes s c) = match_pid) (sibling_nx s) (ptr (first_child (processes s par)));
        Some (it \<noteq> None) })"

definition waitpid_round :: "u32 \<Rightarrow> u32 \<Rightarrow> 'a sched_scheme \<Rightarrow> (wait_outcome \<times> 'a sched_scheme) option" where
  "waitpid_round par match_pid s = do {
     have_child \<leftarrow> have_matching_child par match_pid s;
     zombie \<leftarrow> proc_find_zombie_child par match_pid s;
     if zombie \<noteq> 0 then do {
       let status = p_exit_code (processes s zombie);
       let reaped_pid = pid (processes s zombie);
       (rr, s) \<leftarrow> proc_reap_child par zombie s;
       if rr \<noteq> Some REAP_SUCCESS then Some (Wait_Returns (- ECHILD) None, s)
       else Some (Wait_Returns (sint reaped_pid) (Some status), s) }
     else if \<not> have_child then Some (Wait_Returns (- ECHILD) None, s)
     else Some (Wait_Blocks, sched_thread_yield
            (sched_block_current_locked (if match_pid = - 1 then WAIT_ANY else WAIT_CHILD) match_pid s)) }"

definition proc_waitpid :: "u32 \<Rightarrow> int \<Rightarrow> 'a sched_scheme \<Rightarrow> (wait_outcome \<times> 'a sched_scheme) option" where
  "proc_waitpid par pid_filter s =
     (if par = 0 then Some (Wait_Returns (- ESRCH) None, s)
      else if pid_filter < - 1 then Some (Wait_Returns (- EINVAL) None, s)
      else waitpid_round par (if pid_filter = - 1 then - 1 else of_int pid_filter) s)"


section \<open>Fork and start\<close>

text \<open>Whether it succeeded; \<open>parent_tf\<close> is the address of the parent's trap frame.\<close>

definition sched_clone_fork :: "u32 \<Rightarrow> u32 \<Rightarrow> u32 \<Rightarrow> 'a sched_scheme \<Rightarrow> (bool \<times> 'a sched_scheme) option" where
  "sched_clone_fork par child parent_tf s =
     (if par = 0 \<or> thread_current s = 0 \<or> child = 0 \<or> parent_tf = 0 then Some (False, s)
      else do {
        (child_thread, s) \<leftarrow> sched_add_thread (entry (threads s (thread_current s))) child s;
        if child_thread = 0 then Some (False, s)
        else do {
          (copy, s) \<leftarrow> fde_fork_copy (fd_list (processes s par)) s;
          let s = upd_process child (\<lambda>p. p\<lparr>fd_list := copy, fd_count := fd_count (processes s par)\<rparr>) s;
          if fd_list (processes s child) = 0 \<and> fd_list (processes s par) \<noteq> 0
          then do { s \<leftarrow> thread_reap child_thread s; Some (False, s) }
          else do {
            let child_tf = saved_esp (threads s child_thread);
            let s = s\<lparr>kstacks := store_frame (load_frame (kstacks s) parent_tf) child_tf (kstacks s)\<rparr>;
            let s = s\<lparr>kstacks := (kstacks s)(tf_user_esp_slot child_tf := kstacks s (tf_user_esp_slot parent_tf))\<rparr>;
            let s = s\<lparr>kstacks := (kstacks s)(tf_user_ss_slot child_tf := kstacks s (tf_user_ss_slot parent_tf))\<rparr>;
            let s = s\<lparr>kstacks := store_frame ((load_frame (kstacks s) child_tf)\<lparr>eax := 0\<rparr>) child_tf (kstacks s)\<rparr>;
            let s = s\<lparr>kstacks := store_frame ((load_frame (kstacks s) parent_tf)\<lparr>eax := pid (processes s child)\<rparr>)
                       parent_tf (kstacks s)\<rparr>;
            Some (True, s) } } })"

definition sched_init :: "'a sched_scheme \<Rightarrow> 'a sched_scheme option" where
  "sched_init s = do {
     s \<leftarrow> pool_init s;
     let s = s\<lparr>thread_pool_count := g_thread_pool_slot_count s, process_pool_count := g_process_pool_slot_count s\<rparr>;
     s \<leftarrow> mm_init s;
     s \<leftarrow> vma_init s;
     let s = s\<lparr>thread_pool := thread_pool_base s, process_pool := process_pool_base s,
               thread_current := 0, thread_head := 0, thread_sleep_head := 0,
               sched_pending := False, rr_ticks_left := RR_SCHEDULER_CADENCE\<rparr>;
     let s = isr_register 0x81 Sched_on_int81h s;
     (idle_proc, s) \<leftarrow> proc_alloc 0 CTX_KERNEL (Some IDLECOMNAME) s;
     if idle_proc = 0 then None
     else do {
       (_, s) \<leftarrow> sched_add_thread (sched_idle s) idle_proc s;
       Some s } }"

end
