(* ===== verification/Blkdev.thy ===== *)
theory Blkdev
  imports Files
begin

text \<open>
  Block devices (\<^verbatim>\<open>io/blkdev.c\<close>) and the reads and writes of open files (\<^verbatim>\<open>io/openfile.c\<close>). The byte
  interface of a block device accepts whole blocks only and translates an offset into a block address of
  the device the partition lies on. The drivers, which the kernel calls through pointers, are parameters.
\<close>

section \<open>Block devices\<close>

text \<open>\<^verbatim>\<open>while (bs > 1) { bs >>= 1; block_shift++; }\<close>\<close>

function count_shift :: "u32 \<Rightarrow> nat \<Rightarrow> nat" where
  "count_shift bs n = (if bs > 1 then count_shift (drop_bit 1 bs) (Suc n) else n)"
  by auto
termination
  by (relation "measure (\<lambda>(bs, n). unat bs)")
     (auto simp: drop_bit_eq_div word_less_nat_alt unat_div)

text \<open>An error, or the number of blocks and the block address.\<close>

definition blkdev_prepare_aligned_io :: "kblkdev \<Rightarrow> u32 \<Rightarrow> u64 \<Rightarrow> int + (u32 \<times> u64)" where
  "blkdev_prepare_aligned_io blk bytesize off =
     (if block_size blk = 0 then Inl (- EINVAL)
      else if block_size blk AND (block_size blk - 1) \<noteq> 0 then Inl (- EINVAL)
      else let block_shift = count_shift (block_size blk) 0;
               block_mask = (ucast (block_size blk) :: u64) - 1
           in if off AND block_mask \<noteq> 0 then Inl (- EINVAL)
              else if bytesize mod block_size blk \<noteq> 0 then Inl (- EINVAL)
              else let rel_lba = drop_bit block_shift off;
                       block_count = bytesize div block_size blk
                   in if rel_lba > span_blocks blk then Inl (- EINVAL)
                      else if ucast block_count > span_blocks blk - rel_lba then Inl (- EINVAL)
                      else if base_lba blk > - 1 - rel_lba then Inl (- EOVERFLOW)
                      else Inr (block_count, base_lba blk + rel_lba))"

text \<open>
  A driver's write gets the device, the buffer, the number of blocks and the block address; its read
  returns the bytes it put into the buffer beside its result.
\<close>

type_synonym 's drv_write = "u32 \<Rightarrow> kblkdev \<Rightarrow> u8 list option \<Rightarrow> u32 \<Rightarrow> u64 \<Rightarrow> 's \<Rightarrow> (int \<times> 's) option"
type_synonym 's drv_read = "u32 \<Rightarrow> kblkdev \<Rightarrow> u32 \<Rightarrow> u64 \<Rightarrow> 's \<Rightarrow> ((int \<times> u8 list) \<times> 's) option"

definition kblkdev_write_bytes ::
  "'a files_scheme drv_write \<Rightarrow> u32 \<Rightarrow> u8 list option \<Rightarrow> u32 \<Rightarrow> u64 \<Rightarrow> 'a files_scheme \<Rightarrow>
   (int \<times> 'a files_scheme) option" where
  "kblkdev_write_bytes drv target bytebuffer bytesize off s =
     (if target = 0 then Some (- EBADFD, s)
      else if bytebuffer = None \<and> bytesize \<noteq> 0 then Some (- EFAULT, s)
      else let blk = ft_blkdev (file_targets s target)
           in (case blkdev_prepare_aligned_io blk bytesize off of
                 Inl e \<Rightarrow> Some (e, s)
               | Inr (block_count, effective_lba) \<Rightarrow>
                   if block_count = 0 then Some (0, s)
                   else if bo_write (blk_ops blk) = 0 then Some (- ENOSYS, s)
                   else drv (bo_write (blk_ops blk)) blk bytebuffer block_count effective_lba s))"

text \<open>The flag tells whether a buffer was given.\<close>

definition kblkdev_read_bytes ::
  "'a files_scheme drv_read \<Rightarrow> u32 \<Rightarrow> bool \<Rightarrow> u32 \<Rightarrow> u64 \<Rightarrow> 'a files_scheme \<Rightarrow>
   ((int \<times> u8 list) \<times> 'a files_scheme) option" where
  "kblkdev_read_bytes drv target have_buffer bytesize off s =
     (if target = 0 then Some ((- EBADFD, []), s)
      else if \<not> have_buffer \<and> bytesize \<noteq> 0 then Some ((- EFAULT, []), s)
      else let blk = ft_blkdev (file_targets s target)
           in (case blkdev_prepare_aligned_io blk bytesize off of
                 Inl e \<Rightarrow> Some ((e, []), s)
               | Inr (block_count, effective_lba) \<Rightarrow>
                   if block_count = 0 then Some ((0, []), s)
                   else if bo_read (blk_ops blk) = 0 then Some ((- ENOSYS, []), s)
                   else drv (bo_read (blk_ops blk)) blk block_count effective_lba s))"

definition blkdev_populate :: "u32 \<Rightarrow> blkdev_ops \<Rightarrow> u64 \<Rightarrow> u64 \<Rightarrow> u32 \<Rightarrow> kblkdev" where
  "blkdev_populate bsize ops base span ctxt =
     zero_kblkdev\<lparr>block_size := bsize, blk_ops := ops, base_lba := base, span_blocks := span, driver_context := ctxt\<rparr>"

definition blkdev_create :: "u32 \<Rightarrow> blkdev_ops \<Rightarrow> u64 \<Rightarrow> u64 \<Rightarrow> u32 \<Rightarrow> kblkdev" where
  "blkdev_create bsize ops base span ctxt = blkdev_populate bsize ops base span ctxt"

definition ft_blkdev_populate :: "u32 \<Rightarrow> kblkdev \<Rightarrow> 'a files_scheme \<Rightarrow> 'a files_scheme" where
  "ft_blkdev_populate target blk s =
     (if target = 0 then s
      else upd_file_target target (\<lambda>_. zero_file_target\<lparr>
             ft_kobj := zero_kobject\<lparr>k_type := KOBJECT_TYPE_BLKDEV\<rparr>,
             ft_read := Some Kblkdev_Read_Bytes, ft_write := Some Kblkdev_Write_Bytes,
             ft_blkdev := blk\<rparr>) s)"


section \<open>Reading and writing open files\<close>

fun call_target_write ::
  "'a files_scheme drv_write \<Rightarrow> target_write_fn \<Rightarrow> u32 \<Rightarrow> u8 list option \<Rightarrow> u32 \<Rightarrow> u64 \<Rightarrow> 'a files_scheme \<Rightarrow>
   (int \<times> 'a files_scheme) option" where
  "call_target_write drv Console_Write target buffer len off s = console_write target buffer len off s"
| "call_target_write drv Kblkdev_Write_Bytes target buffer len off s = kblkdev_write_bytes drv target buffer len off s"

fun call_target_read ::
  "'a files_scheme drv_read \<Rightarrow> target_read_fn \<Rightarrow> u32 \<Rightarrow> bool \<Rightarrow> u32 \<Rightarrow> u64 \<Rightarrow> 'a files_scheme \<Rightarrow>
   ((int \<times> u8 list) \<times> 'a files_scheme) option" where
  "call_target_read drv Console_Read target have_buffer len off s =
     (let (r, s) = console_read target len off s in Some ((r, []), s))"
| "call_target_read drv Kblkdev_Read_Bytes target have_buffer len off s = kblkdev_read_bytes drv target have_buffer len off s"

definition open_file_read ::
  "'a files_scheme drv_read \<Rightarrow> u32 \<Rightarrow> bool \<Rightarrow> u32 \<Rightarrow> u64 \<Rightarrow> 'a files_scheme \<Rightarrow>
   ((int \<times> u8 list) \<times> 'a files_scheme) option" where
  "open_file_read drv oof have_buffer len off s =
     (if oof = 0 \<or> of_target (open_files s oof) = 0 then Some ((- EBADFD, []), s)
      else (case ft_read (file_targets s (of_target (open_files s oof))) of
              None \<Rightarrow> Some ((- ENOSYS, []), s)
            | Some f \<Rightarrow> call_target_read drv f (of_target (open_files s oof)) have_buffer len off s))"

text \<open>The result and \<^verbatim>\<open>*err_out\<close>.\<close>

definition open_file_write ::
  "'a files_scheme drv_write \<Rightarrow> u32 \<Rightarrow> u8 list option \<Rightarrow> u32 \<Rightarrow> u64 \<Rightarrow> 'a files_scheme \<Rightarrow>
   ((int \<times> errno) \<times> 'a files_scheme) option" where
  "open_file_write drv oof buffer len off s =
     (if oof = 0 \<or> of_target (open_files s oof) = 0 then Some ((0, EBADFD), s)
      else (case ft_write (file_targets s (of_target (open_files s oof))) of
              None \<Rightarrow> Some ((0, ENOSYS), s)
            | Some f \<Rightarrow> do {
                (res, s) \<leftarrow> call_target_write drv f (of_target (open_files s oof)) buffer len off s;
                if res < 0 then Some ((0, - res), s) else Some ((res, ESUCCESS), s) }))"

unbundle bit_operations_syntax

section \<open>Power-of-two block sizes\<close>

lemma and_pred_power: "(2 ^ k :: nat) AND (2 ^ k - 1) = 0"
proof -
  have "(2 ^ k :: nat) AND mask k = 0" by (simp flip: take_bit_eq_mask)
  then show ?thesis by (simp add: mask_eq_exp_minus_1)
qed

lemma and_pred_imp_power:
  "0 < n \<Longrightarrow> n AND (n - 1) = 0 \<Longrightarrow> \<exists>k. n = 2 ^ k" for n :: nat
proof (induction n rule: less_induct)
  case (less n)
  show ?case
  proof (cases "even n")
    case True
    then obtain m where m: "n = 2 * m" by blast
    then have "0 < m" using less.prems by simp
    have "(2 * m - 1) div 2 = m - 1" using \<open>0 < m\<close> by simp
    then have "m AND (m - 1) = 0" using less.prems(2) m and_nat_rec [of n "n - 1"] by simp
    then obtain k where "m = 2 ^ k" using less.IH [of m] m \<open>0 < m\<close> by auto
    then have "n = 2 ^ Suc k" using m by simp
    then show ?thesis by blast
  next
    case False
    then obtain m where m: "n = 2 * m + 1" by (elim oddE)
    then have "m = 0" using less.prems(2) and_nat_rec [of n "n - 1"] by simp
    then have "n = 2 ^ 0" using m by simp
    then show ?thesis by blast
  qed
qed

lemma power_test:
  "(b \<noteq> 0 \<and> b AND (b - 1) = 0) \<longleftrightarrow> (\<exists>k. unat (b :: u32) = 2 ^ k)"
proof (cases "b = 0")
  case False
  then have u: "unat (b - 1) = unat b - 1" by (simp add: unat_minus_one)
  have "b AND (b - 1) = 0 \<longleftrightarrow> unat (b AND (b - 1)) = 0" by (simp only: unat_eq_zero)
  also have "\<dots> \<longleftrightarrow> unat b AND (unat b - 1) = 0" by (simp only: unsigned_and_eq u)
  also have "\<dots> \<longleftrightarrow> (\<exists>k. unat b = 2 ^ k)"
    using and_pred_imp_power [of "unat b"] and_pred_power False by (auto simp: unat_gt_0)
  finally show ?thesis using False by simp
qed simp

lemma count_shift_power: "unat bs = 2 ^ k \<Longrightarrow> count_shift bs n = n + k"
proof (induction k arbitrary: bs n)
  case 0
  then show ?case by (simp add: word_less_nat_alt)
next
  case (Suc k)
  have "unat (drop_bit 1 bs) = 2 ^ k" using Suc.prems by (simp add: unat_drop_bit_u32)
  then have "count_shift (drop_bit 1 bs) (Suc n) = Suc n + k" by (rule Suc.IH)
  moreover have "bs > 1" using Suc.prems one_less_power [of "2::nat" "Suc k"] by (simp add: word_less_nat_alt)
  ultimately show ?case by (subst count_shift.simps) simp
qed

lemma power_u32_less: "unat (b :: u32) = 2 ^ k \<Longrightarrow> k < 32"
proof -
  assume "unat b = 2 ^ k"
  then have "(2 :: nat) ^ k < 2 ^ 32" using unat_u32_less [of b] by simp
  then show ?thesis by (simp only: power_strict_increasing_iff)
qed

lemma unat_power_u64: "k < 32 \<Longrightarrow> unat (2 ^ k :: u64) = 2 ^ k"
proof -
  assume "k < 32"
  then have "unat (of_nat (2 ^ k) :: u64) = 2 ^ k" by (simp add: unsigned_of_nat take_bit_nat_eq_self del: of_nat_power)
  then show ?thesis by simp
qed

lemma off_mask_dvd:
  assumes "unat (b :: u32) = 2 ^ k"
  shows "(off :: u64) AND ((ucast b :: u64) - 1) = 0 \<longleftrightarrow> 2 ^ k dvd unat off"
proof -
  have k: "k < 32" using assms by (rule power_u32_less)
  have "(ucast b :: u64) = 2 ^ k"
    using assms k by (intro word_unat_eq_iff [THEN iffD2]) (simp add: unat_power_u64)
  then have "(ucast b :: u64) - 1 = mask k" by (simp add: mask_eq_exp_minus_1)
  then have t: "off AND ((ucast b :: u64) - 1) = take_bit k off" by (simp add: take_bit_eq_mask)
  have "unat (take_bit k off) = unat off mod 2 ^ k" by (simp only: unsigned_take_bit_eq) (simp only: take_bit_eq_mod)
  then show ?thesis unfolding t by (simp only: unat_eq_zero [symmetric] dvd_eq_mod_eq_0)
qed

text \<open>The arithmetic of the bounds, over the numbers.\<close>

lemma span_check:
  "\<not> (r :: u64) > span \<and> \<not> ucast (n :: u32) > span - r \<longleftrightarrow> unat r + unat n \<le> unat span"
proof (cases "r \<le> span")
  case True
  then have "unat (span - r) = unat span - unat r" by (simp add: unat_sub_if' word_le_nat_alt)
  then show ?thesis using True by (auto simp: word_less_nat_alt word_le_nat_alt)
qed (auto simp: word_less_nat_alt word_le_nat_alt)

lemma lba_check: "\<not> (base :: u64) > - 1 - r \<longleftrightarrow> unat base + unat r < 2 ^ 64"
proof -
  have "unat (- 1 - r) = unat (- 1 :: u64) - unat r" by (simp add: unat_sub_if' word_le_nat_alt [symmetric])
  moreover have "unat (- 1 :: u64) = 2 ^ 64 - 1" by (simp add: unsigned_minus_1_eq_mask mask_eq_exp_minus_1)
  moreover have "unat r < 2 ^ 64" by (rule order_less_le_trans [OF unsigned_less]) simp
  ultimately show ?thesis by (auto simp: word_less_nat_alt)
qed

text \<open>
  (C28) A byte range is accepted exactly when the block size is a power of two that divides offset and length, the blocks
  lie inside the partition, and the address on the device does not overflow; then the number of blocks is the quotient of
  the length and the address is the start of the partition plus the quotient of the offset.
\<close>

theorem blkdev_prepare_correct:
  "blkdev_prepare_aligned_io blk bytesize off = Inr (n, lba) \<longleftrightarrow>
     (\<exists>k. unat (block_size blk) = 2 ^ k) \<and>
     unat (block_size blk) dvd unat off \<and> unat (block_size blk) dvd unat bytesize \<and>
     unat off div unat (block_size blk) + unat bytesize div unat (block_size blk) \<le> unat (span_blocks blk) \<and>
     unat (base_lba blk) + unat off div unat (block_size blk) < 2 ^ 64 \<and>
     unat n = unat bytesize div unat (block_size blk) \<and>
     unat lba = unat (base_lba blk) + unat off div unat (block_size blk)"
proof (cases "\<exists>k. unat (block_size blk) = 2 ^ k")
  case False
  then have "block_size blk = 0 \<or> block_size blk AND (block_size blk - 1) \<noteq> 0" using power_test [of "block_size blk"] by blast
  then have "\<not> (\<exists>r. blkdev_prepare_aligned_io blk bytesize off = Inr r)" by (elim disjE) (simp_all add: blkdev_prepare_aligned_io_def)
  with False show ?thesis by blast
next
  case True
  then obtain k where k: "unat (block_size blk) = 2 ^ k" by blast
  then have p: "block_size blk \<noteq> 0" "block_size blk AND (block_size blk - 1) = 0"
    using power_test [of "block_size blk"] by blast+
  define r where "r = drop_bit k off"
  define c where "c = bytesize div block_size blk"
  have r: "unat r = unat off div 2 ^ k" unfolding r_def by (simp only: unat_drop_bit_eq) (simp only: drop_bit_eq_div)
  have c: "unat c = unat bytesize div 2 ^ k" by (simp add: c_def unat_div k)
  have m: "bytesize mod block_size blk = 0 \<longleftrightarrow> 2 ^ k dvd unat bytesize"
    by (simp add: u32_eq_iff unat_mod_u32 k dvd_eq_mod_eq_0)
  have eq: "blkdev_prepare_aligned_io blk bytesize off =
    (if \<not> 2 ^ k dvd unat off then Inl (- EINVAL) else if \<not> 2 ^ k dvd unat bytesize then Inl (- EINVAL)
     else if \<not> unat r + unat c \<le> unat (span_blocks blk) then Inl (- EINVAL)
     else if \<not> unat (base_lba blk) + unat r < 2 ^ 64 then Inl (- EOVERFLOW) else Inr (c, base_lba blk + r))"
  proof -
    have cs: "count_shift (block_size blk) 0 = k" using count_shift_power [OF k, of 0] by simp
    have sp: "(if r > span_blocks blk then A else if ucast c > span_blocks blk - r then A else B) =
      (if \<not> unat r + unat c \<le> unat (span_blocks blk) then A else B)" for A B :: "int + u32 \<times> u64"
      using span_check [where r = r and span = "span_blocks blk" and n = c] by (simp only: split: if_split) blast
    have lb: "base_lba blk > - 1 - r \<longleftrightarrow> \<not> unat (base_lba blk) + unat r < 2 ^ 64" using lba_check by blast
    show ?thesis
      unfolding blkdev_prepare_aligned_io_def Let_def cs r_def [symmetric] c_def [symmetric] sp lb
        off_mask_dvd [OF k, of off] m using p by (simp only: if_False simp_thms)
  qed
  have add: "unat (base_lba blk + r) = unat (base_lba blk) + unat r" if "unat (base_lba blk) + unat r < 2 ^ 64"
    using that by (simp add: unat_word_ariths)
  have "Inr (c, base_lba blk + r) = (Inr (n, lba) :: int + u32 \<times> u64) \<longleftrightarrow> unat n = unat c \<and> unat lba = unat (base_lba blk + r)"
    by (auto simp: u32_eq_iff word_unat_eq_iff)
  then show ?thesis unfolding eq k using add by (auto simp: r c)
qed

end
