(* ===== verification/Uaccess.thy ===== *)
theory Uaccess
  imports Mm Errno
begin

text \<open>
  Copies between the kernel and user memory (\<^verbatim>\<open>uaccess.c\<close>). A user address is read and written through
  the loaded address space: the processor walks the directory in \<^verbatim>\<open>cr3\<close>. The bytes of the kernel's buffer
  are a list; its address is an argument because the code checks it. A page fault is \<open>None\<close>.
\<close>

section \<open>Virtual memory\<close>

definition virt_addr :: "u32 \<Rightarrow> 'a paging_scheme \<Rightarrow> u32 option" where
  "virt_addr v s = do { p \<leftarrow> loaded_frame v s; Some (p + (v AND 0xFFF)) }"

primrec read_virt :: "nat \<Rightarrow> u32 \<Rightarrow> 'a paging_scheme \<Rightarrow> u8 list option" where
  "read_virt 0 v s = Some []"
| "read_virt (Suc n) v s = do {
     a \<leftarrow> virt_addr v s;
     bs \<leftarrow> read_virt n (v + 1) s;
     Some (mem s a # bs) }"

primrec write_virt :: "u8 list \<Rightarrow> u32 \<Rightarrow> 'a paging_scheme \<Rightarrow> 'a paging_scheme option" where
  "write_virt [] v s = Some s"
| "write_virt (b # bs) v s = do {
     a \<leftarrow> virt_addr v s;
     write_virt bs (v + 1) (s\<lparr>mem := (mem s)(a := b)\<rparr>) }"


section \<open>Copies\<close>

definition range_check :: "u32 \<Rightarrow> u32 \<Rightarrow> bool \<Rightarrow> bool" where
  "range_check start n want_user \<longleftrightarrow>
     n = 0 \<or>
     (let en = start + (n - 1)
      in \<not> en < start \<and>
         (if want_user then is_user_vaddr start \<and> is_user_vaddr en
          else is_kernel_vaddr start \<and> is_kernel_vaddr en))"

text \<open>The loop over the pages of a buffer: each must be mapped with all the given flags.\<close>

partial_function (option) check_user_pages :: "u32 \<Rightarrow> u32 \<Rightarrow> u32 \<Rightarrow> 'a paging_scheme \<Rightarrow> bool option" where
  "check_user_pages flags va last_page s =
     Option.bind (paging_query_page va s) (\<lambda>(status, res).
       case res of
         None \<Rightarrow> Some False
       | Some q \<Rightarrow>
           if status \<noteq> PAGING_OK \<or> \<not> q_mapped q then Some False
           else if q_flags q AND flags \<noteq> flags then Some False
           else if va = last_page then Some True
           else check_user_pages flags (va + 0x1000) last_page s)"

text \<open>\<^verbatim>\<open>*err_out\<close>; the return value is 0 on every path.\<close>

definition copyout :: "u32 \<Rightarrow> u8 list \<Rightarrow> u32 \<Rightarrow> u32 \<Rightarrow> 'a paging_scheme \<Rightarrow> (errno \<times> 'a paging_scheme) option" where
  "copyout ksrc bytes udest n s =
     (if get_current_cpl s \<noteq> CPL_KERNEL then Some (EPERM, s)
      else if ksrc = 0 \<or> udest = 0 then Some (EFAULT, s)
      else if n = 0 then Some (ESUCCESS, s)
      else if \<not> range_check ksrc n False then Some (EFAULT, s)
      else if \<not> range_check udest n True then Some (EFAULT, s)
      else do {
        ok \<leftarrow> check_user_pages (PG_USER OR PG_RW) (udest AND 0xFFFFF000) ((udest + (n - 1)) AND 0xFFFFF000) s;
        if \<not> ok then Some (EFAULT, s)
        else do { s \<leftarrow> write_virt (take (unat n) bytes) udest s; Some (ESUCCESS, s) } })"

text \<open>\<^verbatim>\<open>*err_out\<close> and the bytes copied to the kernel's buffer.\<close>

definition copyin :: "u32 \<Rightarrow> u32 \<Rightarrow> u32 \<Rightarrow> 'a paging_scheme \<Rightarrow> (errno \<times> u8 list) option" where
  "copyin usrc kdest n s =
     (if get_current_cpl s \<noteq> CPL_KERNEL then Some (EPERM, [])
      else if usrc = 0 \<or> kdest = 0 then Some (EFAULT, [])
      else if n = 0 then Some (ESUCCESS, [])
      else if \<not> range_check usrc n True then Some (EFAULT, [])
      else if \<not> range_check kdest n False then Some (EFAULT, [])
      else do {
        ok \<leftarrow> check_user_pages PG_USER (usrc AND 0xFFFFF000) ((usrc + (n - 1)) AND 0xFFFFF000) s;
        if \<not> ok then Some (EFAULT, [])
        else do { bytes \<leftarrow> read_virt (unat n) usrc s; Some (ESUCCESS, bytes) } })"

section \<open>The loaded address space\<close>

text \<open>
  The translation the processor makes. \<open>loaded_ok\<close>: the kernel runs, and the loaded directory and its tables are
  reached through the physical window. \<open>user_ok\<close>: the page of an address is present with the given flags.
\<close>

definition loaded :: "'a paging_scheme \<Rightarrow> u32 \<Rightarrow> (u32 \<times> u32) option" where
  "loaded s v = walk (mem s) (cr3 s AND 0xFFFFF000) v"

definition loaded_table :: "'a paging_scheme \<Rightarrow> u32 \<Rightarrow> u32" where
  "loaded_table s i = ld32 (mem s) (tbl (cr3 s AND 0xFFFFF000) i)"

definition loaded_ok :: "'a paging_scheme \<Rightarrow> bool" where
  "loaded_ok s \<longleftrightarrow> page_directory_loc_phys s \<noteq> 0 \<and> get_current_cpl s = CPL_KERNEL \<and> in_window (cr3 s AND 0xFFFFF000) \<and>
     (\<forall>i. unat i < 1024 \<and> loaded_table s i AND PG_PRESENT \<noteq> 0 \<longrightarrow> in_window (loaded_table s i AND 0xFFFFF000))"

definition user_ok :: "u32 \<Rightarrow> 'a paging_scheme \<Rightarrow> u32 \<Rightarrow> bool" where
  "user_ok flags s v \<longleftrightarrow> (case loaded s v of None \<Rightarrow> False | Some (p, f) \<Rightarrow> f AND flags = flags)"

lemma query_loaded:
  assumes "loaded_ok s"
  shows "paging_query_page v s = Some (case loaded s v of
      None \<Rightarrow> (PAGING_ERR_NOT_MAPPED, Some \<lparr>q_mapped = False, q_phys_addr = 0, q_flags = 0\<rparr>)
    | Some (p, f) \<Rightarrow> (PAGING_OK, Some \<lparr>q_mapped = True, q_phys_addr = p, q_flags = f\<rparr>))"
proof -
  have "unat (pde_index v) < 1024" by (simp add: pde_index_def unat_page)
  then have "phys_to_virt (loaded_table s (pde_index v) AND 0xFFFFF000) \<noteq> None"
    if "loaded_table s (pde_index v) AND PG_PRESENT \<noteq> 0"
    using assms that by (simp add: loaded_ok_def phys_to_virt_in_window)
  moreover have "phys_to_virt (cr3 s AND 0xFFFFF000) \<noteq> None" using assms by (simp add: loaded_ok_def phys_to_virt_in_window)
  ultimately show ?thesis
    using assms by (auto simp: loaded_ok_def paging_query_page_def index_fold loaded_def walk_def Let_def loaded_table_def)
qed

lemma index_of_page [simp]: "pde_index (v AND 0xFFFFF000) = pde_index v" "pte_index (v AND 0xFFFFF000) = pte_index v"
  by (simp_all only: pde_index_def pte_index_def u32_eq_iff unat_page) (simp_all add: page_div)

lemma page_step:
  assumes "unat (v :: u32) + i < 2 ^ 32" "(unat v + i) div 4096 = unat v div 4096 + k"
  shows "(v AND 0xFFFFF000) + of_nat k * 0x1000 = (v + of_nat i) AND 0xFFFFF000"
proof -
  have i: "unat (v + of_nat i) = unat v + i" using assms(1) by (simp add: unat_plus_nat)
  have "(unat v div 4096 + k) * 4096 \<le> unat v + i" by (simp flip: assms(2))
  then have k: "unat v div 4096 * 4096 + k * 4096 < 4294967296" using assms(1) by (simp add: add_mult_distrib)
  have "of_nat k * 0x1000 = (of_nat (k * 4096) :: u32)" by simp
  then have "unat (of_nat k * 0x1000 :: u32) = k * 4096" using k unat_of_nat_u32 [of "k * 4096"] by simp
  then have "unat ((v AND 0xFFFFF000) + of_nat k * 0x1000) = unat v div 4096 * 4096 + k * 4096"
    using k by (simp add: unat_add_u32 unat_page)
  then show ?thesis using assms(2) by (simp add: u32_eq_iff unat_page i add_mult_distrib)
qed

lemma loaded_of_page [simp]: "loaded s (v AND 0xFFFFF000) = loaded s v"
  by (simp add: loaded_def walk_def Let_def)

lemma user_ok_of_page [simp]: "user_ok flags s (v AND 0xFFFFF000) = user_ok flags s v"
  by (simp add: user_ok_def)


section \<open>The check of a buffer\<close>

lemma check_user_pages_step:
  assumes "loaded_ok s"
  shows "check_user_pages flags va la s =
    (if \<not> user_ok flags s va then Some False else if va = la then Some True else check_user_pages flags (va + 0x1000) la s)"
  by (subst check_user_pages.simps)
    (auto simp: query_loaded [OF assms] user_ok_def split: option.split prod.split)

lemma check_user_pages_pages:
  assumes "loaded_ok s" "unat va + 4096 * n = unat la"
  shows "check_user_pages flags va la s = Some (\<forall>k \<le> n. user_ok flags s (va + of_nat k * 0x1000))"
  using assms(2)
proof (induction n arbitrary: va)
  case 0
  then have "va = la" by (simp add: u32_eq_iff)
  then show ?case by (simp add: check_user_pages_step [OF assms(1)])
next
  case (Suc n)
  have "unat va + 4096 < 4294967296" using unat_u32_less [of la, folded Suc.prems] by simp
  then have u: "unat (va + 0x1000) = unat va + 4096" by (simp add: unat_add_u32)
  then have "check_user_pages flags (va + 0x1000) la s = Some (\<forall>k \<le> n. user_ok flags s (va + 0x1000 + of_nat k * 0x1000))"
    using Suc.prems by (intro Suc.IH) simp
  moreover have "(\<forall>k \<le> Suc n. user_ok flags s (va + of_nat k * 0x1000)) \<longleftrightarrow>
      user_ok flags s va \<and> (\<forall>k \<le> n. user_ok flags s (va + 0x1000 + of_nat k * 0x1000))"
    unfolding less_Suc_eq_le[symmetric] All_less_Suc2 by (simp add: algebra_simps)
  moreover have "va \<noteq> la" using Suc.prems by (auto simp: u32_eq_iff)
  ultimately show ?case by (simp add: check_user_pages_step [OF assms(1), of flags va])
qed

lemma check_user_pages_bytes:
  assumes "loaded_ok s" "0 < n" "unat v + n \<le> 2 ^ 32"
  shows "check_user_pages flags (v AND 0xFFFFF000) ((v + of_nat (n - 1)) AND 0xFFFFF000) s =
    Some (\<forall>i < n. user_ok flags s (v + of_nat i))"
proof -
  have un: "unat (v + of_nat i) = unat v + i" if "i < n" for i
    using that assms(3) by (simp add: unat_plus_nat)
  define m where "m = (unat v + (n - 1)) div 4096 - unat v div 4096"
  have le: "unat v div 4096 \<le> (unat v + (n - 1)) div 4096" by (simp add: div_le_mono)
  have last: "unat (v AND 0xFFFFF000) + 4096 * m = unat ((v + of_nat (n - 1)) AND 0xFFFFF000)"
    using un [of "n - 1"] assms(2) le unfolding m_def by (simp add: unat_page diff_mult_distrib2)
  have "(\<forall>k \<le> m. user_ok flags s ((v AND 0xFFFFF000) + of_nat k * 0x1000)) \<longleftrightarrow> (\<forall>i < n. user_ok flags s (v + of_nat i))"
  proof
    assume l: "\<forall>k \<le> m. user_ok flags s ((v AND 0xFFFFF000) + of_nat k * 0x1000)"
    show "\<forall>i < n. user_ok flags s (v + of_nat i)"
    proof (intro allI impI)
      fix i assume i: "i < n"
      define k where "k = (unat v + i) div 4096 - unat v div 4096"
      have "k \<le> m" using i unfolding k_def m_def by (simp add: div_le_mono diff_le_mono)
      moreover have "(v AND 0xFFFFF000) + of_nat k * 0x1000 = (v + of_nat i) AND 0xFFFFF000"
        using assms(3) i by (intro page_step) (simp_all add: k_def div_le_mono)
      ultimately show "user_ok flags s (v + of_nat i)" using l user_ok_of_page by metis
    qed
  next
    assume r: "\<forall>i < n. user_ok flags s (v + of_nat i)"
    show "\<forall>k \<le> m. user_ok flags s ((v AND 0xFFFFF000) + of_nat k * 0x1000)"
    proof (intro allI impI)
      fix k assume k: "k \<le> m"
      define i where "i = (unat v div 4096 + k) * 4096 - unat v"
      have "unat v div 4096 + k \<le> (unat v + (n - 1)) div 4096" using k le unfolding m_def by linarith
      then have "(unat v div 4096 + k) * 4096 \<le> (unat v + (n - 1)) div 4096 * 4096" by (rule mult_le_mono1)
      also have "\<dots> \<le> unat v + (n - 1)" by simp
      finally have i: "i < n" using assms(2) by (simp add: i_def)
      have "(unat v + i) div 4096 = unat v div 4096 + k"
      proof (cases k)
        case 0
        have "unat v div 4096 * 4096 \<le> unat v" by simp
        then show ?thesis using 0 by (simp add: i_def)
      next
        case (Suc j)
        have "unat v < (unat v div 4096 + 1) * 4096" using div_mult_mod_eq [of "unat v" 4096] mod_less_divisor [of 4096 "unat v"] by simp
        then have "unat v + i = (unat v div 4096 + k) * 4096" using Suc by (simp add: i_def)
        then show ?thesis by simp
      qed
      then have "(v AND 0xFFFFF000) + of_nat k * 0x1000 = (v + of_nat i) AND 0xFFFFF000"
        using assms(3) i by (intro page_step) simp_all
      then show "user_ok flags s ((v AND 0xFFFFF000) + of_nat k * 0x1000)" using r i by simp
    qed
  qed
  then show ?thesis using check_user_pages_pages [OF assms(1) last] by simp
qed

text \<open>
  (C34) The loop over the pages of a buffer ends for every buffer that does not wrap, and its answer is about every byte: each
  lies in a page that is present with all the flags.
\<close>

theorem check_user_pages_returns:
  assumes "loaded_ok s" "0 < n" "unat v + n \<le> 2 ^ 32"
  shows "check_user_pages flags (v AND 0xFFFFF000) ((v + of_nat (n - 1)) AND 0xFFFFF000) s =
    Some (\<forall>i < n. user_ok flags s (v + of_nat i))"
  using assms by (rule check_user_pages_bytes)

section \<open>Reading user memory\<close>

lemma range_check_iff:
  assumes "n \<noteq> 0"
  shows "range_check v n True \<longleftrightarrow> unat v + unat n \<le> 0xC0000000"
    and "range_check v n False \<longleftrightarrow> 0xC0000000 \<le> unat v \<and> unat v + unat n \<le> 2 ^ 32"
proof -
  have n: "unat n \<noteq> 0" using assms by (simp add: u32_eq_iff)
  have n1: "unat (n - 1) = unat n - 1" using n by (subst unat_sub_u32) (simp_all add: word_le_nat_alt)
  have lv: "unat v + 1 \<le> 4294967296" and ln: "unat n + 1 \<le> 4294967296"
    using unat_u32_less [of v] unat_u32_less [of n] by (simp_all only: Suc_eq_plus1 [symmetric] Suc_le_eq)
  have lt: "v + (n - 1) < v \<longleftrightarrow> \<not> unat v + unat n \<le> 2 ^ 32"
  proof (cases "unat v + unat n \<le> 2 ^ 32")
    case True
    then show ?thesis using n n1 by (simp add: word_less_nat_alt unat_add_u32)
  next
    case False
    have "unat (v + (n - 1)) = (unat v + (unat n - 1)) mod 4294967296" using n1 by (simp add: unat_word_ariths)
    also have "\<dots> = unat v + (unat n - 1) - 4294967296"
      using False n lv ln by (subst le_mod_geq) simp_all
    finally show ?thesis using False n ln by (simp add: word_less_nat_alt)
  qed
  have en: "unat (v + (n - 1)) = unat v + (unat n - 1)" if "unat v + unat n \<le> 2 ^ 32"
    using that n n1 by (simp add: unat_add_u32)
  show "range_check v n True \<longleftrightarrow> unat v + unat n \<le> 0xC0000000"
    "range_check v n False \<longleftrightarrow> 0xC0000000 \<le> unat v \<and> unat v + unat n \<le> 2 ^ 32"
    using lt en n assms
    by (auto simp: range_check_def Let_def is_user_vaddr_def is_kernel_vaddr_def KERNEL_VIRTUAL_BASE_def
        word_less_nat_alt word_le_nat_alt)
qed

lemma user_ok_virt:
  "user_ok flags s v \<Longrightarrow> \<exists>a. virt_addr v s = Some a"
  by (auto simp: user_ok_def virt_addr_def loaded_frame_def loaded_def split: option.splits)

lemma read_virt_bytes:
  assumes "\<forall>i < n. user_ok flags s (v + of_nat i)"
  shows "read_virt n v s = Some (map (\<lambda>i. mem s (the (virt_addr (v + of_nat i) s))) [0..<n])"
  using assms
proof (induction n arbitrary: v)
  case (Suc n)
  have "\<forall>i < n. user_ok flags s (v + 1 + of_nat i)" using Suc.prems by (auto simp: add.assoc dest: spec [of _ "Suc _"])
  from Suc.IH [OF this] obtain a where "virt_addr v s = Some a"
    "read_virt n (v + 1) s = Some (map (\<lambda>i. mem s (the (virt_addr (v + 1 + of_nat i) s))) [0..<n])"
    using Suc.prems user_ok_virt [of flags s v] by force
  then show ?case by (simp add: upt_conv_Cons map_Suc_upt [symmetric] add.assoc del: upt_Suc)
qed simp


section \<open>Writing user memory\<close>

text \<open>
  The frames of the user pages are pairwise different, and none is the directory or one of its tables; \<^verbatim>\<open>mm.c\<close> and
  \<^verbatim>\<open>vma.c\<close> take a frame of its own for each page and each table.
\<close>

definition user_apart :: "'a paging_scheme \<Rightarrow> bool" where
  "user_apart s \<longleftrightarrow> (\<forall>v p f. loaded s v = Some (p, f) \<and> f AND PG_USER = PG_USER \<longrightarrow>
     p \<noteq> cr3 s AND 0xFFFFF000 \<and>
     (\<forall>i. unat i < 1024 \<and> loaded_table s i AND PG_PRESENT \<noteq> 0 \<longrightarrow> p \<noteq> loaded_table s i AND 0xFFFFF000) \<and>
     (\<forall>w g. loaded s w = Some (p, g) \<and> g AND PG_USER = PG_USER \<longrightarrow> w AND 0xFFFFF000 = v AND 0xFFFFF000))"

lemma page_and [simp]: "page_aligned (v AND 0xFFFFF000)"
  by (simp add: page_aligned_unat unat_page)

lemma ld32_other_page:
  assumes "page_aligned p" "unat i < 1024" "a AND 0xFFFFF000 \<noteq> p"
  shows "ld32 (m(a := b)) (tbl p i) = ld32 m (tbl p i)"
proof -
  obtain q where q: "unat p = 4096 * q" "q < 1048576" using assms(1) by (rule page_alignedE)
  have "a \<noteq> tbl p i + of_nat k" if "k < 4" for k
  proof
    assume a: "a = tbl p i + of_nat k"
    have t: "unat (tbl p i) = 4096 * q + 4 * unat i" using unat_tbl [OF assms(1,2)] q by simp
    then have "unat a = 4096 * q + (4 * unat i + k)" using that assms(2) q(2) a by (simp add: unat_plus_nat)
    then have "unat a div 4096 = q" using that assms(2) by simp
    then have "a AND 0xFFFFF000 = p" using q by (simp add: u32_eq_iff unat_page)
    then show False using assms(3) by simp
  qed
  from this [of 0] this [of 1] this [of 2] this [of 3] show ?thesis by (simp add: ld32_def)
qed

lemma virt_addr_page:
  assumes "loaded s v = Some (p, f)"
  shows "virt_addr v s = Some (p + (v AND 0xFFF))" "(p + (v AND 0xFFF)) AND 0xFFFFF000 = p"
    "(p + (v AND 0xFFF)) AND 0xFFF = v AND 0xFFF"
proof -
  show "virt_addr v s = Some (p + (v AND 0xFFF))" using assms by (simp add: virt_addr_def loaded_frame_def loaded_def)
  have "page_aligned p" using assms by (auto simp: loaded_def walk_def Let_def split: if_splits)
  then obtain q where q: "unat p = 4096 * q" "q < 1048576" by (rule page_alignedE)
  have "unat (v AND 0xFFF) < 4096" by (simp add: unat_page)
  then have "unat (p + (v AND 0xFFF)) = 4096 * q + unat (v AND 0xFFF)" using q by (simp add: unat_add_u32)
  moreover have "unat (v AND 0xFFF) < 4096" by (simp add: unat_page)
  ultimately show "(p + (v AND 0xFFF)) AND 0xFFFFF000 = p" "(p + (v AND 0xFFF)) AND 0xFFF = v AND 0xFFF"
    using q by (simp_all add: u32_eq_iff unat_page)
qed

text \<open>One byte of a user page.\<close>

lemma write_user_byte:
  assumes "user_apart s" "user_ok PG_USER s v"
  obtains a where "virt_addr v s = Some a" "loaded (s\<lparr>mem := (mem s)(a := b)\<rparr>) = loaded s"
    "\<forall>i. unat i < 1024 \<longrightarrow> loaded_table (s\<lparr>mem := (mem s)(a := b)\<rparr>) i = loaded_table s i"
    "\<forall>w. user_ok PG_USER s w \<longrightarrow> virt_addr w s = Some a \<longrightarrow> w = v"
proof -
  obtain p f where l: "loaded s v = Some (p, f)" "f AND PG_USER = PG_USER"
    using assms(2) by (auto simp: user_ok_def split: option.splits)
  note A = assms(1) [unfolded user_apart_def, rule_format, OF conjI, OF l]
  define a where "a = p + (v AND 0xFFF)"
  note V = virt_addr_page [OF l(1), folded a_def]
  let ?s = "s\<lparr>mem := (mem s)(a := b)\<rparr>"
  have d: "ld32 ((mem s)(a := b)) (tbl (cr3 s AND 0xFFFFF000) i) = ld32 (mem s) (tbl (cr3 s AND 0xFFFFF000) i)" if "unat i < 1024" for i
    using A V(2) that by (intro ld32_other_page) auto
  have "loaded ?s w = loaded s w" for w
  proof -
    let ?pde = "loaded_table s (pde_index w)"
    have "ld32 ((mem s)(a := b)) (tbl (?pde AND 0xFFFFF000) (pte_index w)) = ld32 (mem s) (tbl (?pde AND 0xFFFFF000) (pte_index w))"
      if "?pde AND PG_PRESENT \<noteq> 0"
      using A V(2) that by (intro ld32_other_page) auto
    then show ?thesis using d [OF pde_index_less(1)] by (simp add: loaded_def walk_def Let_def loaded_table_def)
  qed
  moreover have "w = v" if u: "user_ok PG_USER s w" "virt_addr w s = Some a" for w
  proof -
    obtain q g where w: "loaded s w = Some (q, g)" "g AND PG_USER = PG_USER"
      using u(1) by (auto simp: user_ok_def split: option.splits)
    note W = virt_addr_page [OF w(1)]
    have a: "a = q + (w AND 0xFFF)" using W(1) u(2) by simp
    then have "q = p" using W(2) V(2) by simp
    then have "w AND 0xFFFFF000 = v AND 0xFFFFF000" using A w by blast
    moreover have "w AND 0xFFF = v AND 0xFFF" using W(3) V(3) a by simp
    ultimately show ?thesis using page_split [of v] page_split [of w] by metis
  qed
  ultimately show thesis using that [OF V(1)] d by (simp add: fun_eq_iff loaded_table_def)
qed

lemma same_tables:
  assumes "loaded s' = loaded s" "\<forall>i. unat i < 1024 \<longrightarrow> loaded_table s' i = loaded_table s i" "s' = s\<lparr>mem := m\<rparr>"
  shows "user_apart s \<Longrightarrow> user_apart s'" "loaded_ok s \<Longrightarrow> loaded_ok s'" "user_ok fl s' v = user_ok fl s v"
    "virt_addr v s' = virt_addr v s"
proof -
  have c: "cr3 s' = cr3 s" "get_current_cpl s' = get_current_cpl s" "page_directory_loc_phys s' = page_directory_loc_phys s"
    using assms(3) by (simp_all add: get_current_cpl_def)
  show "user_apart s \<Longrightarrow> user_apart s'" unfolding user_apart_def using assms(1,2) c(1) by (simp cong: conj_cong)
  show "loaded_ok s \<Longrightarrow> loaded_ok s'" unfolding loaded_ok_def using assms(2) c by (simp cong: conj_cong)
  show "user_ok fl s' v = user_ok fl s v" by (simp add: user_ok_def assms(1))
  show "virt_addr v s' = virt_addr v s" by (simp add: virt_addr_def loaded_frame_def assms(1) flip: loaded_def)
qed

lemma write_virt_bytes:
  assumes "user_apart s" "\<forall>i < length bs. user_ok PG_USER s (v + of_nat i)" "length bs < 2 ^ 32"
  shows "\<exists>s'. write_virt bs v s = Some s' \<and> s' = s\<lparr>mem := mem s'\<rparr> \<and> loaded s' = loaded s \<and>
    (\<forall>i. unat i < 1024 \<longrightarrow> loaded_table s' i = loaded_table s i) \<and>
    (\<forall>i < length bs. mem s' (the (virt_addr (v + of_nat i) s)) = bs ! i) \<and>
    (\<forall>a. (\<forall>i < length bs. virt_addr (v + of_nat i) s \<noteq> Some a) \<longrightarrow> mem s' a = mem s a)"
  using assms
proof (induction bs arbitrary: v s)
  case (Cons b bs)
  have ok: "user_ok PG_USER s (v + of_nat i)" if "i < Suc (length bs)" for i using Cons.prems(2) that by simp
  have v: "user_ok PG_USER s v" using ok [of 0] by simp
  have t: "user_ok PG_USER s (v + 1 + of_nat i)" if "i < length bs" for i using ok [of "Suc i"] that by (simp add: add.assoc)
  obtain a where a: "virt_addr v s = Some a" "loaded (s\<lparr>mem := (mem s)(a := b)\<rparr>) = loaded s"
    "\<forall>i. unat i < 1024 \<longrightarrow> loaded_table (s\<lparr>mem := (mem s)(a := b)\<rparr>) i = loaded_table s i"
    "\<forall>w. user_ok PG_USER s w \<longrightarrow> virt_addr w s = Some a \<longrightarrow> w = v"
    by (rule write_user_byte [OF Cons.prems(1) v])
  define s1 where "s1 = s\<lparr>mem := (mem s)(a := b)\<rparr>"
  note S = same_tables [OF a(2,3) refl, folded s1_def]
  have "\<forall>i < length bs. user_ok PG_USER s1 (v + 1 + of_nat i)" using t S(3) by simp
  from Cons.IH [OF S(1) [OF Cons.prems(1)] this] obtain s' where s': "write_virt bs (v + 1) s1 = Some s'"
    "s' = s1\<lparr>mem := mem s'\<rparr>" "loaded s' = loaded s1" "\<forall>i. unat i < 1024 \<longrightarrow> loaded_table s' i = loaded_table s1 i"
    "\<forall>i < length bs. mem s' (the (virt_addr (v + 1 + of_nat i) s1)) = bs ! i"
    "\<forall>a. (\<forall>i < length bs. virt_addr (v + 1 + of_nat i) s1 \<noteq> Some a) \<longrightarrow> mem s' a = mem s1 a"
    using Cons.prems(3) by auto
  have "virt_addr (v + 1 + of_nat i) s1 \<noteq> Some a" if i: "i < length bs" for i
  proof
    assume "virt_addr (v + 1 + of_nat i) s1 = Some a"
    then have "v + 1 + of_nat i = v" using a(4) t [OF i] unfolding S(4) by blast
    then have "of_nat (Suc i) = (0 :: u32)" by (simp add: add.assoc)
    moreover have "unat (of_nat (Suc i) :: u32) = Suc i" using i Cons.prems(3) by (intro unat_of_nat_u32) simp
    ultimately show False by simp
  qed
  then have b: "mem s' a = b" using s'(6) by (simp add: s1_def)
  have "mem s' (the (virt_addr (v + of_nat i) s)) = (b # bs) ! i" if "i < length (b # bs)" for i
    using that b s'(5) a(1) S(4) by (cases i) (simp_all add: add.assoc)
  moreover have "mem s' x = mem s x" if x: "\<forall>i < length (b # bs). virt_addr (v + of_nat i) s \<noteq> Some x" for x
  proof -
    have "x \<noteq> a" using x [rule_format, of 0] a(1) by auto
    moreover have "\<forall>i < length bs. virt_addr (v + 1 + of_nat i) s1 \<noteq> Some x"
      using x [rule_format, of "Suc _"] S(4) by (simp add: add.assoc)
    ultimately show ?thesis using s'(6) by (simp add: s1_def)
  qed
  moreover have "s' = s\<lparr>mem := mem s'\<rparr>" using s'(2) by (simp add: s1_def)
  ultimately show ?case using s'(1,3,4) a(1-3) by (simp add: s1_def)
qed simp

lemma user_ok_weaken: "user_ok (PG_USER OR fl) s v \<Longrightarrow> user_ok PG_USER s v"
proof -
  assume "user_ok (PG_USER OR fl) s v"
  moreover have "f AND PG_USER = PG_USER" if "f AND (PG_USER OR fl) = PG_USER OR fl" for f
  proof -
    have "f AND PG_USER = (f AND (PG_USER OR fl)) AND PG_USER" by (simp add: and.assoc bit.conj_disj_distrib2)
    also have "\<dots> = PG_USER" by (simp only: that) (simp add: bit.conj_disj_distrib2)
    finally show ?thesis .
  qed
  ultimately show ?thesis by (auto simp: user_ok_def split: option.splits)
qed

text \<open>
  (C33) Writing to user memory returns for all arguments. It is refused without effect unless the buffers are in their halves
  and every byte of the destination lies in a present, writable user page. Otherwise exactly the bytes of the destination
  change, and reading the buffer back yields what was written.
\<close>

theorem copyout_copyin_roundtrip:
  assumes "loaded_ok s" "user_apart s" "ksrc \<noteq> 0" "udest \<noteq> 0" "n \<noteq> 0" "length bs = unat n"
  shows "\<exists>err s'. copyout ksrc bs udest n s = Some (err, s') \<and>
    (if 0xC0000000 \<le> unat ksrc \<and> unat ksrc + unat n \<le> 2 ^ 32 \<and> unat udest + unat n \<le> 0xC0000000 \<and>
        (\<forall>i < unat n. user_ok (PG_USER OR PG_RW) s (udest + of_nat i))
     then err = ESUCCESS \<and> copyin udest ksrc n s' = Some (ESUCCESS, bs) \<and> s' = s\<lparr>mem := mem s'\<rparr> \<and>
       (\<forall>a. (\<forall>i < unat n. virt_addr (udest + of_nat i) s \<noteq> Some a) \<longrightarrow> mem s' a = mem s a)
     else err = EFAULT \<and> s' = s)"
proof (cases "0xC0000000 \<le> unat ksrc \<and> unat ksrc + unat n \<le> 2 ^ 32 \<and> unat udest + unat n \<le> 0xC0000000")
  case True
  then have r: "range_check ksrc n False" "range_check udest n True" using assms(5) range_check_iff by simp_all
  have n: "0 < unat n" using assms(5) by (simp add: u32_eq_iff)
  have n1: "n - 1 = of_nat (unat n - 1)" using n by (simp add: of_nat_diff)
  have chk: "check_user_pages fl (udest AND 0xFFFFF000) ((udest + (n - 1)) AND 0xFFFFF000) s' =
      Some (\<forall>i < unat n. user_ok fl s' (udest + of_nat i))" if "loaded_ok s'" for fl and s' :: "'a paging_scheme"
    unfolding n1 using check_user_pages_bytes [OF that n, of udest fl] True by simp
  show ?thesis
  proof (cases "\<forall>i < unat n. user_ok (PG_USER OR PG_RW) s (udest + of_nat i)")
    case ok: True
    then have u: "\<forall>i < length bs. user_ok PG_USER s (udest + of_nat i)" using user_ok_weaken unfolding assms(6) by blast
    have "length bs < 2 ^ 32" using assms(6) by simp
    from write_virt_bytes [OF assms(2) u this] obtain s' where s': "write_virt bs udest s = Some s'" "s' = s\<lparr>mem := mem s'\<rparr>"
      "loaded s' = loaded s" "\<forall>i. unat i < 1024 \<longrightarrow> loaded_table s' i = loaded_table s i"
      "\<forall>i < length bs. mem s' (the (virt_addr (udest + of_nat i) s)) = bs ! i"
      "\<forall>a. (\<forall>i < length bs. virt_addr (udest + of_nat i) s \<noteq> Some a) \<longrightarrow> mem s' a = mem s a" by blast
    note S = same_tables [OF s'(3) s'(4) s'(2)]
    have "map (\<lambda>i. mem s' (the (virt_addr (udest + of_nat i) s'))) [0..<unat n] = bs"
      using s'(5) assms(6) S(4) by (intro nth_equalityI) simp_all
    then have "copyin udest ksrc n s' = Some (ESUCCESS, bs)"
      using assms r u S(2,3) chk [OF S(2) [OF assms(1)], of PG_USER] read_virt_bytes [of "unat n" PG_USER s' udest]
      by (simp add: copyin_def loaded_ok_def)
    moreover have "copyout ksrc bs udest n s = Some (ESUCCESS, s')"
      using assms r chk [OF assms(1), of "PG_USER OR PG_RW"] ok s'(1) by (simp add: copyout_def loaded_ok_def)
    ultimately show ?thesis using True ok s'(2,6) assms(6) by (intro exI [of _ ESUCCESS] exI [of _ s']) simp
  next
    case False
    then have "copyout ksrc bs udest n s = Some (EFAULT, s)"
      using assms r chk [OF assms(1), of "PG_USER OR PG_RW"] by (auto simp: copyout_def loaded_ok_def)
    then show ?thesis using False by auto
  qed
next
  case False
  then have "\<not> range_check ksrc n False \<or> \<not> range_check udest n True" using assms(5) range_check_iff by auto
  then have "copyout ksrc bs udest n s = Some (EFAULT, s)" using assms by (auto simp: copyout_def loaded_ok_def)
  then show ?thesis using False by auto
qed

section \<open>Examples\<close>

lemma ex_mapped_loaded:
  "loaded ex_mapped v = (if v AND 0xFFFFF000 = 0x5000 then Some (0xB000, 7) else None)"
proof -
  have i: "pde_index 0x5000 = 0" by (simp add: pde_index_def)
  have tb: "table_at ex_paging (pde_index 0x5000) \<noteq> 0" using ex_paging_tables(1) [of 0] i by simp
  have "mapped 0x5000 (entry_of 0xB007) (translate ex_paging) (translate ex_mapped)"
    unfolding ex_mapped_def by (rule set_pte_mapped [OF as_invD(2) [OF ex_paging_inv] tb ex_mapped_props(3)])
  then have "translate ex_mapped (v AND 0xFFFFF000) = (if v AND 0xFFFFF000 = 0x5000 then Some (0xB000, 7) else None)"
    using page_and [of v] ex_mapped_props(2) by (simp add: mapped_def ex_paging_empty entry_of_def PG_PRESENT_def)
  moreover have "loaded ex_mapped w = translate ex_mapped w" for w
    using as_invD(4) [OF ex_mapped_props(1)] by (simp add: loaded_def)
  ultimately show ?thesis using loaded_of_page [of ex_mapped v] by metis
qed

lemma ex_mapped_ok: "loaded_ok ex_mapped" "user_apart ex_mapped"
proof -
  note P = as_invD(2) [OF ex_mapped_props(1)] and C = as_invD(4) [OF ex_mapped_props(1)]
  have lt: "loaded_table ex_mapped i = pde_at ex_mapped i" for i by (simp add: loaded_table_def pde_at_def C)
  have tb: "table_at ex_mapped i = (if i = 0 then 0x9000 else 0)" if "unat i < 1024" for i
    using ex_paging_tables(1) that by (simp add: ex_mapped_def table_at_def set_pte_def)
  have e: "pde_at ex_mapped i AND 0xFFFFF000 = 0x9000" "i = 0" if "unat i < 1024" "pde_at ex_mapped i AND PG_PRESENT \<noteq> 0" for i
    using pg_invD(5,8) [OF P that(1)] that tb [OF that(1)] by (auto split: if_splits)
  have d: "page_directory_loc_phys ex_mapped = 0x8000" by (simp add: ex_mapped_def set_pte_def ex_paging_def)
  show "loaded_ok ex_mapped"
    unfolding loaded_ok_def lt C d using pg_invD(1) [OF P] e(1) by (auto simp: in_window_def)
  show "user_apart ex_mapped"
    unfolding user_apart_def lt C d ex_mapped_loaded using e(1) by (auto split: if_splits)
qed

lemma ex_mapped_user: "unat i < 0x1000 \<Longrightarrow> user_ok (PG_USER OR PG_RW) ex_mapped (0x5000 + i)"
proof -
  assume i: "unat i < 0x1000"
  then have "(0x5000 + i) AND 0xFFFFF000 = 0x5000" by (simp add: u32_eq_iff unat_page unat_add_u32)
  then show ?thesis by (simp add: user_ok_def ex_mapped_loaded PG_USER_def PG_RW_def)
qed

theorem check_user_pages_returns_witness:
  "check_user_pages (PG_USER OR PG_RW) 0x5000 0x5000 ex_mapped = Some True \<and>
   check_user_pages PG_USER 0x5000 0x6000 ex_mapped = Some False"
proof
  have "user_ok (PG_USER OR PG_RW) ex_mapped (0x5010 + of_nat i)" if "i < 4" for i
    using ex_mapped_user [of "0x10 + of_nat i"] that by (simp add: unat_plus_nat)
  then show "check_user_pages (PG_USER OR PG_RW) 0x5000 0x5000 ex_mapped = Some True"
    using check_user_pages_returns [OF ex_mapped_ok(1), of 4 "0x5010" "PG_USER OR PG_RW"] by simp
  have "\<not> user_ok PG_USER ex_mapped (0x5FFF + of_nat 1)" by (simp add: user_ok_def ex_mapped_loaded)
  then have "\<not> (\<forall>i < 2. user_ok PG_USER ex_mapped (0x5FFF + of_nat i))" using one_less_numeral_iff semiring_norm(76) by blast
  then show "check_user_pages PG_USER 0x5000 0x6000 ex_mapped = Some False"
    using check_user_pages_returns [OF ex_mapped_ok(1), of 2 "0x5FFF" PG_USER] by simp
qed


theorem copyout_copyin_roundtrip_witness:
  "\<exists>s'. copyout 0xC0001000 [1, 2, 3, 4] 0x5010 4 ex_mapped = Some (ESUCCESS, s') \<and>
     copyin 0x5010 0xC0001000 4 s' = Some (ESUCCESS, [1, 2, 3, 4]) \<and> mem s' 0xB014 = mem ex_mapped 0xB014"
proof -
  have u: "user_ok (PG_USER OR PG_RW) ex_mapped (0x5010 + of_nat i)" if "i < 4" for i
    using ex_mapped_user [of "0x10 + of_nat i"] that by (simp add: unat_plus_nat)
  have "virt_addr (0x5010 + of_nat i) ex_mapped \<noteq> Some 0xB014" if "i < 4" for i
  proof -
    have "i = 0 \<or> i = 1 \<or> i = 2 \<or> i = 3" using that by linarith
    then show ?thesis by (auto simp: virt_addr_def loaded_frame_def ex_mapped_loaded [unfolded loaded_def])
  qed
  then show ?thesis
    using copyout_copyin_roundtrip [OF ex_mapped_ok, of "0xC0001000" "0x5010" 4 "[1, 2, 3, 4]"] u by auto
qed

end
