(* ===== verification/Syscall.thy ===== *)
theory Syscall
  imports Proc Blkdev Uaccess
begin

text \<open>
  System calls (\<^verbatim>\<open>syscall.h\<close>, \<^verbatim>\<open>syscall.c\<close>, \<^verbatim>\<open>sys/\<close>). A call gets the address of the caller's trap frame and
  returns a value; \<open>None\<close> as the value means that the thread gave up the processor inside the call (it is
  blocked, or gone). The addresses of the buffers the C functions have on the kernel's stack are arguments.
\<close>

section \<open>Arguments\<close>

definition SYSCALL_MAX :: u32 where "SYSCALL_MAX = 512"

definition is_user :: "trap_frame \<Rightarrow> bool" where
  "is_user f \<longleftrightarrow> cs f AND 3 = 3"

definition ptr_safe :: "u32 \<Rightarrow> u32 \<Rightarrow> trap_frame \<Rightarrow> bool" where
  "ptr_safe p len f \<longleftrightarrow>
     p \<noteq> 0 \<and>
     (len = 0 \<or>
      (let en = p + len - 1
       in \<not> en < p \<and> (\<not> is_user f \<or> (is_user_vaddr p \<and> is_user_vaddr en))))"

definition ptr_range_safe :: "u32 \<Rightarrow> u32 \<Rightarrow> trap_frame \<Rightarrow> bool" where
  "ptr_range_safe p len f \<longleftrightarrow>
     len \<noteq> 0 \<and> \<not> p + len < p \<and>
     (\<not> is_user f \<or> (p < KERNEL_VIRTUAL_BASE \<and> p + len < KERNEL_VIRTUAL_BASE))"

definition frame :: "u32 \<Rightarrow> 'a trap_scheme \<Rightarrow> trap_frame" where
  "frame tf s = load_frame (kstacks s) tf"

definition upd_frame :: "u32 \<Rightarrow> (trap_frame \<Rightarrow> trap_frame) \<Rightarrow> 'a trap_scheme \<Rightarrow> 'a trap_scheme" where
  "upd_frame tf f s = s\<lparr>kstacks := store_frame (f (frame tf s)) tf (kstacks s)\<rparr>"


section \<open>write\<close>

definition COPYIN_BUF_SIZE :: u32 where "COPYIN_BUF_SIZE = 128"

text \<open>The chunk loop; the bytes written so far are \<open>off\<close>.\<close>

partial_function (option) write_chunks ::
  "'a sched_scheme drv_write \<Rightarrow> u32 \<Rightarrow> u32 \<Rightarrow> u32 \<Rightarrow> u32 \<Rightarrow> u32 \<Rightarrow> 'a sched_scheme \<Rightarrow>
   ((int \<times> errno) \<times> 'a sched_scheme) option" where
  "write_chunks drv kbuf str oof remaining off s =
     (if remaining = 0 then Some ((sint off, ESUCCESS), s)
      else let chunk = (if remaining < COPYIN_BUF_SIZE then remaining else COPYIN_BUF_SIZE)
           in Option.bind (copyin (str + off) kbuf chunk s) (\<lambda>(err, bytes).
                if err \<noteq> ESUCCESS then Some ((sint off, err), s)
                else Option.bind (open_file_write drv oof (Some bytes) chunk (of_offset (open_files s oof)) s)
                  (\<lambda>((res, err), s).
                    let got = (if res > 0 then res else 0)
                    in if err \<noteq> ESUCCESS then Some ((sint off + got, err), s)
                       else if res \<noteq> sint chunk
                       then Some ((sint off + got, ESUCCESS),
                              upd_open_file oof (\<lambda>f. f\<lparr>of_offset := of_offset f + of_int got\<rparr>) s)
                       else write_chunks drv kbuf str oof (remaining - chunk) (off + chunk)
                              (upd_open_file oof (\<lambda>f. f\<lparr>of_offset := of_offset f + ucast chunk\<rparr>) s))))"

definition write_copyin ::
  "'a sched_scheme drv_write \<Rightarrow> u32 \<Rightarrow> u32 \<Rightarrow> u32 \<Rightarrow> u32 \<Rightarrow> 'a sched_scheme \<Rightarrow>
   ((int \<times> errno) \<times> 'a sched_scheme) option" where
  "write_copyin drv kbuf str len oof s = write_chunks drv kbuf str oof len 0 s"

definition sys_write ::
  "'a sched_scheme drv_write \<Rightarrow> u32 \<Rightarrow> u32 \<Rightarrow> 'a sched_scheme \<Rightarrow> (int \<times> 'a sched_scheme) option" where
  "sys_write drv kbuf tf s =
     (let f = frame tf s; str = esi f; len = edx f; fd = sint (ebx f)
      in if str = 0 then Some (- EFAULT, s)
         else if len = 0 then Some (ESUCCESS, s)
         else if \<not> ptr_range_safe str len f then Some (- EFAULT, s)
         else let proc = sched_current_process s
              in if proc = 0 then Some (- EFAULT, s)
                 else do {
                   out \<leftarrow> sched_get_proc_local_fd proc fd s;
                   if out = 0 then Some (- EBADF, s)
                   else do {
                     ((written, err), s) \<leftarrow> write_copyin drv kbuf str len out s;
                     Some (if written > 0 then written else if err \<noteq> ESUCCESS then - err else 0, s) } })"


section \<open>exit, yield, fork, waitpid\<close>

definition sys_exit :: "u32 \<Rightarrow> 'a sched_scheme \<Rightarrow> 'a sched_scheme option" where
  "sys_exit tf s = thread_kill_current (ebx (frame tf s)) s"

definition sys_yield :: "u32 \<Rightarrow> 'a sched_scheme \<Rightarrow> int \<times> 'a sched_scheme" where
  "sys_yield tf s = (ESUCCESS, sched_thread_yield s)"

definition sys_fork :: "u32 \<Rightarrow> 'a sched_scheme \<Rightarrow> (int \<times> 'a sched_scheme) option" where
  "sys_fork tf s =
     (let par = sched_current_process s
      in if par = 0 then Some (- ESRCH, s)
         else do {
           (child, s) \<leftarrow> proc_alloc par (p_context (processes s par)) (Some (comm (processes s par))) s;
           if child = 0 then Some (- EAGAIN, s)
           else do {
             (ok, s) \<leftarrow> sched_clone_fork par child tf s;
             if \<not> ok then do { s \<leftarrow> proc_free child s; Some (- EAGAIN, s) }
             else Some (sint (pid (processes s child)), s) } })"

definition le_bytes :: "u32 \<Rightarrow> u8 list" where
  "le_bytes w = [ucast w, ucast (drop_bit 8 w), ucast (drop_bit 16 w), ucast (drop_bit 24 w)]"

text \<open>\<open>kstatus\<close> is the address of the variable \<^verbatim>\<open>status\<close>.\<close>

definition sys_waitpid :: "u32 \<Rightarrow> u32 \<Rightarrow> 'a sched_scheme \<Rightarrow> (int option \<times> 'a sched_scheme) option" where
  "sys_waitpid kstatus tf s =
     (let f = frame tf s; filter_pid = sint (ebx f); user_status = ecx f
      in if edx f \<noteq> 0 then Some (Some (- EINVAL), s)
         else if user_status \<noteq> 0 \<and> \<not> ptr_safe user_status 4 f then Some (Some (- EFAULT), s)
         else let par = sched_current_process s
              in if par = 0 then Some (Some (- ESRCH), s)
                 else do {
                   (r, s) \<leftarrow> proc_waitpid par filter_pid s;
                   case r of
                     Wait_Blocks \<Rightarrow> Some (None, s)
                   | Wait_Returns ret status \<Rightarrow>
                       if ret < 0 then Some (Some ret, s)
                       else if user_status \<noteq> 0 then do {
                         (err, s) \<leftarrow> copyout kstatus (le_bytes (case status of Some c \<Rightarrow> c | None \<Rightarrow> 0)) user_status 4 s;
                         Some (Some (if err \<noteq> ESUCCESS then - err else ret), s) }
                       else Some (Some ret, s) })"


section \<open>execve\<close>

definition EXEC_PATH_MAX :: u32 where "EXEC_PATH_MAX = 64"
definition EXEC_ALLOWED_PATH :: string where "EXEC_ALLOWED_PATH = ''/bin/syscalltest''"
definition EXEC_CODE_VA :: u32 where "EXEC_CODE_VA = 0x40000000"
definition EXEC_STACK_VA :: u32 where "EXEC_STACK_VA = 0x40001000"
definition EXEC_PAGE_SIZE :: u32 where "EXEC_PAGE_SIZE = 0x1000"

text \<open>
  The comparison ends at the first difference or at the terminator; the fuel of a path that has a
  terminator is its length.
\<close>

primrec match_from :: "nat \<Rightarrow> nat \<Rightarrow> char list \<Rightarrow> string \<Rightarrow> bool" where
  "match_from 0 i path allowed = False"
| "match_from (Suc n) i path allowed =
     (if cchar path i \<noteq> cchar allowed i then False
      else if cchar path i = CHR 0x00 then True
      else match_from n (Suc i) path allowed)"

definition path_matches_allowed :: "char list \<Rightarrow> bool" where
  "path_matches_allowed path = match_from (Suc (length path)) 0 path EXEC_ALLOWED_PATH"

primrec copyin_path_from ::
  "nat \<Rightarrow> u32 \<Rightarrow> u32 \<Rightarrow> u32 \<Rightarrow> char list \<Rightarrow> 'a paging_scheme \<Rightarrow> (errno \<times> char list) option" where
  "copyin_path_from 0 i kch user_path out s = Some (ENAMETOOLONG, out[length out - 1 := CHR 0x00])"
| "copyin_path_from (Suc n) i kch user_path out s = do {
     (err, bytes) \<leftarrow> copyin (user_path + i) kch 1 s;
     if err \<noteq> ESUCCESS then Some (err, out)
     else let ch = char_of (unat (hd bytes)); out = out[unat i := ch]
          in if ch = CHR 0x00 then Some (ESUCCESS, out) else copyin_path_from n (i + 1) kch user_path out s }"

text \<open>\<open>kch\<close> and \<open>kout\<close> are the addresses of the local character and of the kernel's buffer.\<close>

definition copyin_path_bounded ::
  "u32 \<Rightarrow> u32 \<Rightarrow> u32 \<Rightarrow> char list \<Rightarrow> 'a paging_scheme \<Rightarrow> (errno \<times> char list) option" where
  "copyin_path_bounded kch user_path kout out s =
     (if user_path = 0 \<or> kout = 0 \<or> length out < 2 then Some (EFAULT, out)
      else copyin_path_from (length out) 0 kch user_path out s)"

text \<open>The new frame of the thread: the entry point, the user selectors, all other registers zero.\<close>

definition exec_frame :: "trap_frame \<Rightarrow> trap_frame" where
  "exec_frame f = f\<lparr>cs := GDT_SEL_UCODE OR 3, ds := GDT_SEL_UDATA OR 3, es := GDT_SEL_UDATA OR 3,
     fs := GDT_SEL_UDATA OR 3, gs := GDT_SEL_UDATA OR 3, eip := EXEC_CODE_VA,
     eax := 0, ebx := 0, ecx := 0, edx := 0, esi := 0, edi := 0, ebp := 0\<rparr>"

text \<open>
  Building the address space; the image is the flat binary linked into the kernel. The result is an error,
  with everything undone, or the new address space.
\<close>

definition exec_build :: "u8 list \<Rightarrow> 'a vm_scheme \<Rightarrow> ((int + u32) \<times> 'a vm_scheme) option" where
  "exec_build img s = do {
     (new_mm, s) \<leftarrow> mm_create s;
     if new_mm = 0 then Some (Inl (- ENOMEM), s)
     else do {
       (rc, s) \<leftarrow> mm_map_region new_mm EXEC_CODE_VA EXEC_PAGE_SIZE VMA_TEXT
                   (VMA_PROT_READ OR VMA_PROT_WRITE OR VMA_PROT_EXEC) (Some img) (of_nat (length img)) s;
       if rc \<noteq> 0 then do { s \<leftarrow> mm_destroy new_mm s; Some (Inl (- ENOMEM), s) }
       else do {
         (rc, s) \<leftarrow> mm_map_region new_mm EXEC_STACK_VA EXEC_PAGE_SIZE VMA_STACK
                     (VMA_PROT_READ OR VMA_PROT_WRITE) None 0 s;
         if rc \<noteq> 0 then do { s \<leftarrow> mm_destroy new_mm s; Some (Inl (- ENOMEM), s) }
         else Some (Inr new_mm, s) } } }"

definition sys_execve ::
  "u8 list \<Rightarrow> u32 \<Rightarrow> u32 \<Rightarrow> u32 \<Rightarrow> 'a sched_scheme \<Rightarrow> (int \<times> 'a sched_scheme) option" where
  "sys_execve img kch kpath tf s =
     (if tf = 0 then Some (- EINVAL, s)
      else let f = frame tf s
           in if \<not> is_user f then Some (- EPERM, s)
              else if ecx f \<noteq> 0 \<or> edx f \<noteq> 0 then Some (- EINVAL, s)
              else if \<not> ptr_safe (ebx f) 1 f then Some (- EFAULT, s)
              else do {
                (cpy, path) \<leftarrow> copyin_path_bounded kch (ebx f) kpath (replicate (unat EXEC_PATH_MAX) CHR 0x00) s;
                if cpy \<noteq> ESUCCESS then Some (- cpy, s)
                else if \<not> path_matches_allowed path then Some (- ENOENT, s)
                else if length img = 0 then Some (- ENOEXEC, s)
                else if length img > unat EXEC_PAGE_SIZE then Some (- E2BIG, s)
                else do {
                  (r, s) \<leftarrow> exec_build img s;
                  case r of
                    Inl e \<Rightarrow> Some (e, s)
                  | Inr new_mm \<Rightarrow> do {
                      let proc = sched_current_process s;
                      if proc = 0 then None
                      else do {
                        let old_mm = addr_space (processes s proc);
                        if \<not> tf_has_user_tail f then Some (- EINVAL, s)
                        else do {
                          let s = upd_process proc (\<lambda>p. p\<lparr>addr_space := new_mm\<rparr>) s;
                          let s = mm_switch new_mm s;
                          s \<leftarrow> mm_destroy old_mm s;
                          let s = s\<lparr>kstacks := (kstacks s)(tf_user_esp_slot tf := EXEC_STACK_VA + EXEC_PAGE_SIZE - 16)\<rparr>;
                          let s = s\<lparr>kstacks := (kstacks s)(tf_user_ss_slot tf := GDT_SEL_UDATA OR 3)\<rparr>;
                          Some (0, upd_frame tf exec_frame s) } } } } })"


section \<open>Dispatch\<close>

datatype syscall = Sys_exit | Sys_fork | Sys_write | Sys_waitpid | Sys_execve | Sys_yield

record syscalls = sched +
  syscall_table :: "syscall option list" \<comment> \<open>\<^verbatim>\<open>SYSCALL_MAX\<close> entries\<close>

definition syscall_init :: "'a syscalls_scheme \<Rightarrow> 'a syscalls_scheme" where
  "syscall_init s =
     (let s = isr_register 0x80 Syscall_handler s
      in s\<lparr>syscall_table := (syscall_table s)[1 := Some Sys_exit, 2 := Some Sys_fork, 4 := Some Sys_write,
             7 := Some Sys_waitpid, 11 := Some Sys_execve, 158 := Some Sys_yield]\<rparr>)"

text \<open>What the functions need beside the state: the image, the drivers, the addresses of local buffers.\<close>

record 's syscall_env =
  env_image :: "u8 list"
  env_write :: "'s drv_write"
  env_buf :: u32
  env_ch :: u32

fun call_syscall ::
  "'a sched_scheme syscall_env \<Rightarrow> syscall \<Rightarrow> u32 \<Rightarrow> 'a sched_scheme \<Rightarrow> (int option \<times> 'a sched_scheme) option" where
  "call_syscall env Sys_exit tf s = do { s \<leftarrow> sys_exit tf s; Some (None, s) }"
| "call_syscall env Sys_fork tf s = do { (r, s) \<leftarrow> sys_fork tf s; Some (Some r, s) }"
| "call_syscall env Sys_write tf s = do { (r, s) \<leftarrow> sys_write (env_write env) (env_buf env) tf s; Some (Some r, s) }"
| "call_syscall env Sys_waitpid tf s = sys_waitpid (env_buf env) tf s"
| "call_syscall env Sys_execve tf s =
     do { (r, s) \<leftarrow> sys_execve (env_image env) (env_ch env) (env_buf env) tf s; Some (Some r, s) }"
| "call_syscall env Sys_yield tf s = (let (r, s) = sys_yield tf s in Some (Some r, s))"

definition syscall_handler ::
  "'a syscalls_ext sched_scheme syscall_env \<Rightarrow> u32 \<Rightarrow> 'a syscalls_scheme \<Rightarrow> 'a syscalls_scheme option" where
  "syscall_handler env tf s =
     (let nr = eax (frame tf s)
      in if nr \<ge> SYSCALL_MAX \<or> syscall_table s ! unat nr = None
         then Some (upd_frame tf (\<lambda>f. f\<lparr>eax := of_int (- ENOSYS)\<rparr>) s)
         else do {
           (r, s) \<leftarrow> call_syscall env (the (syscall_table s ! unat nr)) tf s;
           Some (case r of None \<Rightarrow> s | Some v \<Rightarrow> upd_frame tf (\<lambda>f. f\<lparr>eax := of_int v\<rparr>) s) })"

end
