(* ===== verification/Interrupts.thy ===== *)
theory Interrupts
  imports Syscall
begin

text \<open>
  Interrupts: the interrupt controller and the timer (\<^verbatim>\<open>pic.c\<close>, \<^verbatim>\<open>pit.c\<close>, \<^verbatim>\<open>kb.c\<close>), the exception handlers
  (\<^verbatim>\<open>exception.c\<close>), dispatch (\<^verbatim>\<open>isr.c\<close>) and the return path of the common entry
  (\<^verbatim>\<open>prekinit_idt.asm\<close>), where the scheduler runs. The ports are what the devices present for reading and a
  log of what was written.
\<close>

section \<open>Ports\<close>

record kernel = syscalls +
  port_in :: "u16 \<Rightarrow> u8"
  port_log :: "(u16 \<times> u8) list"

definition outb :: "u16 \<Rightarrow> u8 \<Rightarrow> 'a kernel_scheme \<Rightarrow> 'a kernel_scheme" where
  "outb port v s = s\<lparr>port_log := port_log s @ [(port, v)]\<rparr>"

definition inb :: "u16 \<Rightarrow> 'a kernel_scheme \<Rightarrow> u8" where
  "inb port s = port_in s port"

definition io_wait :: "'a kernel_scheme \<Rightarrow> 'a kernel_scheme" where
  "io_wait s = outb 0x80 0 s"


section \<open>The interrupt controller\<close>

definition PIC1_OFFSET :: u8 where "PIC1_OFFSET = 0x20"
definition PIC2_OFFSET :: u8 where "PIC2_OFFSET = 0x28"
definition PIC1_CMD :: u16 where "PIC1_CMD = 0x20"
definition PIC1_DATA :: u16 where "PIC1_DATA = 0x21"
definition PIC2_CMD :: u16 where "PIC2_CMD = 0xA0"
definition PIC2_DATA :: u16 where "PIC2_DATA = 0xA1"
definition PIC_EOI :: u8 where "PIC_EOI = 0x20"
definition ICW1_ICW4 :: u8 where "ICW1_ICW4 = 0x01"
definition ICW1_INIT :: u8 where "ICW1_INIT = 0x10"
definition ICW4_8086 :: u8 where "ICW4_8086 = 0x01"

definition irq2port :: "u8 \<Rightarrow> u16 \<times> u8" where
  "irq2port irq = (if irq < 8 then (PIC1_DATA, irq) else (PIC2_DATA, irq - 8))"

definition pic_mask_irq :: "u8 \<Rightarrow> 'a kernel_scheme \<Rightarrow> 'a kernel_scheme" where
  "pic_mask_irq irq s =
     (if irq \<ge> 16 then s
      else let (port, b) = irq2port irq in outb port (inb port s OR push_bit (unat b) 1) s)"

definition pic_unmask_irq :: "u8 \<Rightarrow> 'a kernel_scheme \<Rightarrow> 'a kernel_scheme" where
  "pic_unmask_irq irq s =
     (if irq \<ge> 16 then s
      else let (port, b) = irq2port irq in outb port (inb port s AND NOT (push_bit (unat b) 1)) s)"

definition pic_remap :: "'a kernel_scheme \<Rightarrow> 'a kernel_scheme" where
  "pic_remap s =
     (let mask1 = inb PIC1_DATA s;
          mask2 = inb PIC2_DATA s;
          s = io_wait (outb PIC1_CMD (ICW1_INIT OR ICW1_ICW4) s);
          s = io_wait (outb PIC2_CMD (ICW1_INIT OR ICW1_ICW4) s);
          s = io_wait (outb PIC1_DATA PIC1_OFFSET s);
          s = io_wait (outb PIC2_DATA PIC2_OFFSET s);
          s = io_wait (outb PIC1_DATA (push_bit 2 1) s);
          s = io_wait (outb PIC2_DATA 2 s);
          s = io_wait (outb PIC1_DATA ICW4_8086 s);
          s = io_wait (outb PIC2_DATA ICW4_8086 s);
          s = outb PIC1_DATA mask1 s
      in outb PIC2_DATA mask2 s)"

definition pic_send_eoi :: "u8 \<Rightarrow> 'a kernel_scheme \<Rightarrow> 'a kernel_scheme" where
  "pic_send_eoi irq s =
     (let s = (if irq \<ge> 8 then outb PIC2_CMD PIC_EOI s else s) in outb PIC1_CMD PIC_EOI s)"


section \<open>Timer and keyboard\<close>

definition PIT_FREQ :: u32 where "PIT_FREQ = 1193182"
definition PIT_CHANNEL0 :: u16 where "PIT_CHANNEL0 = 0x40"
definition PIT_CMD :: u16 where "PIT_CMD = 0x43"
definition PIT_DESIRED_TICK_HZ :: u32 where "PIT_DESIRED_TICK_HZ = 1000"

definition increment_ticks :: "'a kernel_scheme \<Rightarrow> 'a kernel_scheme option" where
  "increment_ticks s = do {
     s \<leftarrow> sched_on_tick (s\<lparr>ticks := ticks s + 1\<rparr>);
     Some (pic_send_eoi 0 s) }"

definition pit_init :: "'a kernel_scheme \<Rightarrow> 'a kernel_scheme" where
  "pit_init s =
     (let divisor = ucast (PIT_FREQ div PIT_DESIRED_TICK_HZ) :: u16;
          s = outb PIT_CMD 0x34 s;
          s = outb PIT_CHANNEL0 (ucast (divisor AND 0xFF)) s;
          s = outb PIT_CHANNEL0 (ucast (drop_bit 8 divisor AND 0xFF)) s;
          s = isr_register 32 Increment_ticks s
      in pic_unmask_irq 0 s)"

text \<open>A key press echoes a \<^verbatim>\<open>K\<close>; higher codes are releases.\<close>

definition kb_handler :: "'a kernel_scheme \<Rightarrow> 'a kernel_scheme" where
  "kb_handler s =
     (if inb 0x60 s > 80 then pic_send_eoi 1 s
      else pic_send_eoi 1 (s\<lparr>console_out := console_out s @ [0x4B]\<rparr>))"

definition kb_init :: "'a kernel_scheme \<Rightarrow> 'a kernel_scheme" where
  "kb_init s = pic_unmask_irq 1 (isr_register (PIC1_OFFSET + 1) Kb_handler s)"


section \<open>Exceptions\<close>

definition exception_init :: "'a trap_scheme \<Rightarrow> 'a trap_scheme" where
  "exception_init s =
     (let s = isr_register 0x06 Exception_ud s;
          s = isr_register 0x0B Exception_np s;
          s = isr_register 0x0C Exception_ss s;
          s = isr_register 0x0D Exception_gpf s
      in isr_register 0x0E Exception_pf s)"

definition GET_USERMODE :: "u32 \<Rightarrow> bool" where
  "GET_USERMODE n \<longleftrightarrow> n AND 3 = 3"

definition exception_gpf :: "u32 \<Rightarrow> 'a sched_scheme \<Rightarrow> 'a sched_scheme option" where
  "exception_gpf tf s =
     (if GET_USERMODE (cs (frame tf s)) then thread_kill_current (error (frame tf s)) s else None)"

definition exception_pf :: "u32 \<Rightarrow> 'a sched_scheme \<Rightarrow> 'a sched_scheme option" where
  "exception_pf tf s =
     (let err = error (frame tf s); user = drop_bit 2 err AND 1
      in if user \<noteq> 0 then thread_kill_current err s else None)"

definition exception_ud :: "u32 \<Rightarrow> 'a sched_scheme \<Rightarrow> 'a sched_scheme option" where
  "exception_ud tf s =
     (if GET_USERMODE (cs (frame tf s)) then thread_kill_current (error (frame tf s)) s else None)"

definition exception_ss :: "u32 \<Rightarrow> 'a sched_scheme \<Rightarrow> 'a sched_scheme option" where
  "exception_ss tf s =
     (if GET_USERMODE (cs (frame tf s)) then thread_kill_current (error (frame tf s)) s else None)"

definition exception_np :: "u32 \<Rightarrow> 'a sched_scheme \<Rightarrow> 'a sched_scheme option" where
  "exception_np tf s =
     (if GET_USERMODE (cs (frame tf s)) then thread_kill_current (error (frame tf s)) s else None)"


section \<open>Dispatch and return\<close>

type_synonym 'a kernel_env = "'a kernel_ext syscalls_ext sched_scheme syscall_env"

fun call_handler :: "'a kernel_env \<Rightarrow> isr_handler \<Rightarrow> u32 \<Rightarrow> 'a kernel_scheme \<Rightarrow> 'a kernel_scheme option" where
  "call_handler env Exception_ud tf s = exception_ud tf s"
| "call_handler env Exception_np tf s = exception_np tf s"
| "call_handler env Exception_ss tf s = exception_ss tf s"
| "call_handler env Exception_gpf tf s = exception_gpf tf s"
| "call_handler env Exception_pf tf s = exception_pf tf s"
| "call_handler env Increment_ticks tf s = increment_ticks s"
| "call_handler env Kb_handler tf s = Some (kb_handler s)"
| "call_handler env Sched_on_int81h tf s = Some s"
| "call_handler env Syscall_handler tf s = syscall_handler env tf s"

text \<open>An interrupt without a handler halts the machine.\<close>

definition isr_dispatch :: "'a kernel_env \<Rightarrow> u32 \<Rightarrow> 'a kernel_scheme \<Rightarrow> 'a kernel_scheme option" where
  "isr_dispatch env tf s =
     (let v = vector (frame tf s)
      in if v \<ge> 256 then None
         else (case g_isr_handlers s ! unat v of
                 None \<Rightarrow> None
               | Some f \<Rightarrow> call_handler env f tf s))"

text \<open>
  The part of \<^verbatim>\<open>isr_common_entry\<close> after the frame is on the stack: dispatch, and on the timer interrupt and
  the yield interrupt a switch if one is pending. The result is the stack pointer the context is restored
  from.
\<close>

definition isr_common_entry :: "'a kernel_env \<Rightarrow> u32 \<Rightarrow> 'a kernel_scheme \<Rightarrow> (u32 \<times> 'a kernel_scheme) option" where
  "isr_common_entry env sp s = do {
     s \<leftarrow> isr_dispatch env sp s;
     if sched_pending s \<and> (vector (frame sp s) = 0x20 \<or> vector (frame sp s) = 0x81)
     then sched_do_switch sp s
     else Some (sp, s) }"

end
