(* ===== verification/Boot.thy ===== *)
theory Boot
  imports Bootinfo Kremap Interrupts
begin

text \<open>
  Start-up: \<^verbatim>\<open>mem_init\<close> of \<^verbatim>\<open>kmem.c\<close>, which reserves what must not be allocated and sets up the physical
  memory manager and paging, and the sequence of \<^verbatim>\<open>ktrampoline\<close> and \<^verbatim>\<open>kmain\<close> (\<^verbatim>\<open>kmain.c\<close>).
\<close>

section \<open>Reserving memory\<close>

definition STAGE2_RESERVED_SECTORS :: u32 where "STAGE2_RESERVED_SECTORS = 6"

text \<open>\<^verbatim>\<open>RESERVE_REGION\<close>\<close>

definition reserve_region :: "u32 \<Rightarrow> u32 \<Rightarrow> 'a pmm_scheme \<Rightarrow> 'a pmm_scheme option" where
  "reserve_region base len s = do {
     (r, s) \<leftarrow> pmm_reserve_range base len False s;
     if r \<noteq> PMM_RESERVE_SUCCESS \<and> r \<noteq> PMM_UPDATED_EXISTING_REGION then None else Some s }"

text \<open>The 32-bit range of an unusable descriptor, or \<open>None\<close> where the loop passes it over.\<close>

definition e820_range :: "e820_desc \<Rightarrow> (u32 \<times> u32) option" where
  "e820_range d =
     (if d_type d = 1 then None
      else if d_length d = 0 then None
      else if d_base d \<ge> 0x100000000 then None
      else let end64 = d_base d + d_length d;
               end64 = (if end64 < d_base d \<or> end64 > 0x100000000 then 0x100000000 else end64);
               base32 = ucast (d_base d) :: u32;
               len32 = ucast (end64 - d_base d) :: u32
           in if len32 = 0 then None else Some (base32, len32))"

primrec reserve_e820 :: "e820_desc list \<Rightarrow> 'a pmm_scheme \<Rightarrow> 'a pmm_scheme option" where
  "reserve_e820 [] s = Some s"
| "reserve_e820 (d # rest) s =
     (case e820_range d of
        None \<Rightarrow> reserve_e820 rest s
      | Some (base, len) \<Rightarrow>
          if length (mem_regions s) \<ge> MEM_REGIONS_MAX then None
          else do { s \<leftarrow> reserve_region base len s; reserve_e820 rest s })"

definition mem_init :: "'a paging_scheme \<Rightarrow> 'a paging_scheme option" where
  "mem_init s =
     (if \<not> g_bootinfo_validated s then None
      else do {
        s \<leftarrow> reserve_region 0 0x100000 s;
        let s = s\<lparr>frame_hint := drop_bit 12 0x100000\<rparr>;
        s \<leftarrow> reserve_region 0x10000 (STAGE2_RESERVED_SECTORS * 512) s;
        s \<leftarrow> reserve_region 0xA0000 0x20000 s;
        s \<leftarrow> reserve_region 0xC0000 0x40000 s;
        s \<leftarrow> reserve_region BOOTINFO_LINEAR_ADDR (ucast BOOTINFO_SIZE_EXPECTED) s;
        s \<leftarrow> reserve_region (g_kernel_phys_address s) (kernel_end s - g_kernel_phys_address s) s;
        s \<leftarrow> (if g_memory_method s = USE_E820 then reserve_e820 (g_e820_descs s) s else Some s);
        s \<leftarrow> pmm_init (mem_regions s) s;
        ((_, r), s) \<leftarrow> paging_init_identity_window 0 s;
        if r \<noteq> PAGING_OK then None else Some s })"


section \<open>Start-up\<close>

definition ktrampoline :: "bootinfo \<Rightarrow> u32 \<Rightarrow> u32 \<Rightarrow> u32 \<Rightarrow> 'a paging_scheme \<Rightarrow> 'a paging_scheme option" where
  "ktrampoline bi gdtAddr idtAddr isrAddr s = do {
     s \<leftarrow> bootinfo_init bi s;
     s \<leftarrow> mem_init s;
     kernel_highhalf_remap gdtAddr idtAddr isrAddr s }"

text \<open>\<open>user_entry\<close> is the address of \<^verbatim>\<open>syscall_test\<close>, the first thread of the first user process.\<close>

definition kmain :: "u32 \<Rightarrow> 'a kernel_scheme \<Rightarrow> 'a kernel_scheme option" where
  "kmain user_entry s = do {
     let s = exception_init s;
     let s = pic_remap s;
     let s = pit_init s;
     let s = kb_init s;
     s \<leftarrow> unix_io_init s;
     s \<leftarrow> sched_init s;
     let s = syscall_init s;
     (p, s) \<leftarrow> proc_alloc 0 CTX_USER (Some ''testproc'') s;
     (_, s) \<leftarrow> sched_add_thread user_entry p s;
     Some s }"

text \<open>
  \<^verbatim>\<open>syscall_test\<close>: the thread maps its program and a stack and enters user mode; the result is whether
  it does. The program is the binary linked into the kernel.
\<close>

definition syscall_test :: "u8 list \<Rightarrow> 'a sched_scheme \<Rightarrow> (bool \<times> 'a sched_scheme) option" where
  "syscall_test img s =
     (let proc = sched_current_process s
      in if proc = 0 \<or> addr_space (processes s proc) = 0 then Some (False, s)
         else do {
           let mm = addr_space (processes s proc);
           (res, s) \<leftarrow> mm_map_region mm 0x40000000 0x1000 VMA_TEXT
                        (VMA_PROT_READ OR VMA_PROT_WRITE OR VMA_PROT_EXEC) (Some img) (of_nat (length img)) s;
           if res \<noteq> 0 then Some (False, s)
           else do {
             (res, s) \<leftarrow> mm_map_region mm 0x40001000 0x1000 VMA_STACK (VMA_PROT_READ OR VMA_PROT_WRITE) None 0 s;
             if res \<noteq> 0 then Some (False, s)
             else Some (True, mm_switch mm s) } })"

end
