(* ===== verification/Sched_Queues.thy ===== *)
theory Sched_Queues
  imports Sched
begin

text \<open>
  The queues of the scheduler as lists: the run queue is a ring, the sleep queue a sorted list and the waiters of
  a process a list. The lemmas say what each operation of \<open>Sched\<close> does to these lists; the changes of pointers come
  from the interpretations of the \<open>link_field\<close> interface on the link fields of a thread.
\<close>

section \<open>Fields after an update\<close>

lemma threads_upd: "threads (upd_thread p f s) q = (if q = p then f (threads s p) else threads s q)"
  by (simp add: upd_thread_def)

lemma processes_upd: "processes (upd_process p f s) q = (if q = p then f (processes s p) else processes s q)"
  by (simp add: upd_process_def)

lemma upd_thread_fields [simp]:
  "thread_head (upd_thread p f s) = thread_head s"
  "thread_current (upd_thread p f s) = thread_current s"
  "thread_sleep_head (upd_thread p f s) = thread_sleep_head s"
  "processes (upd_thread p f s) = processes s"
  "ticks (upd_thread p f s) = ticks s"
  "sched_pending (upd_thread p f s) = sched_pending s"
  "rr_ticks_left (upd_thread p f s) = rr_ticks_left s"
  "kstacks (upd_thread p f s) = kstacks s"
  "mms (upd_thread p f s) = mms s"
  "cr3 (upd_thread p f s) = cr3 s"
  "thread_pool (upd_thread p f s) = thread_pool s"
  "thread_pool_count (upd_thread p f s) = thread_pool_count s"
  "next_tid (upd_thread p f s) = next_tid s"
  "thread_bootstrap (upd_thread p f s) = thread_bootstrap s"
  "threads (upd_thread p f s) p = f (threads s p)"
  "q \<noteq> p \<Longrightarrow> threads (upd_thread p f s) q = threads s q"
  by (simp_all add: upd_thread_def)

lemma upd_process_fields [simp]:
  "thread_head (upd_process p g s) = thread_head s"
  "thread_current (upd_process p g s) = thread_current s"
  "thread_sleep_head (upd_process p g s) = thread_sleep_head s"
  "threads (upd_process p g s) = threads s"
  "ticks (upd_process p g s) = ticks s"
  "kstacks (upd_process p g s) = kstacks s"
  "thread_bootstrap (upd_process p g s) = thread_bootstrap s"
  "processes (upd_process p g s) p = g (processes s p)"
  "q \<noteq> p \<Longrightarrow> processes (upd_process p g s) q = processes s q"
  by (simp_all add: upd_process_def)

text \<open>A field that the update does not assign.\<close>

lemma upd_thread_keeps [simp]:
  "(\<And>r. rq_next (f r) = rq_next r) \<Longrightarrow> rq_next (threads (upd_thread p f s) q) = rq_next (threads s q)"
  "(\<And>r. sleep_next (f r) = sleep_next r) \<Longrightarrow> sleep_next (threads (upd_thread p f s) q) = sleep_next (threads s q)"
  "(\<And>r. wait_next (f r) = wait_next r) \<Longrightarrow> wait_next (threads (upd_thread p f s) q) = wait_next (threads s q)"
  "(\<And>r. threadlist_next (f r) = threadlist_next r) \<Longrightarrow> threadlist_next (threads (upd_thread p f s) q) = threadlist_next (threads s q)"
  "(\<And>r. t_state (f r) = t_state r) \<Longrightarrow> t_state (threads (upd_thread p f s) q) = t_state (threads s q)"
  "(\<And>r. t_proc (f r) = t_proc r) \<Longrightarrow> t_proc (threads (upd_thread p f s) q) = t_proc (threads s q)"
  "(\<And>r. t_slot_inuse (f r) = t_slot_inuse r) \<Longrightarrow> t_slot_inuse (threads (upd_thread p f s) q) = t_slot_inuse (threads s q)"
  "(\<And>r. wake_tick (f r) = wake_tick r) \<Longrightarrow> wake_tick (threads (upd_thread p f s) q) = wake_tick (threads s q)"
  "(\<And>r. wait_owner (f r) = wait_owner r) \<Longrightarrow> wait_owner (threads (upd_thread p f s) q) = wait_owner (threads s q)"
  "(\<And>r. saved_esp (f r) = saved_esp r) \<Longrightarrow> saved_esp (threads (upd_thread p f s) q) = saved_esp (threads s q)"
  "(\<And>r. kstack_top (f r) = kstack_top r) \<Longrightarrow> kstack_top (threads (upd_thread p f s) q) = kstack_top (threads s q)"
  by (simp_all add: threads_upd)

lemma upd_process_keeps [simp]:
  "(\<And>r. waiters (f r) = waiters r) \<Longrightarrow> waiters (processes (upd_process p f s) q) = waiters (processes s q)"
  "(\<And>r. addr_space (f r) = addr_space r) \<Longrightarrow> addr_space (processes (upd_process p f s) q) = addr_space (processes s q)"
  by (simp_all add: processes_upd)

text \<open>The link fields of the threads.\<close>

interpretation rq: link_field rq_nx "\<lambda>p q. upd_thread p (\<lambda>r. r\<lparr>rq_next := q\<rparr>)"
  by unfold_locales (auto simp: threads_upd)

interpretation sq: link_field sleep_nx "\<lambda>p q. upd_thread p (\<lambda>r. r\<lparr>sleep_next := q\<rparr>)"
  by unfold_locales (auto simp: threads_upd)

interpretation wq: link_field wait_nx "\<lambda>p q. upd_thread p (\<lambda>r. r\<lparr>wait_next := q\<rparr>)"
  by unfold_locales (auto simp: threads_upd)

interpretation tlq: link_field tl_nx "\<lambda>p q. upd_thread p (\<lambda>r. r\<lparr>threadlist_next := q\<rparr>)"
  by unfold_locales (auto simp: threads_upd)


section \<open>The queues as lists\<close>

text \<open>
  The run queue is a ring of threads that starts at \<^verbatim>\<open>thread_head\<close>; the sleep queue is a list, sorted by
  the tick at which a thread wakes; the waiters of a process are a list.
\<close>

definition runq :: "'a sched_scheme \<Rightarrow> u32 list \<Rightarrow> bool" where
  "runq s ts \<longleftrightarrow> 0 \<notin> set ts \<and>
     (if ts = [] then thread_head s = 0 else ring (rq_nx s) ts \<and> thread_head s = hd ts)"

definition sleepq :: "'a sched_scheme \<Rightarrow> u32 list \<Rightarrow> bool" where
  "sleepq s zs \<longleftrightarrow> 0 \<notin> set zs \<and> list_at (sleep_nx s) (ptr (thread_sleep_head s)) zs \<and>
     sorted (map (\<lambda>t. wake_tick (threads s t)) zs)"

definition waitq :: "'a sched_scheme \<Rightarrow> u32 \<Rightarrow> u32 list \<Rightarrow> bool" where
  "waitq s p ws \<longleftrightarrow> 0 \<notin> set ws \<and> list_at (wait_nx s) (ptr (waiters (processes s p))) ws"

text \<open>Inserting into the sleep queue keeps it sorted; threads with the same tick stay in order of arrival.\<close>

definition wake_insert :: "('a::linorder \<Rightarrow> 'b::linorder) \<Rightarrow> 'a \<Rightarrow> 'a list \<Rightarrow> 'a list" where
  "wake_insert w t zs = takeWhile (\<lambda>z. w z \<le> w t) zs @ t # dropWhile (\<lambda>z. w z \<le> w t) zs"

lemma wake_insert_split:
  obtains xs ys where "zs = xs @ ys" "wake_insert w t zs = xs @ t # ys" "\<forall>x \<in> set xs. w x \<le> w t"
    "ys = [] \<or> w t < w (hd ys)"
proof -
  have "dropWhile (\<lambda>z. w z \<le> w t) zs = [] \<or> \<not> w (hd (dropWhile (\<lambda>z. w z \<le> w t) zs)) \<le> w t"
    using hd_dropWhile [of "\<lambda>z. w z \<le> w t" zs] by blast
  then show ?thesis
    using that [of "takeWhile (\<lambda>z. w z \<le> w t) zs" "dropWhile (\<lambda>z. w z \<le> w t) zs"]
    by (auto simp: wake_insert_def not_le dest: set_takeWhileD)
qed

lemma sorted_wake_insert:
  assumes "sorted (map w zs)"
  shows "sorted (map w (wake_insert w t zs))"
proof -
  obtain xs ys where z: "zs = xs @ ys" "wake_insert w t zs = xs @ t # ys" "\<forall>x \<in> set xs. w x \<le> w t"
    and y: "ys = [] \<or> w t < w (hd ys)"
    by (rule wake_insert_split)
  have "w t \<le> w y" if "y \<in> set ys" for y
    using y that assms z(1) by (cases ys) (auto simp: sorted_append)
  then show ?thesis using assms z by (auto simp: sorted_append)
qed

lemma set_wake_insert [simp]: "set (wake_insert w t zs) = insert t (set zs)"
proof -
  obtain xs ys where "zs = xs @ ys" "wake_insert w t zs = xs @ t # ys" by (rule wake_insert_split)
  then show ?thesis by simp
qed

section \<open>Operations on the sleep queue\<close>

definition sleep_only :: "'a sched_scheme \<Rightarrow> 'a sched_scheme \<Rightarrow> bool" where
  "sleep_only s s' \<longleftrightarrow>
     (\<exists>n h. s' = s\<lparr>threads := (\<lambda>p. (threads s p)\<lparr>sleep_next := n p\<rparr>), thread_sleep_head := h\<rparr>)"

lemma sleep_onlyI:
  "s' = s\<lparr>threads := (\<lambda>p. (threads s p)\<lparr>sleep_next := n p\<rparr>), thread_sleep_head := h\<rparr> \<Longrightarrow> sleep_only s s'"
  unfolding sleep_only_def by blast

lemma sleep_only_refl [simp]: "sleep_only s s"
  by (rule sleep_onlyI [where n = "\<lambda>p. sleep_next (threads s p)" and h = "thread_sleep_head s"]) simp

lemma sleep_only_trans [trans]: "sleep_only s s' \<Longrightarrow> sleep_only s' s'' \<Longrightarrow> sleep_only s s''"
  unfolding sleep_only_def by force

lemma sleep_only_upd [simp]: "sleep_only s (upd_thread p (\<lambda>r. r\<lparr>sleep_next := q\<rparr>) s)"
proof (rule sleep_onlyI [where n = "\<lambda>x. if x = p then q else sleep_next (threads s x)" and h = "thread_sleep_head s"])
  have "(threads s)(p := threads s p\<lparr>sleep_next := q\<rparr>) =
    (\<lambda>x. threads s x\<lparr>sleep_next := if x = p then q else sleep_next (threads s x)\<rparr>)" by auto
  then show "upd_thread p (\<lambda>r. r\<lparr>sleep_next := q\<rparr>) s = s\<lparr>threads := (\<lambda>x. threads s x\<lparr>sleep_next :=
      if x = p then q else sleep_next (threads s x)\<rparr>), thread_sleep_head := thread_sleep_head s\<rparr>"
    by (simp add: upd_thread_def)
qed

lemma sleep_only_head [simp]: "sleep_only s (s\<lparr>thread_sleep_head := h\<rparr>)"
  by (rule sleep_onlyI [where n = "\<lambda>p. sleep_next (threads s p)" and h = h]) simp

lemma sleep_onlyD:
  assumes "sleep_only s s'"
  shows "thread_head s' = thread_head s" "thread_current s' = thread_current s" "processes s' = processes s"
    "ticks s' = ticks s" "rr_ticks_left s' = rr_ticks_left s" "sched_pending s' = sched_pending s"
    "rq_next (threads s' t) = rq_next (threads s t)" "t_state (threads s' t) = t_state (threads s t)"
    "wake_tick (threads s' t) = wake_tick (threads s t)" "wait_next (threads s' t) = wait_next (threads s t)"
    "wait_owner (threads s' t) = wait_owner (threads s t)" "t_proc (threads s' t) = t_proc (threads s t)"
    "t_slot_inuse (threads s' t) = t_slot_inuse (threads s t)"
  using assms by (auto simp: sleep_only_def)

lemma sleepq_insert_spec:
  assumes q: "sleepq s zs" and t: "t \<notin> set zs" "t \<noteq> 0"
  shows "\<exists>s'. sleepq_insert t s = Some s' \<and> sleep_only s s' \<and>
           sleepq s' (wake_insert (\<lambda>p. wake_tick (threads s p)) t zs)"
proof -
  let ?w = "\<lambda>p. wake_tick (threads s p)"
  define s1 where "s1 = upd_thread t (\<lambda>r. r\<lparr>sleep_next := 0\<rparr>) s"
  have so1: "sleep_only s s1" by (simp add: s1_def)
  have w1: "wake_tick (threads s1 p) = ?w p" for p by (rule sleep_onlyD [OF so1])
  have h1: "thread_sleep_head s1 = thread_sleep_head s" by (simp add: s1_def)
  have l1: "list_at (sleep_nx s1) (ptr (thread_sleep_head s1)) zs"
    using q t(1) sq.list_at_reset [of t zs 0 s] by (simp add: s1_def sleepq_def)
  have nz: "0 \<notin> set zs" and srt: "sorted (map ?w zs)" using q by (simp_all add: sleepq_def)
  obtain xs ys where z: "zs = xs @ ys" "wake_insert ?w t zs = xs @ t # ys" "\<forall>x \<in> set xs. ?w x \<le> ?w t"
    and y: "ys = [] \<or> ?w t < ?w (hd ys)" by (rule wake_insert_split)
  have head: "thread_sleep_head s = 0 \<longleftrightarrow> zs = []" "zs \<noteq> [] \<Longrightarrow> thread_sleep_head s = hd zs"
    using l1 h1 by (cases zs; auto)+
  have fin: "sleepq s' (wake_insert ?w t zs)"
    if "sleep_only s1 s'" "list_at (sleep_nx s') (ptr (thread_sleep_head s')) (wake_insert ?w t zs)" for s'
    using that sorted_wake_insert [OF srt, of t] nz t(2) sleep_onlyD(9) [OF that(1)] w1
    by (simp add: sleepq_def)
  show ?thesis
  proof (cases "thread_sleep_head s = 0 \<or> ?w t < ?w (thread_sleep_head s)")
    case True
    have xs: "xs = []"
      using True head z(1,3) by (cases xs) auto
    let ?s = "upd_thread t (\<lambda>r. r\<lparr>sleep_next := thread_sleep_head s1\<rparr>) s1\<lparr>thread_sleep_head := t\<rparr>"
    have "sleepq_insert t s = Some ?s"
      using True by (simp add: sleepq_insert_def Let_def w1 h1 flip: s1_def)
    moreover have so: "sleep_only s1 ?s" by (rule sleep_only_trans [OF sleep_only_upd sleep_only_head])
    moreover have "list_at (sleep_nx ?s) (ptr (thread_sleep_head ?s)) (wake_insert ?w t zs)"
      using sq.push [OF l1 t] xs z by simp
    ultimately show ?thesis using fin sleep_only_trans [OF so1 so] by blast
  next
    case False
    then have "xs \<noteq> []" using head y z by (cases xs) auto
    then obtain us a where us: "xs = us @ [a]" by (cases xs rule: rev_cases) auto
    let ?stop = "\<lambda>p. sleep_next (threads s1 p) = 0 \<or> \<not> wake_tick (threads s1 (sleep_next (threads s1 p))) \<le> wake_tick (threads s1 t)"
    have "\<not> ?stop x" if x: "x \<in> set us" for x
    proof -
      obtain u1 u2 where u: "us = u1 @ x # u2" using split_list [OF x] by blast
      then obtain v vs where v: "u2 @ [a] = v # vs" by (cases u2) auto
      have "v \<in> set (u2 @ [a])" using v by simp
      then have "v \<in> set xs" using us u by auto
      moreover have "zs = u1 @ x # v # vs @ ys" using z(1) us u v by simp
      then have "sleep_nx s1 x = Some v" using l1 list_at_next [of "sleep_nx s1"] by blast
      ultimately show ?thesis using z(3) w1 nz by simp
    qed
    moreover have "?stop a"
    proof (cases ys)
      case Nil
      then show ?thesis using l1 z(1) us list_at_last [of "sleep_nx s1" _ us a] by simp
    next
      case (Cons v vs)
      then show ?thesis using l1 z(1) us list_at_next [of "sleep_nx s1" _ us a v vs] y w1 by (simp add: not_le)
    qed
    ultimately have "find ?stop zs = Some a" using z(1) us by (simp add: find_append find_None_iff[THEN iffD2])
    then have wk: "walk_until ?stop (sleep_nx s1) (ptr (thread_sleep_head s1)) = Some (Some a)"
      using walk_until_find [OF l1] by simp
    let ?s = "upd_thread a (\<lambda>r. r\<lparr>sleep_next := t\<rparr>) (upd_thread t (\<lambda>r. r\<lparr>sleep_next := sleep_next (threads s1 a)\<rparr>) s1)"
    have "sleepq_insert t s = Some ?s"
      unfolding sleepq_insert_def Let_def using False wk by (simp add: w1 h1 flip: s1_def)
    moreover have so: "sleep_only s1 ?s" by (rule sleep_only_trans [OF sleep_only_upd sleep_only_upd])
    moreover have "list_at (sleep_nx ?s) (ptr (thread_sleep_head ?s)) (us @ a # t # ys)"
      using sq.insert_after [of s1 "ptr (thread_sleep_head s1)" us a ys t "sleep_next (threads s1 a)"] l1 z(1) us t by simp
    ultimately show ?thesis using fin [OF so] sleep_only_trans [OF so1 so] z(2) us by simp
  qed
qed

lemma sleepq_remove_spec:
  assumes q: "sleepq s zs" and t: "t \<noteq> 0"
  shows "\<exists>s'. sleepq_remove t s = Some s' \<and> sleep_only s s' \<and> sleepq s' (remove1 t zs)"
proof -
  have l: "list_at (sleep_nx s) (ptr (thread_sleep_head s)) zs" and nz: "0 \<notin> set zs"
    and srt: "sorted (map (\<lambda>t. wake_tick (threads s t)) zs)" using q by (simp_all add: sleepq_def)
  have d: "distinct zs" using l by (rule list_at_distinct)
  have fin: "sleepq s' (remove1 t zs)"
    if "sleep_only s s'" "list_at (sleep_nx s') (ptr (thread_sleep_head s')) (remove1 t zs)" for s'
  proof -
    have "sorted (map (\<lambda>t. wake_tick (threads s t)) (remove1 t zs))"
      using srt d by (simp add: distinct_remove1_removeAll removeAll_filter_not_eq sorted_filter)
    then show ?thesis using that(2) nz sleep_onlyD(9) [OF that(1)] by (auto simp: sleepq_def dest: notin_set_remove1)
  qed
  consider (nil) "zs = []" | (hd) ys where "zs = t # ys" | (other) z ys where "zs = z # ys" "z \<noteq> t"
    by (cases zs) auto
  then show ?thesis
  proof cases
    case nil
    then show ?thesis using l q by (simp add: sleepq_remove_def)
  next
    case hd
    let ?s = "upd_thread t (\<lambda>r. r\<lparr>sleep_next := 0\<rparr>) (s\<lparr>thread_sleep_head := sleep_next (threads s t)\<rparr>)"
    have "sleepq_remove t s = Some ?s" using hd l t by (auto simp: sleepq_remove_def)
    moreover have so: "sleep_only s ?s" by (rule sleep_only_trans [OF sleep_only_head sleep_only_upd])
    moreover have "list_at (sleep_nx ?s) (ptr (thread_sleep_head ?s)) (remove1 t zs)"
      using hd l sq.list_at_reset [of t ys 0 "s\<lparr>thread_sleep_head := sleep_next (threads s t)\<rparr>"] by simp
    ultimately show ?thesis using fin [OF so] by blast
  next
    case other
    then have h: "thread_sleep_head s \<noteq> 0" "thread_sleep_head s \<noteq> t" using l by auto
    let ?stop = "\<lambda>p. sleep_next (threads s p) = 0 \<or> sleep_next (threads s p) = t"
    have stop: "?stop = (\<lambda>p. sleep_nx s p = None \<or> sleep_nx s p = Some t)" using t by auto
    show ?thesis
    proof (cases "t \<in> set zs")
      case True
      then obtain us vs where y: "ys = us @ t # vs" using other split_list by fastforce
      then obtain xs a where xa: "z # us = xs @ [a]" by (cases "z # us" rule: rev_cases) auto
      have "zs = (z # us) @ t # vs" using other y by simp
      then have zs: "zs = xs @ a # t # vs" by (simp only: xa append_assoc append_Cons append_Nil)
      have na: "sleep_nx s a = Some t" by (rule list_at_next [OF l [unfolded zs]])
      have wk: "walk_until ?stop (sleep_nx s) (ptr (thread_sleep_head s)) = Some (Some a)"
        using walk_until_find [OF l] find_prev_or_last [of "sleep_nx s" _ xs a "t # vs" t] l zs stop by simp
      let ?s = "upd_thread t (\<lambda>r. r\<lparr>sleep_next := 0\<rparr>) (upd_thread a (\<lambda>r. r\<lparr>sleep_next := sleep_next (threads s t)\<rparr>) s)"
      have "sleepq_remove t s = Some ?s" unfolding sleepq_remove_def using h t wk na by simp
      moreover have so: "sleep_only s ?s" by (rule sleep_only_trans [OF sleep_only_upd sleep_only_upd])
      moreover have r: "remove1 t zs = xs @ a # vs" using zs d by (auto simp: remove1_append)
      have "list_at (sleep_nx ?s) (ptr (thread_sleep_head ?s)) (remove1 t zs)"
        using sq.delete_reset [of s "ptr (thread_sleep_head s)" xs a t vs "sleep_next (threads s t)" 0] l zs r by simp
      ultimately show ?thesis using fin [OF so] by blast
    next
      case False
      obtain xs a where zs: "zs = xs @ [a]" using other(1) by (metis append_butlast_last_id list.distinct(1))
      have "t \<notin> set (tl zs)" using False by (cases zs) auto
      then have "find ?stop zs = Some a" using find_prev_or_last [of "sleep_nx s" _ xs a "[]" t] l zs stop by simp
      then have wk: "walk_until ?stop (sleep_nx s) (ptr (thread_sleep_head s)) = Some (Some a)"
        using walk_until_find [OF l] by simp
      have na: "sleep_next (threads s a) = 0" using list_at_last [OF l [unfolded zs]] by simp
      have "sleepq_remove t s = Some s" unfolding sleepq_remove_def using h t wk na by simp
      then show ?thesis using q remove1_idem [OF False] by simp
    qed
  qed
qed

text \<open>
  Waking sleepers changes the sleep queue and the state of the threads it takes off the queue.
\<close>

definition woken :: "u32 set \<Rightarrow> 'a sched_scheme \<Rightarrow> 'a sched_scheme \<Rightarrow> bool" where
  "woken D s s' \<longleftrightarrow> (\<exists>n h. s' = s\<lparr>threads := (\<lambda>p. (threads s p)\<lparr>sleep_next := n p,
      t_state := if p \<in> D then THREAD_RUNNABLE else t_state (threads s p)\<rparr>), thread_sleep_head := h\<rparr>)"

lemma wokenI:
  "s' = s\<lparr>threads := (\<lambda>p. (threads s p)\<lparr>sleep_next := n p,
      t_state := if p \<in> D then THREAD_RUNNABLE else t_state (threads s p)\<rparr>), thread_sleep_head := h\<rparr> \<Longrightarrow> woken D s s'"
  unfolding woken_def by blast

lemma woken_refl: "woken {} s s"
  by (rule wokenI [where n = "\<lambda>p. sleep_next (threads s p)" and h = "thread_sleep_head s"]) simp

lemma woken_trans:
  assumes "woken D s s'" "woken E s' s''"
  shows "woken (D \<union> E) s s''"
proof -
  obtain n h m g where e: "s' = s\<lparr>threads := (\<lambda>p. (threads s p)\<lparr>sleep_next := n p,
      t_state := if p \<in> D then THREAD_RUNNABLE else t_state (threads s p)\<rparr>), thread_sleep_head := h\<rparr>"
    "s'' = s'\<lparr>threads := (\<lambda>p. (threads s' p)\<lparr>sleep_next := m p,
      t_state := if p \<in> E then THREAD_RUNNABLE else t_state (threads s' p)\<rparr>), thread_sleep_head := g\<rparr>"
    using assms unfolding woken_def by blast
  have "(if p \<in> E then THREAD_RUNNABLE else if p \<in> D then THREAD_RUNNABLE else x) =
    (if p \<in> D \<union> E then THREAD_RUNNABLE else x)" for p x by simp
  then show ?thesis by (intro wokenI [where n = m and h = g]) (simp add: e cong: if_cong)
qed

lemma wokenD:
  assumes "woken D s s'"
  shows "thread_head s' = thread_head s" "thread_current s' = thread_current s" "processes s' = processes s"
    "ticks s' = ticks s" "rr_ticks_left s' = rr_ticks_left s" "sched_pending s' = sched_pending s"
    "rq_next (threads s' t) = rq_next (threads s t)"
    "t_state (threads s' t) = (if t \<in> D then THREAD_RUNNABLE else t_state (threads s t))"
    "wake_tick (threads s' t) = wake_tick (threads s t)" "wait_next (threads s' t) = wait_next (threads s t)"
    "wait_owner (threads s' t) = wait_owner (threads s t)" "t_proc (threads s' t) = t_proc (threads s t)"
    "t_slot_inuse (threads s' t) = t_slot_inuse (threads s t)"
  using assms by (auto simp: woken_def)

text \<open>One round of the loop of \<^verbatim>\<open>sched_on_tick\<close>.\<close>

definition wake_first :: "u32 \<Rightarrow> 'a sched_scheme \<Rightarrow> 'a sched_scheme" where
  "wake_first t s = upd_thread t (\<lambda>r. r\<lparr>t_state := THREAD_RUNNABLE\<rparr>)
     (upd_thread t (\<lambda>r. r\<lparr>sleep_next := 0\<rparr>) (s\<lparr>thread_sleep_head := sleep_next (threads s t)\<rparr>))"

lemma woken_first: "woken {t} s (wake_first t s)"
proof (rule wokenI [where n = "\<lambda>p. if p = t then 0 else sleep_next (threads s p)" and h = "sleep_next (threads s t)"])
  have "(threads s)(t := threads s t\<lparr>sleep_next := 0, t_state := THREAD_RUNNABLE\<rparr>) =
    (\<lambda>p. threads s p\<lparr>sleep_next := if p = t then 0 else sleep_next (threads s p),
      t_state := if p \<in> {t} then THREAD_RUNNABLE else t_state (threads s p)\<rparr>)" by auto
  then show "wake_first t s = s\<lparr>threads := (\<lambda>p. threads s p\<lparr>sleep_next := if p = t then 0 else sleep_next (threads s p),
      t_state := if p \<in> {t} then THREAD_RUNNABLE else t_state (threads s p)\<rparr>), thread_sleep_head := sleep_next (threads s t)\<rparr>"
    by (simp add: wake_first_def upd_thread_def)
qed

lemma sleepq_first:
  assumes "sleepq s (t # zs)"
  shows "sleepq (wake_first t s) zs"
proof -
  have "list_at (sleep_nx s) (ptr (sleep_next (threads s t))) zs" "t \<notin> set zs"
    using assms by (auto simp: sleepq_def)
  then have "list_at (sleep_nx (wake_first t s)) (ptr (thread_sleep_head (wake_first t s))) zs"
    using sq.list_at_reset [of t zs 0 "s\<lparr>thread_sleep_head := sleep_next (threads s t)\<rparr>"]
    by (simp add: wake_first_def)
  then show ?thesis using assms wokenD(9) [OF woken_first [of t s]] by (simp add: sleepq_def)
qed

definition due :: "'a sched_scheme \<Rightarrow> u32 list \<Rightarrow> u32 list" where
  "due s zs = takeWhile (\<lambda>t. ucast (wake_tick (threads s t)) \<le> ticks s) zs"

lemma wake_sleepers_spec:
  assumes "sleepq s zs" "\<forall>t \<in> set zs. t_slot_inuse (threads s t) \<and> t_state (threads s t) = THREAD_SLEEPING"
  shows "\<exists>s'. wake_sleepers (ticks s) b s = Some (b \<or> due s zs \<noteq> [], s') \<and> woken (set (due s zs)) s s' \<and>
           sleepq s' (drop (length (due s zs)) zs)"
  using assms
proof (induction zs arbitrary: s b)
  case Nil
  then have "thread_sleep_head s = 0" by (simp add: sleepq_def)
  then show ?case using Nil by (simp add: wake_sleepers.simps due_def woken_refl)
next
  case (Cons t zs)
  have t: "thread_sleep_head s = t" "t \<noteq> 0" "t \<notin> set zs" using Cons.prems(1) by (auto simp: sleepq_def)
  show ?case
  proof (cases "ucast (wake_tick (threads s t)) \<le> ticks s")
    case True
    let ?s = "wake_first t s"
    note w = wokenD [OF woken_first [of t s]]
    have st: "\<forall>u \<in> set zs. t_slot_inuse (threads ?s u) \<and> t_state (threads ?s u) = THREAD_SLEEPING"
      using Cons.prems(2) t(3) by (auto simp: w)
    obtain s' where s': "wake_sleepers (ticks ?s) True ?s = Some (True \<or> due ?s zs \<noteq> [], s')"
      "woken (set (due ?s zs)) ?s s'" "sleepq s' (drop (length (due ?s zs)) zs)"
      using Cons.IH [OF sleepq_first [OF Cons.prems(1)] st] by blast
    have du: "due s (t # zs) = t # due ?s zs" using True by (simp add: due_def w)
    have "wake_sleepers (ticks s) b s = wake_sleepers (ticks s) True ?s"
      using True t Cons.prems(2) by (subst wake_sleepers.simps) (simp add: Let_def wake_first_def)
    then have "wake_sleepers (ticks s) b s = Some (b \<or> due s (t # zs) \<noteq> [], s')" using s'(1) du by (simp add: w)
    moreover have "woken (set (due s (t # zs))) s s'"
      using woken_trans [OF woken_first s'(2)] du by simp
    ultimately show ?thesis using s'(3) du by auto
  next
    case False
    then have "wake_sleepers (ticks s) b s = Some (b, s)" "due s (t # zs) = []"
      using t(1) by (simp_all add: wake_sleepers.simps due_def)
    then show ?thesis using Cons.prems(1) by (simp add: woken_refl)
  qed
qed

section \<open>Switching\<close>

text \<open>The ring in the order in which the search visits it after thread \<open>c\<close>.\<close>

definition ring_after :: "u32 \<Rightarrow> u32 list \<Rightarrow> u32 list" where
  "ring_after c ts = tl (dropWhile (\<lambda>x. x \<noteq> c) ts) @ takeWhile (\<lambda>x. x \<noteq> c) ts @ (if c \<in> set ts then [c] else [])"

lemma ring_after_notin: "c \<notin> set ts \<Longrightarrow> ring_after c ts = ts"
proof -
  assume "c \<notin> set ts"
  then have "takeWhile (\<lambda>x. x \<noteq> c) ts = ts" "dropWhile (\<lambda>x. x \<noteq> c) ts = []"
    by (auto simp: takeWhile_eq_all_conv)
  with \<open>c \<notin> set ts\<close> show ?thesis
    by (simp add: ring_after_def del: takeWhile_eq_all_conv dropWhile_eq_Nil_conv)
qed

lemma ring_after_split: "c \<notin> set xs \<Longrightarrow> ring_after c (xs @ c # ys) = ys @ xs @ [c]"
proof -
  assume c: "c \<notin> set xs"
  have "takeWhile (\<lambda>x. x \<noteq> c) (xs @ c # ys) = xs" using c by (induction xs) auto
  moreover have "dropWhile (\<lambda>x. x \<noteq> c) (xs @ c # ys) = c # ys" using c by (induction xs) auto
  ultimately show ?thesis by (simp add: ring_after_def)
qed

lemma set_ring_after [simp]: "set (ring_after c ts) = set ts"
proof (cases "c \<in> set ts")
  case True
  then obtain xs ys where "ts = xs @ c # ys" "c \<notin> set xs" using split_list_first by metis
  then show ?thesis by (auto simp: ring_after_split)
qed (simp add: ring_after_notin)

lemma runq_ring: "runq s ts \<Longrightarrow> ts \<noteq> [] \<Longrightarrow> ring (rq_nx s) ts \<and> thread_head s = hd ts \<and> thread_head s \<noteq> 0"
  by (cases ts) (auto simp: runq_def)

definition pick :: "'a sched_scheme \<Rightarrow> u32 list \<Rightarrow> u32" where
  "pick s ts = (case find (\<lambda>p. t_state (threads s p) = THREAD_RUNNABLE) ts of None \<Rightarrow> 0 | Some u \<Rightarrow> u)"

lemma next_runnable_spec:
  assumes "runq s ts" "ts = xs @ u # ys"
  shows "next_runnable u s = Some (pick s (u # ys @ xs))"
proof -
  have r: "ring (rq_nx s) (u # ys @ xs)" "thread_head s \<noteq> 0" "u \<noteq> 0"
    using runq_ring [OF assms(1)] assms ring_rotate [of "rq_nx s" xs "u # ys"] by (auto simp: runq_def)
  then show ?thesis using cycle_until_find [OF r(1)] by (simp add: next_runnable_def pick_def)
qed

lemma next_runnable_after:
  assumes q: "runq s ts" and c: "c \<in> set ts"
  shows "next_runnable (rq_next (threads s c)) s = Some (pick s (ring_after c ts))"
proof -
  obtain xs ys where ts: "ts = xs @ c # ys" "c \<notin> set xs" using split_list_first [OF c] by metis
  have r: "ring (rq_nx s) (xs @ c # ys)" using runq_ring [OF q] ts by auto
  obtain u zs where u: "ys @ xs @ [c] = u # zs" by (cases "ys @ xs @ [c]") auto
  have "rq_nx s c = Some u" using ring_next [OF r] u by simp
  then have n: "rq_next (threads s c) = u" by simp
  have "ring (rq_nx s) (ys @ xs @ [c])" using ring_rotate [of "rq_nx s" "xs @ [c]" ys] r by simp
  then have "cycle_until stop (rq_nx s) u u = Some (find stop (u # zs))" for stop
    using cycle_until_find [of "rq_nx s" u zs] u by simp
  moreover have "u \<in> set (ys @ xs @ [c])" using u by simp
  then have "u \<noteq> 0" "thread_head s \<noteq> 0" using q ts runq_ring [OF q] by (auto simp: runq_def)
  ultimately show ?thesis using n u by (simp add: next_runnable_def pick_def ring_after_split [OF ts(2)] ts(1))
qed

text \<open>The state in which the search for the next thread runs.\<close>

definition park :: "u32 \<Rightarrow> 'a sched_scheme \<Rightarrow> 'a sched_scheme" where
  "park esp s =
     (let s = s\<lparr>sched_pending := False\<rparr>; c = thread_current s
      in if c = 0 then s
         else upd_thread c (\<lambda>r. r\<lparr>saved_esp := esp,
                t_state := if t_state r = THREAD_RUNNING then THREAD_RUNNABLE else t_state r\<rparr>) s)"

lemma park_fields [simp]:
  "thread_head (park esp s) = thread_head s" "thread_current (park esp s) = thread_current s"
  "thread_sleep_head (park esp s) = thread_sleep_head s" "processes (park esp s) = processes s"
  "ticks (park esp s) = ticks s"
  "rq_next (threads (park esp s) t) = rq_next (threads s t)"
  "sleep_next (threads (park esp s) t) = sleep_next (threads s t)"
  "wait_next (threads (park esp s) t) = wait_next (threads s t)"
  "wake_tick (threads (park esp s) t) = wake_tick (threads s t)"
  "wait_owner (threads (park esp s) t) = wait_owner (threads s t)"
  "t_proc (threads (park esp s) t) = t_proc (threads s t)"
  "t_slot_inuse (threads (park esp s) t) = t_slot_inuse (threads s t)"
  "kstack_top (threads (park esp s) t) = kstack_top (threads s t)"
  by (simp_all add: park_def Let_def)

lemma t_state_park:
  "t_state (threads (park esp s) t) =
     (if t = thread_current s \<and> t \<noteq> 0 \<and> t_state (threads s t) = THREAD_RUNNING then THREAD_RUNNABLE
      else t_state (threads s t))"
  by (auto simp: park_def Let_def threads_upd)

lemma saved_esp_park:
  "saved_esp (threads (park esp s) t) = (if t = thread_current s \<and> t \<noteq> 0 then esp else saved_esp (threads s t))"
  by (auto simp: park_def Let_def threads_upd)

lemma runq_park [simp]: "runq (park esp s) ts = runq s ts"
  by (simp add: runq_def)

lemma upd_thread_twice: "upd_thread p g (upd_thread p f s) = upd_thread p (\<lambda>r. g (f r)) s"
  by (simp add: upd_thread_def)

lemma sched_do_switch_eq:
  assumes q: "runq s ts" and c: "thread_current s = 0 \<or> thread_current s \<in> set ts"
  shows "sched_do_switch esp s = Some (run_thread (pick (park esp s) (ring_after (thread_current s) ts)) esp (park esp s))"
proof -
  let ?c = "thread_current s" and ?p = "park esp s"
  have p0: "?c = 0 \<Longrightarrow> s\<lparr>sched_pending := False\<rparr> = ?p"
    and pr: "?c \<noteq> 0 \<Longrightarrow> t_state (threads s ?c) = THREAD_RUNNING \<Longrightarrow> upd_thread ?c (\<lambda>r. r\<lparr>t_state := THREAD_RUNNABLE\<rparr>)
        (upd_thread ?c (\<lambda>r. r\<lparr>saved_esp := esp\<rparr>) (s\<lparr>sched_pending := False\<rparr>)) = ?p"
    and pn: "?c \<noteq> 0 \<Longrightarrow> t_state (threads s ?c) \<noteq> THREAD_RUNNING \<Longrightarrow>
        upd_thread ?c (\<lambda>r. r\<lparr>saved_esp := esp\<rparr>) (s\<lparr>sched_pending := False\<rparr>) = ?p"
    by (simp_all add: park_def Let_def upd_thread_def)
  have eq: "sched_do_switch esp s = (if thread_head ?p = 0 then Some (esp, ?p)
      else do { t \<leftarrow> next_runnable (if ?c = 0 then thread_head ?p else rq_next (threads ?p ?c)) ?p;
                Some (run_thread t esp ?p) })"
    unfolding sched_do_switch_def Let_def
    by (cases "?c = 0"; cases "t_state (threads s ?c) = THREAD_RUNNING") (simp_all add: p0 pr pn t_state_park)
  show ?thesis
  proof (cases ts)
    case Nil
    then have "thread_head s = 0" "?c = 0" using q c by (auto simp: runq_def)
    then show ?thesis by (simp add: eq Nil ring_after_def pick_def run_thread_def)
  next
    case (Cons t0 ts')
    have h: "thread_head s = t0" "t0 \<noteq> 0" and q': "runq ?p ts" using q runq_ring [OF q] Cons by (auto simp: runq_def)
    show ?thesis
    proof (cases "?c = 0")
      case True
      then have "?c \<notin> set ts" using q by (auto simp: runq_def)
      then show ?thesis
        using next_runnable_spec [OF q', of "[]" t0 ts'] Cons True h by (simp add: eq ring_after_notin)
    next
      case False
      then show ?thesis using next_runnable_after [OF q', of ?c] c h by (simp add: eq)
    qed
  qed
qed

end
