(* ===== verification/Sched_Runs.thy ===== *)
theory Sched_Runs
  imports Sched_Queues
begin

text \<open>
  Runs of the scheduler. \<open>sched_inv\<close> is its invariant; the operations between two switches and the switch itself
  are the steps of a transition relation, and every step keeps the invariant. A thread that can run is run after
  fewer switches than there are threads, and a tick wakes exactly the threads whose time has come.
\<close>

section \<open>The invariant of the scheduler\<close>

text \<open>
  \<open>ts\<close> are the threads of the run queue and \<open>zs\<close> those of the sleep queue. Only the current thread is
  running, exactly the sleeping threads are in the sleep queue, and exactly the threads that wait for
  something are in the list of waiters of their process.
\<close>

definition waiters_ok :: "u32 list \<Rightarrow> 'a sched_scheme \<Rightarrow> bool" where
  "waiters_ok ts s \<longleftrightarrow>
     (\<forall>t \<in> set ts. t_state (threads s t) = THREAD_BLOCKED \<longrightarrow> wait_owner (threads s t) = t_proc (threads s t)) \<and>
     (\<forall>p \<in> (\<lambda>t. t_proc (threads s t)) ` set ts. \<exists>ws. waitq s p ws \<and>
        set ws = {t \<in> set ts. t_state (threads s t) = THREAD_BLOCKED \<and> t_proc (threads s t) = p})"

definition sched_inv :: "u32 list \<Rightarrow> u32 list \<Rightarrow> 'a sched_scheme \<Rightarrow> bool" where
  "sched_inv ts zs s \<longleftrightarrow> runq s ts \<and> (thread_current s = 0 \<or> thread_current s \<in> set ts) \<and>
     (\<forall>t \<in> set ts. t_slot_inuse (threads s t)) \<and>
     (\<forall>t \<in> set ts. t_state (threads s t) = THREAD_RUNNING \<longrightarrow> t = thread_current s) \<and>
     sleepq s zs \<and> set zs = {t \<in> set ts. t_state (threads s t) = THREAD_SLEEPING} \<and>
     (\<forall>t \<in> set ts. t_proc (threads s t) \<noteq> 0) \<and> waiters_ok ts s"

lemma waiters_ok_cong:
  assumes "\<And>t. wait_next (threads s' t) = wait_next (threads s t)" "\<And>t. wait_owner (threads s' t) = wait_owner (threads s t)"
    "\<And>t. t_proc (threads s' t) = t_proc (threads s t)" "\<And>p. waiters (processes s' p) = waiters (processes s p)"
    "\<And>t. t \<in> set ts \<Longrightarrow> t_state (threads s' t) = THREAD_BLOCKED \<longleftrightarrow> t_state (threads s t) = THREAD_BLOCKED"
  shows "waiters_ok ts s' = waiters_ok ts s"
proof -
  have "{t \<in> set ts. t_state (threads s' t) = THREAD_BLOCKED \<and> P t} = {t \<in> set ts. t_state (threads s t) = THREAD_BLOCKED \<and> P t}" for P
    using assms(5) by blast
  moreover have "waitq s' p ws = waitq s p ws" for p ws using assms(1,4) by (simp add: waitq_def)
  ultimately show ?thesis using assms(2,3,5) by (simp add: waiters_ok_def)
qed

lemma sched_invD:
  assumes "sched_inv ts zs s"
  shows "runq s ts" "thread_current s = 0 \<or> thread_current s \<in> set ts" "sleepq s zs"
    "set zs = {t \<in> set ts. t_state (threads s t) = THREAD_SLEEPING}" "0 \<notin> set ts"
    "t \<in> set ts \<Longrightarrow> t_slot_inuse (threads s t)" "t \<in> set ts \<Longrightarrow> t_proc (threads s t) \<noteq> 0"
    "t \<in> set ts \<Longrightarrow> t_state (threads s t) = THREAD_RUNNING \<Longrightarrow> t = thread_current s"
    "t \<in> set ts \<Longrightarrow> t_state (threads s t) = THREAD_BLOCKED \<Longrightarrow> wait_owner (threads s t) = t_proc (threads s t)"
    "waiters_ok ts s" "t \<in> set ts \<Longrightarrow> \<exists>ws. waitq s (t_proc (threads s t)) ws \<and>
        set ws = {u \<in> set ts. t_state (threads s u) = THREAD_BLOCKED \<and> t_proc (threads s u) = t_proc (threads s t)}"
  using assms by (auto simp: sched_inv_def runq_def waiters_ok_def)

lemma sched_inv_flags [simp]:
  "sched_inv ts zs (s\<lparr>sched_pending := b\<rparr>) = sched_inv ts zs s"
  "sched_inv ts zs (s\<lparr>rr_ticks_left := n\<rparr>) = sched_inv ts zs s"
  "sched_inv ts zs (s\<lparr>ticks := k\<rparr>) = sched_inv ts zs s"
  by (simp_all add: sched_inv_def waiters_ok_def runq_def sleepq_def waitq_def)

text \<open>A change of states that moves no thread into or out of a queue.\<close>

definition same_links :: "'a sched_scheme \<Rightarrow> 'a sched_scheme \<Rightarrow> bool" where
  "same_links s s' \<longleftrightarrow> thread_head s' = thread_head s \<and> thread_sleep_head s' = thread_sleep_head s \<and>
     processes s' = processes s \<and>
     (\<forall>t. rq_next (threads s' t) = rq_next (threads s t) \<and> sleep_next (threads s' t) = sleep_next (threads s t) \<and>
          wait_next (threads s' t) = wait_next (threads s t) \<and> wake_tick (threads s' t) = wake_tick (threads s t) \<and>
          wait_owner (threads s' t) = wait_owner (threads s t) \<and> t_proc (threads s' t) = t_proc (threads s t) \<and>
          t_slot_inuse (threads s' t) = t_slot_inuse (threads s t))"

lemma sched_inv_same_links:
  assumes i: "sched_inv ts zs s" and l: "same_links s s'"
    and c: "thread_current s' = 0 \<or> thread_current s' \<in> set ts"
    and r: "\<And>t. t \<in> set ts \<Longrightarrow> t_state (threads s' t) = THREAD_RUNNING \<Longrightarrow> t = thread_current s'"
    and st: "\<And>t. t \<in> set ts \<Longrightarrow> (t_state (threads s' t) = THREAD_SLEEPING \<longleftrightarrow> t_state (threads s t) = THREAD_SLEEPING) \<and>
        (t_state (threads s' t) = THREAD_BLOCKED \<longleftrightarrow> t_state (threads s t) = THREAD_BLOCKED)"
  shows "sched_inv ts zs s'"
proof -
  have q: "runq s' ts = runq s ts" "sleepq s' zs = sleepq s zs"
    using l by (simp_all add: same_links_def runq_def sleepq_def)
  have w: "waiters_ok ts s' = waiters_ok ts s"
    using l st by (intro waiters_ok_cong) (simp_all add: same_links_def)
  have e: "{t \<in> set ts. t_state (threads s' t) = THREAD_SLEEPING} = {t \<in> set ts. t_state (threads s t) = THREAD_SLEEPING}"
    using st by blast
  show ?thesis using i c r l unfolding sched_inv_def by (simp add: q e w same_links_def)
qed

lemma mm_switch_fields [simp]:
  "threads (mm_switch m s) = threads s" "processes (mm_switch m s) = processes s"
  "thread_head (mm_switch m s) = thread_head s" "thread_sleep_head (mm_switch m s) = thread_sleep_head s"
  "thread_current (mm_switch m s) = thread_current s" "ticks (mm_switch m s) = ticks s"
  "tss_esp0 (mm_switch m s) = tss_esp0 s" "mms (mm_switch m s) = mms s"
  by (simp_all add: mm_switch_def)

lemma run_thread_fields [simp]:
  "thread_current (snd (run_thread u esp s)) = u"
  "thread_head (snd (run_thread u esp s)) = thread_head s"
  "thread_sleep_head (snd (run_thread u esp s)) = thread_sleep_head s"
  "processes (snd (run_thread u esp s)) = processes s"
  "rq_next (threads (snd (run_thread u esp s)) t) = rq_next (threads s t)"
  "sleep_next (threads (snd (run_thread u esp s)) t) = sleep_next (threads s t)"
  "wait_next (threads (snd (run_thread u esp s)) t) = wait_next (threads s t)"
  "wake_tick (threads (snd (run_thread u esp s)) t) = wake_tick (threads s t)"
  "wait_owner (threads (snd (run_thread u esp s)) t) = wait_owner (threads s t)"
  "t_proc (threads (snd (run_thread u esp s)) t) = t_proc (threads s t)"
  "t_slot_inuse (threads (snd (run_thread u esp s)) t) = t_slot_inuse (threads s t)"
  "saved_esp (threads (snd (run_thread u esp s)) t) = saved_esp (threads s t)"
  "t_state (threads (snd (run_thread u esp s)) t) = (if t = u \<and> u \<noteq> 0 then THREAD_RUNNING else t_state (threads s t))"
  "fst (run_thread u esp s) = (if u = 0 then esp else saved_esp (threads s u))"
  by (simp_all add: run_thread_def Let_def sched_set_tss_esp0_def threads_upd)

lemma find_in: "find P xs = Some x \<Longrightarrow> x \<in> set xs \<and> P x"
  by (induction xs) (auto split: if_splits)

lemma pick_in: "pick s ts \<noteq> 0 \<Longrightarrow> pick s ts \<in> set ts \<and> t_state (threads s (pick s ts)) = THREAD_RUNNABLE"
  by (cases "find (\<lambda>p. t_state (threads s p) = THREAD_RUNNABLE) ts") (auto simp: pick_def dest: find_in)

lemma sched_inv_switch:
  assumes i: "sched_inv ts zs s"
  shows "\<exists>esp' s'. sched_do_switch esp s = Some (esp', s') \<and> sched_inv ts zs s'"
proof -
  let ?u = "pick (park esp s) (ring_after (thread_current s) ts)"
  let ?s = "snd (run_thread ?u esp (park esp s))"
  note D = sched_invD [OF i]
  have u: "?u \<noteq> 0 \<Longrightarrow> ?u \<in> set ts \<and> t_state (threads (park esp s) ?u) = THREAD_RUNNABLE"
    using pick_in [of "park esp s" "ring_after (thread_current s) ts"] by auto
  have "sched_inv ts zs ?s"
  proof (rule sched_inv_same_links [OF i])
    show "same_links s ?s" by (simp add: same_links_def)
    show "thread_current ?s = 0 \<or> thread_current ?s \<in> set ts" using u by auto
    show "t = thread_current ?s" if "t \<in> set ts" "t_state (threads ?s t) = THREAD_RUNNING" for t
      using that D(5) D(8) [of t] by (auto simp: t_state_park split: if_splits)
    show "(t_state (threads ?s t) = THREAD_SLEEPING \<longleftrightarrow> t_state (threads s t) = THREAD_SLEEPING) \<and>
        (t_state (threads ?s t) = THREAD_BLOCKED \<longleftrightarrow> t_state (threads s t) = THREAD_BLOCKED)" for t
      using u by (auto simp: t_state_park split: if_splits)
  qed
  then show ?thesis using sched_do_switch_eq [OF D(1,2), of esp] by (metis prod.collapse)
qed

lemma distinct_drop_due: "distinct zs \<Longrightarrow> set (drop (length (due s zs)) zs) = set zs - set (due s zs)"
proof -
  assume d: "distinct zs"
  have "zs = due s zs @ drop (length (due s zs)) zs" by (simp add: due_def flip: dropWhile_eq_drop)
  then have "set zs = set (due s zs) \<union> set (drop (length (due s zs)) zs)"
    "set (due s zs) \<inter> set (drop (length (due s zs)) zs) = {}"
    using d by (metis set_append, metis distinct_append)
  then show ?thesis by blast
qed

lemma sched_inv_woken:
  assumes i: "sched_inv ts zs s" and w: "woken D s s'" and q: "sleepq s' zs'"
    and D: "D \<subseteq> set zs" "set zs' = set zs - D"
  shows "sched_inv ts zs' s'"
proof -
  note W = wokenD [OF w]
  note I = sched_invD [OF i]
  have sl: "t_state (threads s t) = THREAD_SLEEPING" "t \<in> set ts" if "t \<in> D" for t using that D(1) I(4) by auto
  have z: "set zs' = {t \<in> set ts. t_state (threads s' t) = THREAD_SLEEPING}"
    using sl D I(4) by (auto simp: W split: if_splits)
  have rq: "runq s' ts" using I(1) by (simp add: runq_def W)
  have r: "\<forall>t \<in> set ts. t_state (threads s' t) = THREAD_RUNNING \<longrightarrow> t = thread_current s'"
    using I(8) by (auto simp: W split: if_splits)
  have "waiters_ok ts s'"
    using I(10) sl by (subst waiters_ok_cong [of s' s]) (auto simp: W split: if_splits)
  then show ?thesis unfolding sched_inv_def using rq r q z I(2,6,7) by (simp add: W)
qed

lemma sched_on_tick_eq:
  assumes i: "sched_inv ts zs s"
  shows "\<exists>s'. woken (set (due s zs)) s s' \<and> sched_inv ts (drop (length (due s zs)) zs) s' \<and>
    sched_on_tick s = Some (s'\<lparr>rr_ticks_left := if rr_ticks_left s = 1 then RR_SCHEDULER_CADENCE else rr_ticks_left s - 1,
      sched_pending := sched_pending s \<or> rr_ticks_left s = 1 \<or> due s zs \<noteq> []\<rparr>)"
proof -
  note I = sched_invD [OF i]
  have "\<forall>t \<in> set zs. t_slot_inuse (threads s t) \<and> t_state (threads s t) = THREAD_SLEEPING" using I(4,6) by auto
  then obtain s' where s': "wake_sleepers (ticks s) False s = Some (due s zs \<noteq> [], s')" "woken (set (due s zs)) s s'"
    "sleepq s' (drop (length (due s zs)) zs)" using wake_sleepers_spec [OF I(3), of False] by auto
  have "distinct zs" using I(3) list_at_distinct by (auto simp: sleepq_def)
  then have "sched_inv ts (drop (length (due s zs)) zs) s'"
    using sched_inv_woken [OF i s'(2,3)] distinct_drop_due by (auto simp: due_def dest: set_takeWhileD)
  moreover have "sched_on_tick s = Some (s'\<lparr>rr_ticks_left := if rr_ticks_left s = 1 then RR_SCHEDULER_CADENCE else rr_ticks_left s - 1,
      sched_pending := sched_pending s \<or> rr_ticks_left s = 1 \<or> due s zs \<noteq> []\<rparr>)"
    using wokenD(5,6) [OF s'(2)] by (simp add: sched_on_tick_def s'(1) Let_def)
  ultimately show ?thesis using s'(2) by blast
qed

lemma sched_block_current_locked_eq:
  assumes "thread_current s = c" "c \<noteq> 0"
  shows "sched_block_current_locked k g s =
    upd_process (t_proc (threads s c)) (\<lambda>p. p\<lparr>waiters := c\<rparr>)
      (upd_thread c (\<lambda>r. r\<lparr>t_state := THREAD_BLOCKED, wait_kind := k, wait_target_pid := g,
         wait_owner := t_proc (threads s c)\<rparr>)
      (upd_thread c (\<lambda>r. r\<lparr>wait_next := waiters (processes s (t_proc (threads s c)))\<rparr>) s))"
  using assms by (cases "threads s c") (simp add: sched_block_current_locked_def Let_def upd_thread_def)

lemma waiters_upd: "waiters (processes (upd_process p (\<lambda>r. r\<lparr>waiters := t\<rparr>) s) q) = (if q = p then t else waiters (processes s q))"
  by (simp add: processes_upd)

lemma sched_inv_block:
  assumes i: "sched_inv ts zs s" and c: "thread_current s \<noteq> 0" "t_state (threads s (thread_current s)) = THREAD_RUNNING"
  shows "sched_inv ts zs (sched_block_current_locked k g s)"
proof -
  define c where "c = thread_current s"
  define p where "p = t_proc (threads s c)"
  define s1 where "s1 = upd_thread c (\<lambda>r. r\<lparr>wait_next := waiters (processes s p)\<rparr>) s"
  let ?s = "sched_block_current_locked k g s"
  note I = sched_invD [OF i]
  have c: "c \<in> set ts" "c \<noteq> 0" "t_state (threads s c) = THREAD_RUNNING" using I(2) c by (auto simp: c_def)
  have eq: "?s = upd_process p (\<lambda>p. p\<lparr>waiters := c\<rparr>) (upd_thread c (\<lambda>r. r\<lparr>t_state := THREAD_BLOCKED, wait_kind := k, wait_target_pid := g,
         wait_owner := p\<rparr>) s1)"
    using sched_block_current_locked_eq [OF c_def [symmetric] c(2)] by (simp add: s1_def p_def)
  have same: "runq ?s ts = runq s ts" "sleepq ?s zs = sleepq s zs" "thread_current ?s = c"
    "\<And>t. t_proc (threads ?s t) = t_proc (threads s t)" "\<And>t. t_slot_inuse (threads ?s t) = t_slot_inuse (threads s t)"
    by (simp_all add: eq s1_def runq_def sleepq_def c_def)
  have st: "t_state (threads ?s t) = (if t = c then THREAD_BLOCKED else t_state (threads s t))"
    "wait_owner (threads ?s t) = (if t = c then p else wait_owner (threads s t))" for t
    by (simp_all add: eq s1_def threads_upd)
  have wq: "\<exists>ws. waitq ?s q ws \<and> set ws = {t \<in> set ts. t_state (threads ?s t) = THREAD_BLOCKED \<and> t_proc (threads ?s t) = q}"
    if q: "q \<in> (\<lambda>t. t_proc (threads s t)) ` set ts" for q
  proof -
    obtain ws where ws: "waitq s q ws" "set ws = {t \<in> set ts. t_state (threads s t) = THREAD_BLOCKED \<and> t_proc (threads s t) = q}"
      using I(11) q by blast
    have cw: "c \<notin> set ws" using ws(2) c(3) by auto
    show ?thesis
    proof (cases "q = p")
      case True
      have "list_at (wait_nx s1) (ptr c) (c # ws)"
        using ws(1) True wq.push [of s "waiters (processes s p)" ws c] cw c(2) by (simp add: waitq_def s1_def)
      then have "waitq ?s q (c # ws)" using True ws(1) c(2) by (simp add: waitq_def eq)
      then show ?thesis using ws(2) c(1) True by (intro exI [of _ "c # ws"]) (auto simp: st same p_def)
    next
      case False
      have "list_at (wait_nx s1) (ptr (waiters (processes s q))) ws"
        using ws(1) wq.list_at_reset [OF cw, of "waiters (processes s p)" s] by (simp add: waitq_def s1_def)
      then have "waitq ?s q ws" using False ws(1) by (simp add: waitq_def eq s1_def)
      then show ?thesis using ws(2) False by (intro exI [of _ ws]) (auto simp: st same p_def)
    qed
  qed
  then have "waiters_ok ts ?s" unfolding waiters_ok_def same using I(9) by (auto simp: st p_def)
  moreover have "set zs = {t \<in> set ts. t_state (threads ?s t) = THREAD_SLEEPING}" using I(4) c(3) by (auto simp: st)
  moreover have "\<forall>t \<in> set ts. t_state (threads ?s t) = THREAD_RUNNING \<longrightarrow> t = c" using I(8) by (auto simp: st c_def)
  ultimately show ?thesis unfolding sched_inv_def same using I(1,3,6,7) c(1) by blast
qed

lemma sched_thread_sleep_spec:
  assumes i: "sched_inv ts zs s" and c: "thread_current s \<noteq> 0" "t_state (threads s (thread_current s)) = THREAD_RUNNING"
  shows "\<exists>s'. sched_thread_sleep n s = Some s' \<and> thread_current s' = thread_current s \<and>
    (\<forall>t. t_state (threads s' t) = (if t = thread_current s then THREAD_SLEEPING else t_state (threads s t))) \<and>
    wake_tick (threads s' (thread_current s)) = ucast (ticks s + n) \<and>
    sched_inv ts (wake_insert (\<lambda>t. wake_tick (threads s' t)) (thread_current s) zs) s'"
proof -
  define c where "c = thread_current s"
  define s1 where "s1 = upd_thread c (\<lambda>r. r\<lparr>wake_tick := ucast (ticks s + n), t_state := THREAD_SLEEPING\<rparr>) s"
  note I = sched_invD [OF i]
  have c: "c \<in> set ts" "c \<noteq> 0" "t_state (threads s c) = THREAD_RUNNING" using I(2) c by (auto simp: c_def)
  have cz: "c \<notin> set zs" using I(4) c(3) by auto
  have m: "map (\<lambda>t. wake_tick (threads s1 t)) zs = map (\<lambda>t. wake_tick (threads s t)) zs"
    using cz by (auto simp: s1_def threads_upd)
  have "sleep_nx s1 = sleep_nx s" "thread_sleep_head s1 = thread_sleep_head s" by (simp_all add: s1_def)
  then have q1: "sleepq s1 zs" using I(3) unfolding sleepq_def m by metis
  obtain s2 where s2: "sleepq_insert c s1 = Some s2" "sleep_only s1 s2"
    "sleepq s2 (wake_insert (\<lambda>t. wake_tick (threads s1 t)) c zs)" using sleepq_insert_spec [OF q1 cz c(2)] by blast
  note S = sleep_onlyD [OF s2(2)]
  have st: "t_state (threads s2 t) = (if t = c then THREAD_SLEEPING else t_state (threads s t))"
    "t_proc (threads s2 t) = t_proc (threads s t)" "t_slot_inuse (threads s2 t) = t_slot_inuse (threads s t)"
    "wait_owner (threads s2 t) = wait_owner (threads s t)" "wait_next (threads s2 t) = wait_next (threads s t)"
    "rq_next (threads s2 t) = rq_next (threads s t)" for t
    by (simp_all add: S) (simp_all add: s1_def threads_upd)
  have e: "thread_head s2 = thread_head s" "processes s2 = processes s" "thread_current s2 = c"
    by (simp_all add: S) (simp_all add: s1_def c_def)
  have "waiters_ok ts s2" using I(10) c(3) by (subst waiters_ok_cong [of s2 s]) (auto simp: st e)
  moreover have "runq s2 ts" using I(1) by (simp add: runq_def st e)
  moreover have "\<forall>t \<in> set ts. t_state (threads s2 t) = THREAD_RUNNING \<longrightarrow> t = c" using I(8) by (simp add: st c_def)
  moreover have "insert c (set zs) = {t \<in> set ts. t_state (threads s2 t) = THREAD_SLEEPING}" using I(4) c(1) by (auto simp: st)
  moreover have "sleepq s2 (wake_insert (\<lambda>t. wake_tick (threads s2 t)) c zs)" using s2(3) by (simp add: S)
  ultimately have "sched_inv ts (wake_insert (\<lambda>t. wake_tick (threads s2 t)) c zs) s2"
    unfolding sched_inv_def set_wake_insert e(3) st(2,3) using I(6,7) c(1) by blast
  moreover have "sched_thread_sleep n s = Some (s2\<lparr>sched_pending := True\<rparr>)"
    using c s2(1) by (simp add: sched_thread_sleep_def Let_def sched_thread_yield_def e flip: c_def s1_def)
  moreover have "wake_tick (threads s2 c) = ucast (ticks s + n)" by (simp add: S) (simp add: s1_def)
  ultimately show ?thesis by (simp add: st e flip: c_def)
qed

text \<open>Waking a thread that waits takes it off the list of waiters of its process.\<close>

definition clear_wait :: "u32 \<Rightarrow> 'a sched_scheme \<Rightarrow> 'a sched_scheme" where
  "clear_wait t s = upd_thread t (\<lambda>r. r\<lparr>wait_kind := WAIT_NONE, wait_target_pid := 0, wait_owner := 0, wait_next := 0\<rparr>) s"

definition unlinked :: "u32 \<Rightarrow> u32 \<Rightarrow> u32 list \<Rightarrow> 'a sched_scheme \<Rightarrow> 'a sched_scheme \<Rightarrow> bool" where
  "unlinked t p ws s s' \<longleftrightarrow>
     (\<exists>vs. ws = t # vs \<and> s' = upd_process p (\<lambda>r. r\<lparr>waiters := wait_next (threads s t)\<rparr>) s) \<or>
     (\<exists>xs a vs. ws = xs @ a # t # vs \<and> s' = upd_thread a (\<lambda>r. r\<lparr>wait_next := wait_next (threads s t)\<rparr>) s)"

lemma wake_blocked_eq:
  assumes q: "waitq s p ws" and t: "t \<in> set ws" "t_state (threads s t) = THREAD_BLOCKED" "wait_owner (threads s t) = p" "p \<noteq> 0"
  shows "\<exists>s2. unlinked t p ws (upd_thread t (\<lambda>r. r\<lparr>t_state := THREAD_RUNNABLE\<rparr>) s) s2 \<and>
           sched_wake_thread t s = Some (clear_wait t s2)"
proof -
  let ?s = "upd_thread t (\<lambda>r. r\<lparr>t_state := THREAD_RUNNABLE\<rparr>) s"
  have l: "list_at (wait_nx ?s) (ptr (waiters (processes ?s p))) ws" and nz: "0 \<notin> set ws" using q by (simp_all add: waitq_def)
  have t0: "t \<noteq> 0" using nz t(1) by auto
  obtain us vs where ws: "ws = us @ t # vs" "t \<notin> set us" using split_list_first [OF t(1)] by metis
  show ?thesis
  proof (cases us rule: rev_cases)
    case Nil
    then have "waiters (processes s p) = t" using l ws by simp
    then show ?thesis using t t0 ws Nil by (auto simp: sched_wake_thread_def Let_def unlinked_def clear_wait_def)
  next
    case (snoc xs a)
    then have e: "ws = xs @ a # t # vs" using ws by simp
    have "waiters (processes s p) \<noteq> t" using l ws snoc by (cases xs) auto
    moreover have "(\<lambda>x. wait_next (threads ?s x) = t) = (\<lambda>x. wait_nx ?s x = Some t)" using t0 by auto
    then have "walk_until (\<lambda>x. wait_next (threads ?s x) = t) (wait_nx ?s) (ptr (waiters (processes s p))) = Some (Some a)"
      using walk_until_find [OF l] list_at_find_prev [OF l [unfolded e]] e by simp
    ultimately have "sched_wake_thread t s = Some (clear_wait t (upd_thread a (\<lambda>r. r\<lparr>wait_next := wait_next (threads ?s t)\<rparr>) ?s))"
      using t t0 by (simp add: sched_wake_thread_def Let_def clear_wait_def)
    then show ?thesis unfolding unlinked_def using e by blast
  qed
qed

lemma unlinked_keeps:
  assumes "unlinked t p ws s s'"
  shows "thread_head s' = thread_head s" "thread_current s' = thread_current s" "thread_sleep_head s' = thread_sleep_head s"
    "rq_next (threads s' u) = rq_next (threads s u)" "sleep_next (threads s' u) = sleep_next (threads s u)"
    "t_state (threads s' u) = t_state (threads s u)" "t_proc (threads s' u) = t_proc (threads s u)"
    "t_slot_inuse (threads s' u) = t_slot_inuse (threads s u)" "wake_tick (threads s' u) = wake_tick (threads s u)"
    "wait_owner (threads s' u) = wait_owner (threads s u)"
  using assms by (auto simp: unlinked_def)

lemma waitq_clear:
  assumes "t \<notin> set ws"
  shows "waitq (clear_wait t s) p ws = waitq s p ws"
proof -
  have "list_at (wait_nx (clear_wait t s)) h ws = list_at (wait_nx s) h ws" for h
    using assms by (intro list_at_cong) (auto simp: clear_wait_def threads_upd)
  then show ?thesis by (simp add: waitq_def clear_wait_def)
qed

lemma waitq_unlinked:
  assumes u: "unlinked t p ws s s'" and q: "waitq s p ws"
  shows "waitq s' p (remove1 t ws)" "q \<noteq> p \<Longrightarrow> waitq s q vs \<Longrightarrow> set ws \<inter> set vs = {} \<Longrightarrow> waitq s' q vs"
proof -
  have d: "distinct ws" and l: "list_at (wait_nx s) (ptr (waiters (processes s p))) ws" and nz: "0 \<notin> set ws"
    using q list_at_distinct by (auto simp: waitq_def)
  consider (head) ys where "ws = t # ys" "s' = upd_process p (\<lambda>r. r\<lparr>waiters := wait_next (threads s t)\<rparr>) s"
    | (mid) xs a ys where "ws = xs @ a # t # ys" "s' = upd_thread a (\<lambda>r. r\<lparr>wait_next := wait_next (threads s t)\<rparr>) s"
    using u unfolding unlinked_def by blast
  then have "waitq s' p (remove1 t ws) \<and> (q \<noteq> p \<longrightarrow> waitq s q vs \<longrightarrow> set ws \<inter> set vs = {} \<longrightarrow> waitq s' q vs)"
  proof cases
    case head
    then show ?thesis using l nz by (auto simp: waitq_def)
  next
    case mid
    have r: "remove1 t ws = xs @ a # ys" using mid(1) d by (auto simp: remove1_append)
    have "list_at (wait_nx s') (ptr (waiters (processes s p))) (xs @ a # ys)"
      using wq.delete_after [of s _ xs a t ys "wait_next (threads s t)"] l mid by simp
    moreover have "a \<notin> set vs \<Longrightarrow> list_at (wait_nx s') h vs = list_at (wait_nx s) h vs" for h
      using wq.list_at_reset [of a vs "wait_next (threads s t)" s h] mid(2) by simp
    ultimately show ?thesis using nz r mid by (auto simp: waitq_def)
  qed
  then show "waitq s' p (remove1 t ws)" "q \<noteq> p \<Longrightarrow> waitq s q vs \<Longrightarrow> set ws \<inter> set vs = {} \<Longrightarrow> waitq s' q vs" by auto
qed

lemma sched_wake_blocked:
  assumes i: "sched_inv ts zs s" and t: "t \<in> set ts" "t_state (threads s t) = THREAD_BLOCKED"
  shows "\<exists>s'. sched_wake_thread t s = Some s' \<and> sched_inv ts zs s' \<and> thread_current s' = thread_current s \<and>
    (\<forall>u. t_state (threads s' u) = (if u = t then THREAD_RUNNABLE else t_state (threads s u)))"
proof -
  note I = sched_invD [OF i]
  define p where "p = t_proc (threads s t)"
  define s1 where "s1 = upd_thread t (\<lambda>r. r\<lparr>t_state := THREAD_RUNNABLE\<rparr>) s"
  obtain ws where ws: "waitq s p ws" "set ws = {u \<in> set ts. t_state (threads s u) = THREAD_BLOCKED \<and> t_proc (threads s u) = p}"
    using I(11) [OF t(1)] unfolding p_def by blast
  have tw: "t \<in> set ws" using ws(2) t p_def by simp
  obtain s2 where s2: "unlinked t p ws s1 s2" "sched_wake_thread t s = Some (clear_wait t s2)"
    using wake_blocked_eq [OF ws(1) tw t(2)] I(7,9) t by (auto simp: s1_def p_def)
  let ?s = "clear_wait t s2"
  note U = unlinked_keeps [OF s2(1)]
  have f: "t_proc (threads ?s u) = t_proc (threads s u)" "t_slot_inuse (threads ?s u) = t_slot_inuse (threads s u)"
    "rq_next (threads ?s u) = rq_next (threads s u)" "sleep_next (threads ?s u) = sleep_next (threads s u)"
    "wake_tick (threads ?s u) = wake_tick (threads s u)" for u
    by (simp_all add: clear_wait_def U) (simp_all add: s1_def)
  have st: "t_state (threads ?s u) = (if u = t then THREAD_RUNNABLE else t_state (threads s u))"
    "wait_owner (threads ?s u) = (if u = t then 0 else wait_owner (threads s u))" for u
    by (simp_all add: clear_wait_def U threads_upd) (simp_all add: s1_def threads_upd U)
  have h: "thread_head ?s = thread_head s" "thread_current ?s = thread_current s" "thread_sleep_head ?s = thread_sleep_head s"
    by (simp_all add: clear_wait_def U) (simp_all add: s1_def)
  have w1: "waitq s1 q vs = waitq s q vs" for q vs by (simp add: waitq_def s1_def)
  have wq: "\<exists>vs. waitq ?s q vs \<and> set vs = {u \<in> set ts. t_state (threads ?s u) = THREAD_BLOCKED \<and> t_proc (threads s u) = q}"
    if q: "q \<in> (\<lambda>u. t_proc (threads s u)) ` set ts" for q
  proof (cases "q = p")
    case True
    have d: "distinct ws" using ws(1) list_at_distinct by (auto simp: waitq_def)
    have "waitq s2 p (remove1 t ws)" using waitq_unlinked(1) [OF s2(1)] ws(1) w1 by simp
    then have "waitq ?s p (remove1 t ws)" using waitq_clear [of t "remove1 t ws" s2 p] d by simp
    moreover have "set (remove1 t ws) = {u \<in> set ts. t_state (threads ?s u) = THREAD_BLOCKED \<and> t_proc (threads s u) = q}"
      using d ws(2) True by (auto simp: st)
    ultimately show ?thesis using True by blast
  next
    case False
    obtain vs where vs: "waitq s q vs" "set vs = {u \<in> set ts. t_state (threads s u) = THREAD_BLOCKED \<and> t_proc (threads s u) = q}"
      using I(11) q by blast
    have tv: "t \<notin> set vs" and dj: "set ws \<inter> set vs = {}" using vs(2) ws(2) False p_def by auto
    have "waitq s2 q vs" using waitq_unlinked(2) [OF s2(1) _ False _ dj] ws(1) vs(1) w1 by simp
    then have "waitq ?s q vs" using waitq_clear [OF tv, of s2 q] by simp
    moreover have "set vs = {u \<in> set ts. t_state (threads ?s u) = THREAD_BLOCKED \<and> t_proc (threads s u) = q}"
      using vs(2) tv by (auto simp: st)
    ultimately show ?thesis by blast
  qed
  have "waiters_ok ts ?s" unfolding waiters_ok_def f using wq I(9) by (simp add: st)
  moreover have "runq ?s ts" "sleepq ?s zs" using I(1,3) by (simp_all add: runq_def sleepq_def f h)
  moreover have "set zs = {u \<in> set ts. t_state (threads ?s u) = THREAD_SLEEPING}" using I(4) t by (auto simp: st)
  moreover have "\<forall>u \<in> set ts. t_state (threads ?s u) = THREAD_RUNNING \<longrightarrow> u = thread_current s" using I(8) by (simp add: st)
  ultimately have "sched_inv ts zs ?s" unfolding sched_inv_def f h using I(2,6,7) by blast
  then show ?thesis using s2(2) st h by blast
qed

lemma sched_wake_sleeping:
  assumes i: "sched_inv ts zs s" and t: "t \<in> set ts" "t_state (threads s t) = THREAD_SLEEPING"
  shows "\<exists>s'. sched_wake_thread t s = Some s' \<and> sched_inv ts (remove1 t zs) s' \<and> thread_current s' = thread_current s \<and>
    (\<forall>u. t_state (threads s' u) = (if u = t then THREAD_RUNNABLE else t_state (threads s u)))"
proof -
  note I = sched_invD [OF i]
  define s1 where "s1 = upd_thread t (\<lambda>r. r\<lparr>t_state := THREAD_RUNNABLE\<rparr>) s"
  have t0: "t \<noteq> 0" using t I(5) by auto
  have "sleepq s1 zs" using I(3) by (simp add: sleepq_def s1_def)
  then obtain s2 where s2: "sleepq_remove t s1 = Some s2" "sleep_only s1 s2" "sleepq s2 (remove1 t zs)"
    using sleepq_remove_spec t0 by blast
  note S = sleep_onlyD [OF s2(2)]
  have st: "t_state (threads s2 u) = (if u = t then THREAD_RUNNABLE else t_state (threads s u))"
    "t_proc (threads s2 u) = t_proc (threads s u)" "t_slot_inuse (threads s2 u) = t_slot_inuse (threads s u)"
    "wait_owner (threads s2 u) = wait_owner (threads s u)" "wait_next (threads s2 u) = wait_next (threads s u)"
    "rq_next (threads s2 u) = rq_next (threads s u)" for u
    by (simp_all add: S) (simp_all add: s1_def threads_upd)
  have e: "thread_head s2 = thread_head s" "processes s2 = processes s" "thread_current s2 = thread_current s"
    by (simp_all add: S) (simp_all add: s1_def)
  have d: "distinct zs" using I(3) list_at_distinct by (auto simp: sleepq_def)
  have "waiters_ok ts s2" using I(10) t by (subst waiters_ok_cong [of s2 s]) (auto simp: st e)
  moreover have "runq s2 ts" using I(1) by (simp add: runq_def st e)
  moreover have "set (remove1 t zs) = {u \<in> set ts. t_state (threads s2 u) = THREAD_SLEEPING}" using I(4) d by (auto simp: st)
  moreover have "\<forall>u \<in> set ts. t_state (threads s2 u) = THREAD_RUNNING \<longrightarrow> u = thread_current s" using I(8) by (simp add: st)
  ultimately have "sched_inv ts (remove1 t zs) s2"
    unfolding sched_inv_def st(2,3) e(3) using s2(3) I(2,6,7) by blast
  moreover have "sched_wake_thread t s = Some s2" using t t0 s2(1) by (simp add: sched_wake_thread_def s1_def)
  ultimately show ?thesis using st e by blast
qed

lemma sched_wake_spec:
  assumes i: "sched_inv ts zs s" and t: "t \<in> set ts"
  shows "\<exists>s' zs'. sched_wake_thread t s = Some s' \<and> sched_inv ts zs' s' \<and> thread_current s' = thread_current s \<and>
    (\<forall>u. t_state (threads s' u) =
       (if u = t \<and> t_state (threads s t) \<in> {THREAD_SLEEPING, THREAD_BLOCKED} then THREAD_RUNNABLE else t_state (threads s u)))"
proof -
  consider "t_state (threads s t) = THREAD_SLEEPING" | "t_state (threads s t) = THREAD_BLOCKED"
    | (no) "t_state (threads s t) \<notin> {THREAD_SLEEPING, THREAD_BLOCKED}" by auto
  then show ?thesis
  proof cases
    case 1
    then show ?thesis using sched_wake_sleeping [OF i t] by auto
  next
    case 2
    then show ?thesis using sched_wake_blocked [OF i t] by auto
  next
    case no
    then have "sched_wake_thread t s = Some s"
      by (cases "t_state (threads s t)") (simp_all add: sched_wake_thread_def)
    then show ?thesis using no i by auto
  qed
qed

section \<open>Runs of the scheduler\<close>

text \<open>
  What happens between two switches, as long as no thread is created and none exits: the timer ticks, the
  current thread yields, waits or goes to sleep, and threads are woken. Only a thread that runs can wait or sleep.
\<close>

inductive sched_op :: "u32 list \<Rightarrow> 'a sched_scheme \<Rightarrow> 'a sched_scheme \<Rightarrow> bool" for ts where
  tick: "sched_on_tick (s\<lparr>ticks := ticks s + 1\<rparr>) = Some s' \<Longrightarrow> sched_op ts s s'"
| yield: "sched_op ts s (sched_thread_yield s)"
| block: "thread_current s \<noteq> 0 \<Longrightarrow> t_state (threads s (thread_current s)) = THREAD_RUNNING \<Longrightarrow>
    sched_op ts s (sched_block_current_locked k g s)"
| sleep: "thread_current s \<noteq> 0 \<Longrightarrow> t_state (threads s (thread_current s)) = THREAD_RUNNING \<Longrightarrow>
    sched_thread_sleep n s = Some s' \<Longrightarrow> sched_op ts s s'"
| wake: "t \<in> set ts \<Longrightarrow> sched_wake_thread t s = Some s' \<Longrightarrow> sched_op ts s s'"

inductive sched_step :: "u32 list \<Rightarrow> 'a sched_scheme \<Rightarrow> 'a sched_scheme \<Rightarrow> bool" for ts where
  op: "sched_op ts s s' \<Longrightarrow> sched_step ts s s'"
| switch: "sched_do_switch esp s = Some (esp', s') \<Longrightarrow> sched_step ts s s'"

text \<open>A run in which \<open>n\<close> switches pass over the thread \<open>t\<close>.\<close>

inductive passed :: "u32 list \<Rightarrow> u32 \<Rightarrow> nat \<Rightarrow> 'a sched_scheme \<Rightarrow> 'a sched_scheme \<Rightarrow> bool" for ts t where
  start: "passed ts t 0 s s"
| other: "passed ts t n s s' \<Longrightarrow> sched_op ts s' s'' \<Longrightarrow> passed ts t n s s''"
| pass: "passed ts t n s s' \<Longrightarrow> sched_do_switch esp s' = Some (esp', s'') \<Longrightarrow> thread_current s'' \<noteq> t \<Longrightarrow>
    passed ts t (Suc n) s s''"

lemma sched_op_spec:
  assumes i: "sched_inv ts zs s" and o: "sched_op ts s s'"
  shows "(\<exists>zs'. sched_inv ts zs' s') \<and> thread_current s' = thread_current s \<and>
    (\<forall>t. t_state (threads s t) = THREAD_RUNNABLE \<longrightarrow> t_state (threads s' t) = THREAD_RUNNABLE)"
  using o
proof cases
  case tick
  let ?s = "s\<lparr>ticks := ticks s + 1\<rparr>"
  obtain s1 where s1: "woken (set (due ?s zs)) ?s s1" "sched_inv ts (drop (length (due ?s zs)) zs) s1"
    "\<exists>n b. s' = s1\<lparr>rr_ticks_left := n, sched_pending := b\<rparr>"
    using sched_on_tick_eq [of ts zs ?s] i tick by auto
  then show ?thesis using wokenD [OF s1(1)] by (auto simp del: sched_inv_flags simp: sched_inv_flags)
next
  case yield
  then show ?thesis using i by (auto simp: sched_thread_yield_def)
next
  case (block k g)
  then show ?thesis using sched_inv_block [OF i]
    by (auto simp: sched_block_current_locked_eq [OF refl block(2)] threads_upd)
next
  case (sleep n)
  then show ?thesis using sched_thread_sleep_spec [OF i sleep(1,2), of n] by auto
next
  case (wake t)
  then show ?thesis using sched_wake_spec [OF i wake(1)] by auto
qed

lemma sched_step_inv:
  assumes "sched_inv ts zs s" "sched_step ts s s'"
  shows "\<exists>zs'. sched_inv ts zs' s'"
  using assms(2)
proof cases
  case op
  then show ?thesis using sched_op_spec [OF assms(1)] by blast
next
  case (switch esp esp')
  then show ?thesis using sched_inv_switch [OF assms(1), of esp] by auto
qed

text \<open>How many threads are visited between \<open>c\<close> and \<open>t\<close>.\<close>

definition ring_dist :: "u32 \<Rightarrow> u32 \<Rightarrow> u32 list \<Rightarrow> nat" where
  "ring_dist c t ts = length (takeWhile (\<lambda>x. x \<noteq> t) (ring_after c ts))"

lemma ring_after_rotate:
  assumes "distinct (xs @ ys)" "c \<in> set (xs @ ys)"
  shows "ring_after c (ys @ xs) = ring_after c (xs @ ys)"
proof (cases "c \<in> set xs")
  case True
  then obtain us vs where u: "xs = us @ c # vs" using split_list by metis
  then show ?thesis using assms ring_after_split [of c "ys @ us" vs] ring_after_split [of c us "vs @ ys"] by auto
next
  case False
  then obtain us vs where u: "ys = us @ c # vs" using assms(2) split_list by fastforce
  then show ?thesis using assms ring_after_split [of c us "vs @ xs"] ring_after_split [of c "xs @ us" vs] by auto
qed

lemma ring_after_again:
  assumes "distinct ts" "u \<in> set ts"
  shows "ring_after u (ring_after c ts) = ring_after u ts"
proof (cases "c \<in> set ts")
  case True
  then obtain xs ys where t: "ts = xs @ c # ys" "c \<notin> set xs" using split_list_first by metis
  then show ?thesis using ring_after_rotate [of "xs @ [c]" ys u] assms by (simp add: ring_after_split)
qed (simp add: ring_after_notin)

lemma length_ring_after [simp]: "distinct ts \<Longrightarrow> length (ring_after c ts) = length ts"
proof (cases "c \<in> set ts")
  case True
  then obtain xs ys where "ts = xs @ c # ys" "c \<notin> set xs" using split_list_first by metis
  then show ?thesis by (simp add: ring_after_split)
qed (simp add: ring_after_notin)

lemma takeWhile_neq: "t \<notin> set A \<Longrightarrow> takeWhile (\<lambda>x. x \<noteq> t) (A @ t # B) = A"
  by (induction A) auto

lemma ring_dist_less:
  assumes "distinct ts" "t \<in> set ts"
  shows "ring_dist c t ts < length ts"
proof -
  have "t \<in> set (ring_after c ts)" using assms by simp
  then obtain A B where "ring_after c ts = A @ t # B" "t \<notin> set A" using split_list_first by metis
  then show ?thesis using length_ring_after [OF assms(1), of c] by (simp add: ring_dist_def takeWhile_neq)
qed

lemma ring_dist_decreases:
  assumes d: "distinct ts" "t \<in> set ts" and u: "u \<in> set (takeWhile (\<lambda>x. x \<noteq> t) (ring_after c ts))"
  shows "ring_dist u t ts < ring_dist c t ts"
proof -
  have "t \<in> set (ring_after c ts)" using d by simp
  then obtain A B where R: "ring_after c ts = A @ t # B" "t \<notin> set A" using split_list_first by metis
  then have tw: "takeWhile (\<lambda>x. x \<noteq> t) (ring_after c ts) = A" by (simp add: takeWhile_neq)
  then obtain A1 A2 where A: "A = A1 @ u # A2" "u \<notin> set A1" using u split_list_first by metis
  have "u \<in> set (ring_after c ts)" using R(1) A(1) by simp
  then have "ring_after u ts = ring_after u (ring_after c ts)" using ring_after_again [OF d(1), of u c] by simp
  also have "\<dots> = A2 @ t # B @ A1 @ [u]" using R(1) A ring_after_split [of u A1 "A2 @ t # B"] by simp
  finally have "ring_dist u t ts = length A2" using R(2) A by (simp add: ring_dist_def takeWhile_neq)
  then show ?thesis using tw A by (simp add: ring_dist_def)
qed

lemma pick_before:
  assumes "t \<in> set R" "t_state (threads s t) = THREAD_RUNNABLE" "pick s R \<noteq> t"
  shows "pick s R \<in> set (takeWhile (\<lambda>x. x \<noteq> t) R)"
  using assms by (induction R) (auto simp: pick_def)

definition ex_thread :: thread where
  "ex_thread = \<lparr>t_slot_inuse = True, t_slot_id = 0, generation_id = 0, tid = 0, t_state = THREAD_RUNNABLE, t_proc = 0x8000,
     saved_esp = 0, kstack_base = 0, kstack_top = 0, wake_tick = 0, t_exit_code = 0, entry = 0, wait_kind = WAIT_NONE,
     wait_target_pid = 0, wait_owner = 0, wait_next = 0, rq_next = 0, sleep_next = 0, threadlist_next = 0\<rparr>"

definition ex_process :: process where
  "ex_process = \<lparr>p_slot_inuse = True, p_slot_id = 0, pid = 0, ppid = 0, p_state = PROC_ALIVE, live_thread_count = 0,
     p_exit_code = 0, p_context = CTX_USER, comm = [], parent = 0, first_child = 0, next_sibling = 0, main_thread = 0,
     thread_list = 0, waiters = 0, addr_space = 0, fd_list = 0, fd_count = 0\<rparr>"

text \<open>Three threads of one process in the run queue; the first runs, the second can run, the third sleeps until tick 5.\<close>

definition ex_threads :: "u32 \<Rightarrow> thread" where
  "ex_threads = (\<lambda>_. ex_thread)
     (0x1000 := ex_thread\<lparr>t_state := THREAD_RUNNING, rq_next := 0x2000\<rparr>,
      0x2000 := ex_thread\<lparr>rq_next := 0x3000, saved_esp := 0x500\<rparr>,
      0x3000 := ex_thread\<lparr>t_state := THREAD_SLEEPING, wake_tick := 5, rq_next := 0x1000\<rparr>)"

definition ex_sched :: sched where
  "ex_sched = trap.extend ex_trap
     (sched.fields 10 0xC1000000 2 0xC1010000 2 ex_threads (\<lambda>_. ex_process) 0x1000 0x1000 0x3000 False 1 4 0 0 0 0)"

lemma ex_sched_fields [simp]:
  "threads ex_sched = ex_threads" "processes ex_sched = (\<lambda>_. ex_process)" "thread_head ex_sched = 0x1000"
  "thread_current ex_sched = 0x1000" "thread_sleep_head ex_sched = 0x3000" "ticks ex_sched = 4"
  "rr_ticks_left ex_sched = 10" "sched_pending ex_sched = False"
  by (simp_all add: ex_sched_def trap.defs sched.defs)

lemma ex_sched_inv: "sched_inv [0x1000, 0x2000, 0x3000] [0x3000] ex_sched"
proof -
  have st: "t_state (ex_threads 0x1000) = THREAD_RUNNING" "t_state (ex_threads 0x2000) = THREAD_RUNNABLE"
    "t_state (ex_threads 0x3000) = THREAD_SLEEPING" "rq_next (ex_threads 0x1000) = 0x2000" "rq_next (ex_threads 0x2000) = 0x3000"
    "rq_next (ex_threads 0x3000) = 0x1000" "sleep_next (ex_threads 0x3000) = 0" "t_slot_inuse (ex_threads t)"
    "t_proc (ex_threads t) = 0x8000" for t
    by (simp_all add: ex_threads_def ex_thread_def)
  have "runq ex_sched [0x1000, 0x2000, 0x3000]" "sleepq ex_sched [0x3000]" by (simp_all add: runq_def ring_def sleepq_def st)
  moreover have "waiters_ok [0x1000, 0x2000, 0x3000] ex_sched"
    by (auto simp: waiters_ok_def waitq_def ex_process_def st)
  moreover have "{t \<in> set [0x1000, 0x2000, 0x3000]. t_state (ex_threads t) = THREAD_SLEEPING} = set [0x3000]" by (auto simp: st)
  ultimately show ?thesis unfolding sched_inv_def by (simp only: ex_sched_fields) (simp add: st)
qed

lemma passed_over:
  assumes i: "sched_inv ts zs s" and t: "t \<in> set ts" "t_state (threads s t) = THREAD_RUNNABLE"
    and sw: "sched_do_switch esp s = Some (esp', s')" "thread_current s' \<noteq> t"
  shows "thread_current s' \<in> set (takeWhile (\<lambda>x. x \<noteq> t) (ring_after (thread_current s) ts))"
    "t_state (threads s' t) = THREAD_RUNNABLE" "\<exists>zs'. sched_inv ts zs' s'"
proof -
  let ?p = "park esp s"
  have s': "s' = snd (run_thread (pick ?p (ring_after (thread_current s) ts)) esp ?p)"
    using sched_do_switch_eq [OF sched_invD(1,2) [OF i], of esp] sw(1) by (metis option.inject snd_conv)
  then show "thread_current s' \<in> set (takeWhile (\<lambda>x. x \<noteq> t) (ring_after (thread_current s) ts))"
    "t_state (threads s' t) = THREAD_RUNNABLE"
    using pick_before [of t _ ?p] sw(2) t by (simp_all add: t_state_park)
  show "\<exists>zs'. sched_inv ts zs' s'" using sched_inv_switch [OF i, of esp] sw(1) by auto
qed


section \<open>Properties\<close>

text \<open>
  (C25) The invariant holds in every state that the operations of the scheduler reach from a state in which it
  holds: the run queue stays a ring of the same threads, only the current thread is marked as running, the sleep
  queue holds exactly the sleeping threads in the order of their wake-up, and the waiters of every process
  are exactly its threads that wait. In each such state every operation returns.
\<close>

theorem sched_inv_reachable:
  assumes "sched_inv ts zs s" "(sched_step ts)\<^sup>*\<^sup>* s s'"
  shows "\<exists>zs'. sched_inv ts zs' s' \<and> (\<forall>esp. sched_do_switch esp s' \<noteq> None) \<and> sched_on_tick s' \<noteq> None \<and>
    (\<forall>t \<in> set ts. sched_wake_thread t s' \<noteq> None) \<and>
    (\<forall>n. thread_current s' \<noteq> 0 \<longrightarrow> t_state (threads s' (thread_current s')) = THREAD_RUNNING \<longrightarrow> sched_thread_sleep n s' \<noteq> None)"
proof -
  have "\<exists>zs'. sched_inv ts zs' s'" using assms(2,1) by (induction) (auto dest: sched_step_inv)
  then obtain zs' where i: "sched_inv ts zs' s'" by blast
  have "\<forall>esp. sched_do_switch esp s' \<noteq> None" using sched_inv_switch [OF i] by (metis option.distinct(1))
  moreover have "sched_on_tick s' \<noteq> None" using sched_on_tick_eq [OF i] by auto
  moreover have "\<forall>t \<in> set ts. sched_wake_thread t s' \<noteq> None" using sched_wake_spec [OF i] by (metis option.distinct(1))
  moreover have "\<forall>n. thread_current s' \<noteq> 0 \<longrightarrow> t_state (threads s' (thread_current s')) = THREAD_RUNNING \<longrightarrow> sched_thread_sleep n s' \<noteq> None"
    using sched_thread_sleep_spec [OF i] by (metis option.distinct(1))
  ultimately show ?thesis using i by blast
qed

theorem sched_inv_reachable_witness:
  "\<exists>zs'. sched_inv [0x1000, 0x2000, 0x3000] zs' (sched_block_current_locked WAIT_ANY 0 ex_sched) \<and>
     sched_on_tick (sched_block_current_locked WAIT_ANY 0 ex_sched) \<noteq> None"
proof -
  have "t_state (ex_threads 0x1000) = THREAD_RUNNING" by (simp add: ex_threads_def)
  then have "sched_step [0x1000, 0x2000, 0x3000] ex_sched (sched_block_current_locked WAIT_ANY 0 ex_sched)"
    by (intro sched_step.op sched_op.block) simp_all
  then show ?thesis using sched_inv_reachable [OF ex_sched_inv r_into_rtranclp] by blast
qed

text \<open>
  (C24) Scheduling is fair. A thread that can run is passed over by fewer switches than the run queue has threads,
  whatever the other threads do in between: ticks, waits, sleeps and wake-ups. The switch after the last of
  them runs it, and until then it stays able to run.
\<close>

theorem sched_switch_fair:
  assumes "sched_inv ts zs s" "t \<in> set ts" "t_state (threads s t) = THREAD_RUNNABLE" "passed ts t n s s'"
  shows "n < length ts \<and> t_state (threads s' t) = THREAD_RUNNABLE \<and>
    (\<exists>esp' s''. sched_do_switch esp s' = Some (esp', s'') \<and> (thread_current s'' = t \<or> n + 1 < length ts))"
proof -
  have d: "distinct ts" using assms(1,2) runq_ring by (fastforce simp: sched_inv_def ring_def)
  have "(\<exists>zs'. sched_inv ts zs' s') \<and> t_state (threads s' t) = THREAD_RUNNABLE \<and>
    n + ring_dist (thread_current s') t ts \<le> ring_dist (thread_current s) t ts"
    using assms(4,1,3)
  proof induction
    case (other n s s' s'')
    then show ?case using sched_op_spec by metis
  next
    case (pass n s s' esp esp' s'')
    then obtain zs' where i: "sched_inv ts zs' s'" and r: "t_state (threads s' t) = THREAD_RUNNABLE" by auto
    note p = passed_over [OF i assms(2) r pass(2) pass(3)]
    have "ring_dist (thread_current s'') t ts < ring_dist (thread_current s') t ts"
      by (rule ring_dist_decreases [OF d assms(2) p(1)])
    then show ?case using pass.IH pass.prems p(2,3) by auto
  qed auto
  then obtain zs' where i: "sched_inv ts zs' s'" and r: "t_state (threads s' t) = THREAD_RUNNABLE"
    and n: "n + ring_dist (thread_current s') t ts \<le> ring_dist (thread_current s) t ts" by blast
  obtain esp' s'' where sw: "sched_do_switch esp s' = Some (esp', s'')" using sched_inv_switch [OF i, of esp] by blast
  have "ring_dist (thread_current s') t ts > 0" if "thread_current s'' \<noteq> t"
    using ring_dist_decreases [OF d assms(2) passed_over(1) [OF i assms(2) r sw that]] by simp
  then show ?thesis using n r sw ring_dist_less [OF d assms(2), of "thread_current s"] by fastforce
qed

theorem sched_switch_fair_witness:
  "passed [0x1000, 0x2000, 0x3000] 0x2000 0 ex_sched (sched_block_current_locked WAIT_ANY 0 ex_sched) \<and>
   t_state (threads (sched_block_current_locked WAIT_ANY 0 ex_sched) 0x2000) = THREAD_RUNNABLE"
proof -
  have st: "t_state (ex_threads 0x1000) = THREAD_RUNNING" "t_state (ex_threads 0x2000) = THREAD_RUNNABLE"
    by (simp_all add: ex_threads_def ex_thread_def)
  then have p: "passed [0x1000, 0x2000, 0x3000] 0x2000 0 ex_sched (sched_block_current_locked WAIT_ANY 0 ex_sched)"
    by (intro passed.other [OF passed.start] sched_op.block) simp_all
  then show ?thesis using sched_switch_fair [OF ex_sched_inv _ _ p] st by simp
qed

lemma can_run_park:
  assumes "0 \<notin> set ts"
  shows "pick (park esp s) (ring_after (thread_current s) ts) =
    (case find (\<lambda>t. t_state (threads s t) = THREAD_RUNNABLE \<or> t = thread_current s \<and> t_state (threads s t) = THREAD_RUNNING)
       (ring_after (thread_current s) ts) of None \<Rightarrow> 0 | Some t \<Rightarrow> t)"
proof -
  have "find (\<lambda>t. t_state (threads (park esp s) t) = THREAD_RUNNABLE) (ring_after (thread_current s) ts) =
    find (\<lambda>t. t_state (threads s t) = THREAD_RUNNABLE \<or> t = thread_current s \<and> t_state (threads s t) = THREAD_RUNNING)
       (ring_after (thread_current s) ts)"
    using assms by (intro find_cong) (auto simp: t_state_park)
  then show ?thesis by (simp add: pick_def)
qed

lemma mm_switch_cr3: "m \<noteq> 0 \<Longrightarrow> cr3 (mm_switch m s) AND 0xFFFFF000 = cr3_phys (mms s m) AND 0xFFFFF000"
  by (simp add: mm_switch_def)

text \<open>
  (C26) A switch stores the stack pointer it is given in the current thread and runs the first thread that can
  run in the order of the run queue after the current one, the current one last; it returns the stack pointer
  stored in that thread, and loads its kernel stack and its address space. A thread that was running stays able to run.
  If no thread can run there is no current thread and the stack stays.
\<close>

theorem sched_do_switch_correct:
  fixes s :: "'a sched_scheme"
  assumes "sched_inv ts zs s"
  defines "c \<equiv> thread_current s"
  defines "u \<equiv> case find (\<lambda>t. t_state (threads s t) = THREAD_RUNNABLE \<or> t = c \<and> t_state (threads s t) = THREAD_RUNNING)
    (ring_after c ts) of None \<Rightarrow> 0 | Some t \<Rightarrow> t"
  shows "\<exists>s'. sched_do_switch esp s = Some (if u = 0 then esp else saved_esp (threads s' u), s') \<and> thread_current s' = u \<and>
    (\<forall>t. saved_esp (threads s' t) = (if t = c \<and> t \<noteq> 0 then esp else saved_esp (threads s t))) \<and>
    (\<forall>t. t_state (threads s' t) = (if t = u \<and> u \<noteq> 0 then THREAD_RUNNING
       else if t = c \<and> c \<noteq> 0 \<and> t_state (threads s t) = THREAD_RUNNING then THREAD_RUNNABLE else t_state (threads s t))) \<and>
    (u \<noteq> 0 \<longrightarrow> tss_esp0 s' = kstack_top (threads s u) \<and>
       (let m = addr_space (processes s (t_proc (threads s u)))
        in m \<noteq> 0 \<longrightarrow> cr3 s' AND 0xFFFFF000 = cr3_phys (mms s m) AND 0xFFFFF000))"
proof -
  let ?p = "park esp s"
  let ?r = "run_thread u esp ?p"
  have u: "pick ?p (ring_after c ts) = u"
    using can_run_park [OF sched_invD(5) [OF assms(1)], of esp] by (simp add: u_def c_def)
  have eq: "sched_do_switch esp s = Some ?r"
    using sched_do_switch_eq [OF sched_invD(1,2) [OF assms(1)], of esp] u by (simp add: c_def)
  have "u \<noteq> 0 \<Longrightarrow> tss_esp0 (snd ?r) = kstack_top (threads s u)"
    by (simp add: run_thread_def Let_def sched_set_tss_esp0_def)
  moreover have "mms ?p = mms s" by (simp add: park_def Let_def)
  then have "u \<noteq> 0 \<Longrightarrow> addr_space (processes s (t_proc (threads s u))) \<noteq> 0 \<Longrightarrow>
      cr3 (snd ?r) AND 0xFFFFF000 = cr3_phys (mms s (addr_space (processes s (t_proc (threads s u))))) AND 0xFFFFF000"
    by (simp add: run_thread_def Let_def sched_set_tss_esp0_def mm_switch_cr3)
  moreover have "fst ?r = (if u = 0 then esp else saved_esp (threads (snd ?r) u))" by simp
  ultimately show ?thesis
    unfolding eq by (intro exI [of _ "snd ?r"]) (auto simp: prod_eq_iff Let_def saved_esp_park t_state_park c_def)
qed

theorem sched_do_switch_correct_witness:
  "\<exists>s'. sched_do_switch 0x700 ex_sched = Some (0x500, s') \<and> thread_current s' = 0x2000 \<and> saved_esp (threads s' 0x1000) = 0x700"
proof -
  have "ring_after 0x1000 [0x1000, 0x2000, 0x3000] = [0x2000, 0x3000, 0x1000 :: u32]" by (simp add: ring_after_def)
  then show ?thesis using sched_do_switch_correct [OF ex_sched_inv, of "0x700"]
    by (auto simp: ex_threads_def ex_thread_def)
qed

lemma set_due:
  assumes "sleepq s zs"
  shows "set (due s zs) = {t \<in> set zs. ucast (wake_tick (threads s t)) \<le> ticks s}"
proof -
  have "sorted (map (\<lambda>t. wake_tick (threads s t)) zs)" using assms by (simp add: sleepq_def)
  then show ?thesis unfolding due_def
  proof (induction zs)
    case (Cons z zs)
    have "\<not> ucast (wake_tick (threads s t)) \<le> ticks s" if "\<not> ucast (wake_tick (threads s z)) \<le> ticks s" "t \<in> set zs" for t
      using that Cons.prems ucast_le_64 [of "wake_tick (threads s z)" "wake_tick (threads s t)"] by auto
    then show ?case using Cons by auto
  qed simp
qed

text \<open>
  (C27) A timer tick wakes exactly the sleeping threads whose time has come and changes the state of no other thread;
  it asks for a switch when it has woken one or when the time slice is over, and then starts a new slice.
\<close>

theorem sched_on_tick_correct:
  assumes "sched_inv ts zs s"
  shows "\<exists>s'. sched_on_tick s = Some s' \<and> (\<exists>zs'. sched_inv ts zs' s') \<and>
    (\<forall>t \<in> set ts. t_state (threads s' t) =
       (if t_state (threads s t) = THREAD_SLEEPING \<and> ucast (wake_tick (threads s t)) \<le> ticks s then THREAD_RUNNABLE
        else t_state (threads s t))) \<and>
    (sched_pending s' \<longleftrightarrow> sched_pending s \<or> rr_ticks_left s = 1 \<or>
       (\<exists>t \<in> set ts. t_state (threads s t) = THREAD_SLEEPING \<and> ucast (wake_tick (threads s t)) \<le> ticks s)) \<and>
    rr_ticks_left s' = (if rr_ticks_left s = 1 then RR_SCHEDULER_CADENCE else rr_ticks_left s - 1)"
proof -
  note I = sched_invD [OF assms]
  have D: "set (due s zs) = {t \<in> set ts. t_state (threads s t) = THREAD_SLEEPING \<and> ucast (wake_tick (threads s t)) \<le> ticks s}"
    using set_due [OF I(3)] I(4) by auto
  have N: "due s zs \<noteq> [] \<longleftrightarrow> (\<exists>t \<in> set ts. t_state (threads s t) = THREAD_SLEEPING \<and> ucast (wake_tick (threads s t)) \<le> ticks s)"
    unfolding set_empty [symmetric] D by blast
  obtain s1 where s1: "woken (set (due s zs)) s s1" "sched_inv ts (drop (length (due s zs)) zs) s1"
    "sched_on_tick s = Some (s1\<lparr>rr_ticks_left := if rr_ticks_left s = 1 then RR_SCHEDULER_CADENCE else rr_ticks_left s - 1,
      sched_pending := sched_pending s \<or> rr_ticks_left s = 1 \<or> due s zs \<noteq> []\<rparr>)"
    using sched_on_tick_eq [OF assms] by blast
  let ?s = "s1\<lparr>rr_ticks_left := if rr_ticks_left s = 1 then RR_SCHEDULER_CADENCE else rr_ticks_left s - 1,
      sched_pending := sched_pending s \<or> rr_ticks_left s = 1 \<or> due s zs \<noteq> []\<rparr>"
  have "sched_inv ts (drop (length (due s zs)) zs) ?s" using s1(2) by simp
  moreover have "t_state (threads ?s t) = (if t_state (threads s t) = THREAD_SLEEPING \<and> ucast (wake_tick (threads s t)) \<le> ticks s
      then THREAD_RUNNABLE else t_state (threads s t))" if "t \<in> set ts" for t
    using that wokenD(8) [OF s1(1), of t] by (simp add: D)
  moreover have "sched_pending ?s \<longleftrightarrow> sched_pending s \<or> rr_ticks_left s = 1 \<or>
      (\<exists>t \<in> set ts. t_state (threads s t) = THREAD_SLEEPING \<and> ucast (wake_tick (threads s t)) \<le> ticks s)"
    by (simp only: N sched.simps sched.select_convs sched.update_convs) simp
  moreover have "rr_ticks_left ?s = (if rr_ticks_left s = 1 then RR_SCHEDULER_CADENCE else rr_ticks_left s - 1)" by simp
  ultimately show ?thesis using s1(3) by (intro exI [of _ ?s] conjI ballI) (assumption | blast)+
qed

theorem sched_on_tick_correct_witness:
  "\<exists>s'. sched_on_tick (ex_sched\<lparr>ticks := 5\<rparr>) = Some s' \<and> t_state (threads s' 0x3000) = THREAD_RUNNABLE \<and>
     t_state (threads s' 0x1000) = THREAD_RUNNING \<and> sched_pending s' \<and> rr_ticks_left s' = 9"
proof -
  have i: "sched_inv [0x1000, 0x2000, 0x3000] [0x3000] (ex_sched\<lparr>ticks := 5\<rparr>)" using ex_sched_inv by simp
  have st: "t_state (ex_threads 0x1000) = THREAD_RUNNING" "t_state (ex_threads 0x3000) = THREAD_SLEEPING"
    "wake_tick (ex_threads 0x3000) = 5" by (simp_all add: ex_threads_def ex_thread_def)
  show ?thesis using sched_on_tick_correct [OF i] by (auto simp: st)
qed

end
