(* ===== verification/Process_Life.thy ===== *)
theory Process_Life
  imports Proc Sched_Runs
begin

text \<open>
  The life of a process: closing its descriptors and the exit of its last thread, which wakes a parent that waits. The
  lists along which \<^verbatim>\<open>sched.c\<close> finds descriptors, waiters and children are related to HOL lists, and the results are
  put together with the invariant of the scheduler.
\<close>

section \<open>Closing descriptors\<close>

abbreviation fd_nx :: "'a files_scheme \<Rightarrow> u32 \<Rightarrow> u32 option" where
  "fd_nx s e \<equiv> ptr (fd_next (fd_entries s e))"

abbreviation open_refs :: "'a files_scheme \<Rightarrow> u32 \<Rightarrow> u32" where
  "open_refs s f \<equiv> k_refcount (of_kobj (open_files s f))"

text \<open>How many of the descriptors \<open>ens\<close> refer to the open file \<open>f\<close>.\<close>

definition refs_in :: "'a files_scheme \<Rightarrow> u32 list \<Rightarrow> u32 \<Rightarrow> nat" where
  "refs_in s ens f = length (filter (\<lambda>e. fd_of (fd_entries s e) = f) ens)"

lemma refs_in_Cons: "refs_in s (e # ens) f = refs_in s ens f + (if f = fd_of (fd_entries s e) then 1 else 0)"
  by (auto simp: refs_in_def)

lemma call_kobject_op_id [simp]: "call_kobject_op k p s = s"
  by (cases "(k, p, s)" rule: call_kobject_op.cases) (simp_all add: console_op_get_def console_op_put_def)

lemma open_file_put_shared:
  assumes "f = 0 \<or> 1 < unat (open_refs s f)"
  shows "\<exists>g. open_file_put f s = Some (s\<lparr>open_files := g\<rparr>) \<and>
    (\<forall>h. k_refcount (of_kobj (g h)) = (if h = f \<and> f \<noteq> 0 then open_refs s h - 1 else open_refs s h))"
proof (cases "f = 0")
  case True
  then show ?thesis by (intro exI [of _ "open_files s"]) (simp add: open_file_put_def)
next
  case False
  let ?g = "(open_files s)(f := (open_files s f)\<lparr>of_kobj := upd_refcount (\<lambda>n. n - 1) (of_kobj (open_files s f))\<rparr>)"
  have r: "1 < unat (open_refs s f)" using assms False by simp
  then have "open_refs s f \<noteq> 0" "open_refs s f \<noteq> 1" by auto
  then have "open_refs s f \<noteq> 0" "open_refs s f - 1 \<noteq> 0" by simp_all
  then have "open_file_put f s = Some (s\<lparr>open_files := ?g\<rparr>)"
    using False by (simp add: open_file_put_def Let_def upd_open_file_def upd_refcount_def)
  then show ?thesis using False by (intro exI [of _ ?g]) (simp add: upd_refcount_def)
qed

lemma free_fdentry:
  assumes "e \<noteq> 0" "length (fd_bitmap s) = 4096" "unat (fd_id (fd_entries s e)) < 0x8000"
  obtains bm where "fdpool_free_fdentry e s = Some (s\<lparr>fd_bitmap := bm, fd_entries := (fd_entries s)(e := zero_fd_entry)\<rparr>)"
    "length bm = 4096" "bm_bits bm = bm_bits (fd_bitmap s) - {unat (fd_id (fd_entries s e))}"
proof -
  obtain bm where bm: "bitmap_clear (fd_bitmap s) (fd_id (fd_entries s e)) = Some bm" "length bm = length (fd_bitmap s)"
    "bm_bits bm = bm_bits (fd_bitmap s) - {unat (fd_id (fd_entries s e))}"
    using bitmap_clear_in [of "fd_id (fd_entries s e)" "fd_bitmap s"] assms(2,3) by (auto simp: bm_size_def)
  have "dpage_bm_clear (fd_id (fd_entries s e)) (fd_bitmap s) fd_bitmap_size_bytes = Some bm"
    using bm(1) assms(3) by (simp add: dpage_bm_clear_def fd_bitmap_size_bytes_def word_le_nat_alt)
  then show thesis using that [of bm] bm assms(1,2) by (simp add: fdpool_free_fdentry_def upd_fd_entry_def)
qed

lemma close_fds_spec:
  assumes "list_at (fd_nx s) (ptr head) ens" "0 \<notin> set ens" "length (fd_bitmap s) = 4096"
    and "\<forall>e \<in> set ens. unat (fd_id (fd_entries s e)) < 0x8000"
    and "\<forall>e \<in> set ens. fd_of (fd_entries s e) = 0 \<or> refs_in s ens (fd_of (fd_entries s e)) < unat (open_refs s (fd_of (fd_entries s e)))"
  shows "\<exists>g bm. close_fds head s = Some (s\<lparr>open_files := g, fd_bitmap := bm,
             fd_entries := (\<lambda>e. if e \<in> set ens then zero_fd_entry else fd_entries s e)\<rparr>) \<and>
    (\<forall>f. f \<noteq> 0 \<longrightarrow> unat (k_refcount (of_kobj (g f))) = unat (open_refs s f) - refs_in s ens f) \<and>
    bm_bits bm = bm_bits (fd_bitmap s) - (\<lambda>e. unat (fd_id (fd_entries s e))) ` set ens"
  using assms
proof (induction ens arbitrary: head s)
  case Nil
  then show ?case by (intro exI [of _ "open_files s"] exI [of _ "fd_bitmap s"]) (simp add: close_fds.simps refs_in_def)
next
  case (Cons e ens)
  let ?f = "fd_of (fd_entries s e)"
  have e: "head = e" "e \<noteq> 0" "e \<notin> set ens" "list_at (fd_nx s) (fd_nx s e) ens" using Cons.prems(1,2) by auto
  have pos: "?f = 0 \<or> 1 < unat (open_refs s ?f)" using Cons.prems(5) by (auto simp: refs_in_def)
  then obtain g where g: "open_file_put ?f s = Some (s\<lparr>open_files := g\<rparr>)"
    "\<forall>h. k_refcount (of_kobj (g h)) = (if h = ?f \<and> ?f \<noteq> 0 then open_refs s h - 1 else open_refs s h)"
    using open_file_put_shared by blast
  obtain bm where bm: "fdpool_free_fdentry e (s\<lparr>open_files := g\<rparr>) =
      Some (s\<lparr>open_files := g, fd_bitmap := bm, fd_entries := (fd_entries s)(e := zero_fd_entry)\<rparr>)"
    "length bm = 4096" "bm_bits bm = bm_bits (fd_bitmap s) - {unat (fd_id (fd_entries s e))}"
    using free_fdentry [OF e(2), of "s\<lparr>open_files := g\<rparr>"] Cons.prems(3,4) by auto
  define s1 where "s1 = s\<lparr>open_files := g, fd_bitmap := bm, fd_entries := (fd_entries s)(e := zero_fd_entry)\<rparr>"
  have ent: "fd_entries s1 x = fd_entries s x" if "x \<in> set ens" for x using that e(3) by (auto simp: s1_def)
  have refs: "refs_in s1 ens f = refs_in s ens f" for f using ent unfolding refs_in_def by (metis (mono_tags, lifting) filter_cong)
  have cnt: "unat (open_refs s1 f) = unat (open_refs s f) - (if f = ?f then 1 else 0)" if "f \<noteq> 0" for f
  proof (cases "f = ?f")
    case True
    have "1 \<le> open_refs s ?f" using pos True that by (simp add: word_le_nat_alt)
    then have "unat (open_refs s ?f - 1) = unat (open_refs s ?f) - 1" by (simp add: unat_sub_u32)
    then show ?thesis using g(2) True that by (simp add: s1_def)
  qed (use g(2) in \<open>simp add: s1_def\<close>)
  have "list_at (fd_nx s1) (fd_nx s e) ens" using e(4) ent by (subst list_at_cong [of ens "fd_nx s1" "fd_nx s"]) simp_all
  moreover have "\<forall>x \<in> set ens. fd_of (fd_entries s1 x) = 0 \<or>
      refs_in s1 ens (fd_of (fd_entries s1 x)) < unat (open_refs s1 (fd_of (fd_entries s1 x)))"
  proof (intro ballI)
    fix x assume x: "x \<in> set ens"
    let ?h = "fd_of (fd_entries s x)"
    have "?h = 0 \<or> refs_in s (e # ens) ?h < unat (open_refs s ?h)" using Cons.prems(5) x by simp
    then have "?h = 0 \<or> refs_in s ens ?h < unat (open_refs s1 ?h)" 
      using cnt [of ?h] unfolding refs_in_Cons by (cases "?h = 0"; cases "?h = ?f") simp_all
    then show "fd_of (fd_entries s1 x) = 0 \<or> refs_in s1 ens (fd_of (fd_entries s1 x)) < unat (open_refs s1 (fd_of (fd_entries s1 x)))"
      using ent [OF x] refs by simp
  qed
  ultimately obtain g' bm' where r: "close_fds (fd_next (fd_entries s e)) s1 = Some (s1\<lparr>open_files := g', fd_bitmap := bm',
        fd_entries := (\<lambda>x. if x \<in> set ens then zero_fd_entry else fd_entries s1 x)\<rparr>)"
      "\<forall>f. f \<noteq> 0 \<longrightarrow> unat (k_refcount (of_kobj (g' f))) = unat (open_refs s1 f) - refs_in s1 ens f"
      "bm_bits bm' = bm_bits (fd_bitmap s1) - (\<lambda>x. unat (fd_id (fd_entries s1 x))) ` set ens"
    using Cons.IH [of s1 "fd_next (fd_entries s e)"] Cons.prems(2,4) bm(2) ent by (auto simp: s1_def)
  have "close_fds head s = close_fds (fd_next (fd_entries s e)) s1"
    using e g(1) bm(1) by (simp add: close_fds.simps [of e] Let_def s1_def)
  moreover have "(\<lambda>x. if x \<in> set ens then zero_fd_entry else fd_entries s1 x) =
      (\<lambda>x. if x \<in> set (e # ens) then zero_fd_entry else fd_entries s x)" by (auto simp: s1_def)
  moreover have "unat (k_refcount (of_kobj (g' f))) = unat (open_refs s f) - refs_in s (e # ens) f" if "f \<noteq> 0" for f
    using r(2) that cnt [OF that] refs unfolding refs_in_Cons by simp
  moreover have "(\<lambda>x. unat (fd_id (fd_entries s1 x))) ` set ens = (\<lambda>x. unat (fd_id (fd_entries s x))) ` set ens"
    using ent by (intro image_cong) simp_all
  ultimately show ?case using r(1,3) bm(3) by (intro exI [of _ g'] exI [of _ bm']) (auto simp: s1_def)
qed


text \<open>Two descriptors of one open file, which a third holder keeps open.\<close>

definition ex_fds :: files where
  "ex_fds = ex_files\<lparr>fd_bitmap := replicate 4096 0xFF,
     open_files := (\<lambda>_. zero_open_file)(0x28 := zero_open_file\<lparr>of_kobj := zero_kobject\<lparr>k_refcount := 3\<rparr>\<rparr>),
     fd_entries := (\<lambda>_. zero_fd_entry)(0x10 := zero_fd_entry\<lparr>fd_of := 0x28, fd_id := 1, fd_next := 0x20\<rparr>,
                                       0x20 := zero_fd_entry\<lparr>fd_of := 0x28, fd_id := 2\<rparr>)\<rparr>"


section \<open>Exit and wait\<close>

lemma sched_inv_upd_process [simp]:
  "(\<And>r. waiters (f r) = waiters r) \<Longrightarrow> sched_inv ts zs (upd_process p f s) = sched_inv ts zs s"
  by (simp add: sched_inv_def waiters_ok_def runq_def sleepq_def waitq_def)

lemma sched_inv_files [simp]:
  "sched_inv ts zs (s\<lparr>open_files := g, fd_bitmap := b, fd_entries := h\<rparr>) = sched_inv ts zs s"
  by (simp add: sched_inv_def waiters_ok_def runq_def sleepq_def waitq_def)

text \<open>Waking a waiter changes of the processes only their lists of waiters, and no file.\<close>

lemma wake_blocked_rest:
  assumes "waitq s q ws" "t \<in> set ws" "t_state (threads s t) = THREAD_BLOCKED" "wait_owner (threads s t) = q" "q \<noteq> 0"
    "sched_wake_thread t s = Some s'"
  shows "first_child (processes s' x) = first_child (processes s x)" "next_sibling (processes s' x) = next_sibling (processes s x)"
    "pid (processes s' x) = pid (processes s x)" "p_state (processes s' x) = p_state (processes s x)"
    "p_exit_code (processes s' x) = p_exit_code (processes s x)" "fd_list (processes s' x) = fd_list (processes s x)"
    "fd_entries s' = fd_entries s" "open_files s' = open_files s" "fd_bitmap s' = fd_bitmap s"
proof -
  obtain s2 where s2: "unlinked t q ws (upd_thread t (\<lambda>r. r\<lparr>t_state := THREAD_RUNNABLE\<rparr>) s) s2" "s' = clear_wait t s2"
    using wake_blocked_eq [OF assms(1-5)] assms(6) by auto
  show "first_child (processes s' x) = first_child (processes s x)" "next_sibling (processes s' x) = next_sibling (processes s x)"
    "pid (processes s' x) = pid (processes s x)" "p_state (processes s' x) = p_state (processes s x)"
    "p_exit_code (processes s' x) = p_exit_code (processes s x)" "fd_list (processes s' x) = fd_list (processes s x)"
    "fd_entries s' = fd_entries s" "open_files s' = open_files s" "fd_bitmap s' = fd_bitmap s"
    using s2 by (auto simp: unlinked_def clear_wait_def upd_thread_def upd_process_def)
qed

text \<open>The children of a process, and the search for one that has exited.\<close>

definition children :: "'a sched_scheme \<Rightarrow> u32 \<Rightarrow> u32 list \<Rightarrow> bool" where
  "children s q chs \<longleftrightarrow> 0 \<notin> set chs \<and> q \<notin> set chs \<and> list_at (sibling_nx s) (ptr (first_child (processes s q))) chs"

definition reapable :: "'a sched_scheme \<Rightarrow> u32 \<Rightarrow> u32 \<Rightarrow> bool" where
  "reapable s m c \<longleftrightarrow> (m = - 1 \<or> pid (processes s c) = m) \<and> p_state (processes s c) = PROC_ZOMBIE"

lemma zombie_from_find:
  assumes "list_at (sibling_nx s) (ptr h) chs" "0 \<notin> set chs" "q \<notin> set chs"
  shows "zombie_from q m h s = Some (case find (reapable s m) chs of None \<Rightarrow> 0 | Some c \<Rightarrow> c)"
  using assms
proof (induction chs arbitrary: h)
  case Nil
  then show ?case by (simp add: zombie_from.simps)
next
  case (Cons c chs)
  then have h: "h = c" "c \<noteq> 0" "c \<noteq> q" by auto
  have "zombie_from q m (next_sibling (processes s c)) s = Some (case find (reapable s m) chs of None \<Rightarrow> 0 | Some c \<Rightarrow> c)"
    using Cons by (intro Cons.IH) auto
  then show ?case using h by (subst zombie_from.simps) (auto simp: reapable_def)
qed

lemma find_zombie:
  assumes "children s q chs" "q \<noteq> 0" "c \<in> set chs" "reapable s m c"
  shows "\<exists>z \<in> set chs. proc_find_zombie_child q m s = Some z \<and> reapable s m z"
proof -
  have "find (reapable s m) chs \<noteq> None" using assms(3,4) by (auto simp: find_None_iff)
  then obtain z where z: "find (reapable s m) chs = Some z" by blast
  then have "z \<in> set chs \<and> reapable s m z" by (rule find_in)
  moreover have "proc_find_zombie_child q m s = Some z"
    using zombie_from_find [of s "first_child (processes s q)" chs q m] assms(1,2) z by (simp add: proc_find_zombie_child_def children_def)
  ultimately show ?thesis by blast
qed

lemma wake_parent_waiter_spec:
  assumes i: "sched_inv ts zs s" and c: "c \<noteq> 0" "parent (processes s c) = q" "q \<noteq> 0"
    and w: "waitq s q ws" "\<forall>t \<in> set ws. t \<in> set ts \<and> t_state (threads s t) = THREAD_BLOCKED \<and> t_proc (threads s t) = q"
  shows "\<exists>s'. wake_parent_waiter c s = Some s' \<and> sched_inv ts zs s' \<and> thread_current s' = thread_current s \<and>
    (\<forall>u. t_state (threads s' u) = (if find (\<lambda>t. waits_for (pid (processes s c)) (threads s t)) ws = Some u
       then THREAD_RUNNABLE else t_state (threads s u))) \<and>
    (\<forall>x. first_child (processes s' x) = first_child (processes s x) \<and> next_sibling (processes s' x) = next_sibling (processes s x) \<and>
       pid (processes s' x) = pid (processes s x) \<and> p_state (processes s' x) = p_state (processes s x) \<and>
       p_exit_code (processes s' x) = p_exit_code (processes s x) \<and> fd_list (processes s' x) = fd_list (processes s x)) \<and>
    fd_entries s' = fd_entries s \<and> open_files s' = open_files s \<and> fd_bitmap s' = fd_bitmap s"
proof -
  let ?P = "\<lambda>t. waits_for (pid (processes s c)) (threads s t)"
  have wk: "walk_until ?P (wait_nx s) (ptr (waiters (processes s q))) = Some (find ?P ws)"
    using w(1) by (intro walk_until_find) (simp add: waitq_def)
  show ?thesis
  proof (cases "find ?P ws")
    case None
    then have "wake_parent_waiter c s = Some s" using c wk by (simp add: wake_parent_waiter_def)
    then show ?thesis using i None by auto
  next
    case (Some t)
    then have t: "t \<in> set ws" using find_in by fast
    then have b: "t \<in> set ts" "t_state (threads s t) = THREAD_BLOCKED" "wait_owner (threads s t) = q"
      using w(2) sched_invD(9) [OF i, of t] by auto
    obtain s' where s': "sched_wake_thread t s = Some s'" "sched_inv ts zs s'" "thread_current s' = thread_current s"
      "\<forall>u. t_state (threads s' u) = (if u = t then THREAD_RUNNABLE else t_state (threads s u))"
      using sched_wake_blocked [OF i b(1,2)] by blast
    have "wake_parent_waiter c s = Some s'" using c wk Some s'(1) by (simp add: wake_parent_waiter_def)
    then show ?thesis using s'(2-4) Some wake_blocked_rest [OF w(1) t b(2,3) c(3) s'(1)] by auto
  qed
qed

text \<open>The descriptors of a process, and that closing them leaves the open files open.\<close>

definition fds_ok :: "'a sched_scheme \<Rightarrow> u32 \<Rightarrow> bool" where
  "fds_ok s p \<longleftrightarrow> length (fd_bitmap s) = 4096 \<and> (\<exists>ens. list_at (fd_nx s) (ptr (fd_list (processes s p))) ens \<and> 0 \<notin> set ens \<and>
     (\<forall>e \<in> set ens. unat (fd_id (fd_entries s e)) < 0x8000 \<and>
        (fd_of (fd_entries s e) = 0 \<or> refs_in s ens (fd_of (fd_entries s e)) < unat (open_refs s (fd_of (fd_entries s e))))))"

lemma cleanup_fds_spec:
  assumes "fds_ok s p" "p \<noteq> 0"
  shows "\<exists>g b h. sched_proc_cleanup_fds p s = Some (upd_process p (\<lambda>r. r\<lparr>fd_list := 0, fd_count := 0\<rparr>)
           (s\<lparr>open_files := g, fd_bitmap := b, fd_entries := h\<rparr>))"
proof -
  obtain ens where e: "list_at (fd_nx s) (ptr (fd_list (processes s p))) ens" "0 \<notin> set ens"
    "\<forall>e \<in> set ens. unat (fd_id (fd_entries s e)) < 0x8000"
    "\<forall>e \<in> set ens. fd_of (fd_entries s e) = 0 \<or> refs_in s ens (fd_of (fd_entries s e)) < unat (open_refs s (fd_of (fd_entries s e)))"
    "length (fd_bitmap s) = 4096"
    using assms(1) unfolding fds_ok_def by blast
  obtain g bm where "close_fds (fd_list (processes s p)) s = Some (s\<lparr>open_files := g, fd_bitmap := bm,
      fd_entries := (\<lambda>e. if e \<in> set ens then zero_fd_entry else fd_entries s e)\<rparr>)"
    using close_fds_spec [OF e(1,2,5,3,4)] by blast
  then have "sched_proc_cleanup_fds p s = Some (upd_process p (\<lambda>r. r\<lparr>fd_list := 0, fd_count := 0\<rparr>) (s\<lparr>open_files := g,
      fd_bitmap := bm, fd_entries := (\<lambda>e. if e \<in> set ens then zero_fd_entry else fd_entries s e)\<rparr>))"
    using assms(2) by (simp add: sched_proc_cleanup_fds_def)
  then show ?thesis by blast
qed

text \<open>
  (C36) The last thread of a process exits. The process becomes a zombie with the exit code and without descriptors, and the
  first thread of the parent that waits for this child, or for any, can run again; no other thread changes its state.
  No wake-up is lost: when the woken thread looks again, for this child or for any, it finds a child to reap. The
  scheduler's invariant is kept and a switch is requested.
\<close>

theorem exit_wakes_waiting_parent:
  assumes i: "sched_inv ts zs s" and cur: "thread_current s = c" "c \<noteq> 0" "t_state (threads s c) = THREAD_RUNNING"
    and p: "t_proc (threads s c) = p" "live_thread_count (processes s p) = 1" "fds_ok s p"
    and q: "parent (processes s p) = q" "q \<noteq> 0" "children s q chs" "p \<in> set chs"
    and w: "waitq s q ws" "\<forall>t \<in> set ws. t \<in> set ts \<and> t_state (threads s t) = THREAD_BLOCKED \<and> t_proc (threads s t) = q"
  shows "\<exists>s'. sched_thread_exit code s = Some s' \<and> sched_inv ts zs s' \<and> sched_pending s' \<and>
    p_state (processes s' p) = PROC_ZOMBIE \<and> p_exit_code (processes s' p) = code \<and> fd_list (processes s' p) = 0 \<and>
    (\<forall>u. t_state (threads s' u) =
       (if u = c then THREAD_ZOMBIE
        else if find (\<lambda>t. waits_for (pid (processes s p)) (threads s t)) ws = Some u then THREAD_RUNNABLE
        else t_state (threads s u))) \<and>
    (\<forall>m. m = - 1 \<or> m = pid (processes s p) \<longrightarrow>
       (\<exists>z \<in> set chs. proc_find_zombie_child q m s' = Some z \<and> p_state (processes s' z) = PROC_ZOMBIE \<and>
          (m = - 1 \<or> pid (processes s' z) = m)))"
proof -
  note I = sched_invD [OF i]
  have ct: "c \<in> set ts" using I(2) cur by auto
  have p0: "p \<noteq> 0" using I(7) [OF ct] p(1) by simp
  have pq: "p \<noteq> q" using q(3,4) by (auto simp: children_def)
  define s1 where "s1 = upd_thread c (\<lambda>r. r\<lparr>t_exit_code := code, t_state := THREAD_ZOMBIE\<rparr>) s"
  define s3 where "s3 = upd_process p (\<lambda>r. r\<lparr>p_state := PROC_ZOMBIE, p_exit_code := code\<rparr>)
    (upd_process p (\<lambda>r. r\<lparr>live_thread_count := live_thread_count r - 1\<rparr>) s1)"
  have t1: "t_state (threads s1 u) = (if u = c then THREAD_ZOMBIE else t_state (threads s u))" for u
    by (simp add: s1_def threads_upd)
  have "same_links s s1" "thread_current s1 = thread_current s" by (simp_all add: same_links_def s1_def)
  then have "sched_inv ts zs s1"
    using I(2,8) cur(3) by (intro sched_inv_same_links [OF i]) (auto simp: t1 split: if_splits)
  then have i3: "sched_inv ts zs s3" by (simp add: s3_def)
  have t3: "threads s3 = threads s1" by (simp add: s3_def)
  have p3: "parent (processes s3 p) = q" "pid (processes s3 x) = pid (processes s x)" "first_child (processes s3 x) = first_child (processes s x)"
    "next_sibling (processes s3 x) = next_sibling (processes s x)" "waiters (processes s3 x) = waiters (processes s x)"
    "fd_list (processes s3 x) = fd_list (processes s x)" "p_state (processes s3 p) = PROC_ZOMBIE" "p_exit_code (processes s3 p) = code" for x
    using q(1) by (simp_all add: s3_def s1_def processes_upd)
  have f3: "fd_entries s3 = fd_entries s" "open_files s3 = open_files s" "fd_bitmap s3 = fd_bitmap s" "thread_current s3 = c"
    using cur(1) by (simp_all add: s3_def s1_def upd_thread_def upd_process_def)
  have cw: "c \<notin> set ws" using w(2) cur(3) by auto
  have w3: "waitq s3 q ws" "\<forall>t \<in> set ws. t \<in> set ts \<and> t_state (threads s3 t) = THREAD_BLOCKED \<and> t_proc (threads s3 t) = q"
    using w cw p3(5) by (auto simp: waitq_def t3 t1) (simp_all add: s1_def)
  have wf: "find (\<lambda>t. waits_for (pid (processes s3 p)) (threads s3 t)) ws = find (\<lambda>t. waits_for (pid (processes s p)) (threads s t)) ws"
    using cw p3(2) by (intro find_cong) (auto simp: t3 s1_def threads_upd)
  obtain s4 where s4: "wake_parent_waiter p s3 = Some s4" "sched_inv ts zs s4" "thread_current s4 = c"
    "\<forall>u. t_state (threads s4 u) = (if find (\<lambda>t. waits_for (pid (processes s p)) (threads s t)) ws = Some u
       then THREAD_RUNNABLE else t_state (threads s3 u))"
    "\<forall>x. first_child (processes s4 x) = first_child (processes s x) \<and> next_sibling (processes s4 x) = next_sibling (processes s x) \<and>
       pid (processes s4 x) = pid (processes s x) \<and> p_state (processes s4 x) = p_state (processes s3 x) \<and>
       p_exit_code (processes s4 x) = p_exit_code (processes s3 x) \<and> fd_list (processes s4 x) = fd_list (processes s x)"
    "fd_entries s4 = fd_entries s" "open_files s4 = open_files s" "fd_bitmap s4 = fd_bitmap s"
    using wake_parent_waiter_spec [OF i3 p0 p3(1) q(2) w3] wf p3(2,3,4,6) f3 by auto
  have "fds_ok s4 p" using p(3) s4(5-8) by (simp add: fds_ok_def refs_in_def)
  then obtain g b h where s5: "sched_proc_cleanup_fds p s4 = Some (upd_process p (\<lambda>r. r\<lparr>fd_list := 0, fd_count := 0\<rparr>)
           (s4\<lparr>open_files := g, fd_bitmap := b, fd_entries := h\<rparr>))" using cleanup_fds_spec p0 by blast
  define s6 where "s6 = upd_process p (\<lambda>r. r\<lparr>fd_list := 0, fd_count := 0\<rparr>) (s4\<lparr>open_files := g, fd_bitmap := b, fd_entries := h\<rparr>)"
  have "live_thread_count (processes (upd_process p (\<lambda>r. r\<lparr>live_thread_count := live_thread_count r - 1\<rparr>) s1) p) = 0"
    using p(2) by (simp add: s1_def)
  then have ex: "sched_thread_exit code s = Some (s6\<lparr>sched_pending := True\<rparr>)"
    using cur p(1) s4(1,3) s5
    by (simp add: sched_thread_exit_def Let_def sched_thread_yield_def s6_def flip: s1_def) (simp add: s3_def)
  have p6: "p_state (processes s6 x) = p_state (processes s3 x)" "pid (processes s6 x) = pid (processes s x)"
    "first_child (processes s6 x) = first_child (processes s x)" "next_sibling (processes s6 x) = next_sibling (processes s x)"
    "p_exit_code (processes s6 x) = p_exit_code (processes s3 x)" "fd_list (processes s6 p) = 0" "threads s6 = threads s4" for x
    using s4(5) by (simp_all add: s6_def processes_upd)
  have ch: "children (s6\<lparr>sched_pending := True\<rparr>) q chs" using q(3) by (simp add: children_def p6)
  have z: "\<exists>z \<in> set chs. proc_find_zombie_child q m (s6\<lparr>sched_pending := True\<rparr>) = Some z \<and> reapable (s6\<lparr>sched_pending := True\<rparr>) m z"
    if "m = - 1 \<or> m = pid (processes s p)" for m
    using that p3(7) by (intro find_zombie [OF ch q(2,4)]) (auto simp: reapable_def p6)
  have inv: "sched_inv ts zs (s6\<lparr>sched_pending := True\<rparr>)" using s4(2) by (simp add: s6_def)
  have fc: "find (\<lambda>t. waits_for (pid (processes s p)) (threads s t)) ws \<noteq> Some c" using cw find_in by fast
  have st: "t_state (threads s6 u) = (if u = c then THREAD_ZOMBIE
        else if find (\<lambda>t. waits_for (pid (processes s p)) (threads s t)) ws = Some u then THREAD_RUNNABLE
        else t_state (threads s u))" for u
    using s4(4) fc by (simp add: p6 t3 t1)
  have z': "\<forall>m. m = - 1 \<or> m = pid (processes s p) \<longrightarrow>
       (\<exists>z \<in> set chs. proc_find_zombie_child q m (s6\<lparr>sched_pending := True\<rparr>) = Some z \<and>
          p_state (processes (s6\<lparr>sched_pending := True\<rparr>) z) = PROC_ZOMBIE \<and> (m = - 1 \<or> pid (processes (s6\<lparr>sched_pending := True\<rparr>) z) = m))"
  proof (intro allI impI)
    fix m assume "m = - 1 \<or> m = pid (processes s p)"
    from z [OF this] show "\<exists>z \<in> set chs. proc_find_zombie_child q m (s6\<lparr>sched_pending := True\<rparr>) = Some z \<and>
        p_state (processes (s6\<lparr>sched_pending := True\<rparr>) z) = PROC_ZOMBIE \<and> (m = - 1 \<or> pid (processes (s6\<lparr>sched_pending := True\<rparr>) z) = m)"
      unfolding reapable_def by blast
  qed
  show ?thesis
    by (intro exI [of _ "s6\<lparr>sched_pending := True\<rparr>"] conjI ex inv z') (use st p3(7,8) p6 in simp_all)
qed

text \<open>A parent that waits for any child in thread 2, and a child whose only thread 1 runs.\<close>

definition ex_family :: sched where
  "ex_family = ex_sched\<lparr>
     threads := (\<lambda>_. ex_thread)
       (0x1000 := ex_thread\<lparr>t_state := THREAD_RUNNING, t_proc := 0x9000, rq_next := 0x2000\<rparr>,
        0x2000 := ex_thread\<lparr>t_state := THREAD_BLOCKED, wait_kind := WAIT_ANY, wait_owner := 0x8000, rq_next := 0x1000\<rparr>),
     processes := (\<lambda>_. ex_process)
       (0x8000 := ex_process\<lparr>first_child := 0x9000, waiters := 0x2000\<rparr>,
        0x9000 := ex_process\<lparr>pid := 7, parent := 0x8000, live_thread_count := 1\<rparr>),
     thread_sleep_head := 0, fd_bitmap := replicate 4096 0\<rparr>"

theorem exit_wakes_waiting_parent_witness:
  "\<exists>s'. sched_thread_exit 42 ex_family = Some s' \<and> t_state (threads s' 0x2000) = THREAD_RUNNABLE \<and>
     proc_find_zombie_child 0x8000 (- 1) s' = Some 0x9000 \<and> p_exit_code (processes s' 0x9000) = 42"
proof -
  have T: "threads ex_family 0x1000 = ex_thread\<lparr>t_state := THREAD_RUNNING, t_proc := 0x9000, rq_next := 0x2000\<rparr>"
    "threads ex_family 0x2000 = ex_thread\<lparr>t_state := THREAD_BLOCKED, wait_kind := WAIT_ANY, wait_owner := 0x8000, rq_next := 0x1000\<rparr>"
    "processes ex_family 0x8000 = ex_process\<lparr>first_child := 0x9000, waiters := 0x2000\<rparr>"
    "processes ex_family 0x9000 = ex_process\<lparr>pid := 7, parent := 0x8000, live_thread_count := 1\<rparr>"
    "thread_head ex_family = 0x1000" "thread_current ex_family = 0x1000" "thread_sleep_head ex_family = 0"
    "length (fd_bitmap ex_family) = 4096"
    by (simp_all add: ex_family_def)
  have q: "runq ex_family [0x1000, 0x2000]" "sleepq ex_family []" "waitq ex_family 0x8000 [0x2000]" "waitq ex_family 0x9000 []"
    by (simp_all add: runq_def ring_def sleepq_def waitq_def T ex_thread_def ex_process_def)
  let ?blocked = "\<lambda>p. {t \<in> set [0x1000, 0x2000]. t_state (threads ex_family t) = THREAD_BLOCKED \<and> t_proc (threads ex_family t) = p}"
  have b: "set [0x2000] = ?blocked 0x8000" "set [] = ?blocked 0x9000" by (auto simp: T ex_thread_def)
  have im: "(\<lambda>t. t_proc (threads ex_family t)) ` set [0x1000, 0x2000] = {0x9000, 0x8000}" by (simp add: T ex_thread_def)
  have "\<forall>p \<in> {0x9000, 0x8000}. \<exists>ws. waitq ex_family p ws \<and> set ws = ?blocked p" using q(3,4) b by blast
  then have "waiters_ok [0x1000, 0x2000] ex_family" unfolding waiters_ok_def im by (simp add: T ex_thread_def)
  then have i: "sched_inv [0x1000, 0x2000] [] ex_family"
    unfolding sched_inv_def using q(1,2) by (auto simp: T ex_thread_def)
  have f: "fds_ok ex_family 0x9000" by (simp add: fds_ok_def T ex_process_def)
  have ch: "children ex_family 0x8000 [0x9000]" by (simp add: children_def T ex_process_def)
  have fi: "find (\<lambda>t. waits_for (pid (processes ex_family 0x9000)) (threads ex_family t)) [0x2000] = Some 0x2000"
    by (simp add: T waits_for_def)
  obtain s' where s': "sched_thread_exit 42 ex_family = Some s'" "p_exit_code (processes s' 0x9000) = 42"
    "\<forall>u. t_state (threads s' u) = (if u = 0x1000 then THREAD_ZOMBIE else if Some 0x2000 = Some u then THREAD_RUNNABLE
        else t_state (threads ex_family u))"
    "\<exists>z \<in> set [0x9000]. proc_find_zombie_child 0x8000 (- 1) s' = Some z"
    using exit_wakes_waiting_parent [OF i T(6) _ _ _ _ f _ _ ch _ q(3), of 42] unfolding fi by (auto simp: T ex_thread_def)
  then show ?thesis by auto
qed

end
