(* ===== verification/Thread_Start.thy ===== *)
theory Thread_Start
  imports Sched_Runs
begin

text \<open>
  Starting a thread: the search for a free slot, the end of the run queue, and the first frame on the kernel stack,
  put together for \<^verbatim>\<open>sched_add_thread\<close>, which keeps the invariant of the scheduler.
\<close>

section \<open>Slots for threads\<close>

definition free_slot :: "'a sched_scheme \<Rightarrow> u32 \<Rightarrow> bool" where
  "free_slot s i \<longleftrightarrow> i < thread_pool_count s \<and> \<not> t_slot_inuse (threads s (thread_at i s))"

lemma next_slot_nat: "i < n \<Longrightarrow> unat ((i + 1) mod n :: u32) = (unat i + 1) mod unat n"
proof -
  assume "i < n"
  then have "unat i + 1 \<le> unat n" by (simp add: word_less_nat_alt)
  then have "unat (i + 1) = unat i + 1" using unat_u32_less [of n] by (subst unat_add_u32) (simp_all add: less_le_trans del: unat_u32_less)
  then show ?thesis by (simp add: unat_mod_u32)
qed

lemma scan_thread_slots_spec:
  assumes "i < thread_pool_count s"
  shows "case scan_thread_slots n i s of
      None \<Rightarrow> \<forall>k < n. \<not> free_slot s (of_nat ((unat i + k) mod unat (thread_pool_count s)))
    | Some j \<Rightarrow> free_slot s j"
  using assms
proof (induction n arbitrary: i)
  case (Suc n)
  let ?c = "thread_pool_count s" and ?i = "(i + 1) mod thread_pool_count s"
  have c: "0 < unat ?c" using Suc.prems by (simp add: word_less_nat_alt)
  have un: "unat ?i = (unat i + 1) mod unat ?c" by (rule next_slot_nat [OF Suc.prems])
  then have "?i < ?c" using c by (simp add: word_less_nat_alt)
  note IH = Suc.IH [OF this]
  show ?case
  proof (cases "free_slot s i")
    case True
    then show ?thesis by (simp add: free_slot_def)
  next
    case False
    have scan: "scan_thread_slots (Suc n) i s = scan_thread_slots n ?i s" using False Suc.prems by (simp add: free_slot_def)
    have i: "of_nat (unat i mod unat ?c) = i" using Suc.prems by (simp add: word_less_nat_alt)
    have "\<not> free_slot s (of_nat ((unat i + k) mod unat ?c))"
      if k: "k < Suc n" and all: "\<forall>k < n. \<not> free_slot s (of_nat ((unat ?i + k) mod unat ?c))" for k
    proof (cases k)
      case 0
      then show ?thesis using False i by simp
    next
      case (Suc j)
      have "(unat ?i + j) mod unat ?c = (unat i + Suc j) mod unat ?c" unfolding un by (simp add: mod_add_left_eq)
      then show ?thesis using all k Suc by (metis Suc_less_SucD)
    qed
    then show ?thesis using IH unfolding scan by (auto split: option.splits)
  qed
qed simp

lemma alloc_thread_slot_spec:
  "if \<exists>j. free_slot s j then \<exists>i n. alloc_thread_slot s = ((thread_at i s, i), s\<lparr>next_tid := n\<rparr>) \<and> free_slot s i
   else alloc_thread_slot s = ((0, 0), s)"
proof (cases "thread_pool_count s = 0")
  case True
  then show ?thesis by (simp add: alloc_thread_slot_def free_slot_def)
next
  case False
  let ?c = "thread_pool_count s" and ?i = "next_tid s mod thread_pool_count s"
  have c: "0 < unat ?c" using False by (simp add: u32_eq_iff)
  then have i: "?i < ?c" by (simp add: word_less_nat_alt unat_mod_u32)
  note S = scan_thread_slots_spec [OF i, of "unat ?c"]
  show ?thesis
  proof (cases "scan_thread_slots (unat ?c) ?i s")
    case None
    have "\<not> free_slot s j" for j
    proof
      assume j: "free_slot s j"
      then have lt: "unat j < unat ?c" "unat ?i < unat ?c" using i by (simp_all add: free_slot_def word_less_nat_alt)
      define k where "k = (unat j + (unat ?c - unat ?i)) mod unat ?c"
      have "(unat ?i + k) mod unat ?c = (unat ?i + (unat j + (unat ?c - unat ?i))) mod unat ?c"
        unfolding k_def by (rule mod_add_right_eq)
      also have "unat ?i + (unat j + (unat ?c - unat ?i)) = unat j + unat ?c" using lt(2) by linarith
      also have "(unat j + unat ?c) mod unat ?c = unat j" using lt(1) by simp
      finally have "(unat ?i + k) mod unat ?c = unat j" .
      moreover have "k < unat ?c" using c by (simp add: k_def)
      ultimately have "\<not> free_slot s (of_nat (unat j))" using S [unfolded None option.case] by metis
      then show False using j by simp
    qed
    then show ?thesis using None False by (simp add: alloc_thread_slot_def)
  next
    case (Some j)
    then have "free_slot s j" using S by simp
    then show ?thesis using Some False by (auto simp: alloc_thread_slot_def)
  qed
qed


section \<open>Joining the run queue\<close>

definition rq_only :: "'a sched_scheme \<Rightarrow> 'a sched_scheme \<Rightarrow> bool" where
  "rq_only s s' \<longleftrightarrow> (\<exists>n h. s' = s\<lparr>threads := (\<lambda>p. (threads s p)\<lparr>rq_next := n p\<rparr>), thread_head := h\<rparr>)"

lemma rq_onlyI: "s' = s\<lparr>threads := (\<lambda>p. (threads s p)\<lparr>rq_next := n p\<rparr>), thread_head := h\<rparr> \<Longrightarrow> rq_only s s'"
  unfolding rq_only_def by blast

lemma rq_only_upd: "rq_only s (upd_thread p (\<lambda>r. r\<lparr>rq_next := q\<rparr>) s)"
proof (rule rq_onlyI [where n = "\<lambda>x. if x = p then q else rq_next (threads s x)" and h = "thread_head s"])
  have "(threads s)(p := threads s p\<lparr>rq_next := q\<rparr>) = (\<lambda>x. threads s x\<lparr>rq_next := if x = p then q else rq_next (threads s x)\<rparr>)" by auto
  then show "upd_thread p (\<lambda>r. r\<lparr>rq_next := q\<rparr>) s =
      s\<lparr>threads := (\<lambda>x. threads s x\<lparr>rq_next := if x = p then q else rq_next (threads s x)\<rparr>), thread_head := thread_head s\<rparr>"
    by (simp add: upd_thread_def)
qed

lemma rq_only_head: "rq_only s (s\<lparr>thread_head := h\<rparr>)"
  by (rule rq_onlyI [where n = "\<lambda>x. rq_next (threads s x)" and h = h]) simp

lemma rq_only_trans: "rq_only s s' \<Longrightarrow> rq_only s' s'' \<Longrightarrow> rq_only s s''"
  unfolding rq_only_def by force

lemma runq_append_spec:
  assumes q: "runq s ts" and t: "t \<notin> set ts" "t \<noteq> 0"
  shows "\<exists>s'. runq_append t s = Some s' \<and> runq s' (ts @ [t]) \<and> rq_only s s'"
proof (cases ts rule: rev_cases)
  case Nil
  let ?s = "upd_thread t (\<lambda>r. r\<lparr>rq_next := t\<rparr>) (s\<lparr>thread_head := t\<rparr>)"
  have "runq_append t s = Some ?s" using q Nil by (simp add: runq_append_def runq_def)
  moreover have "runq ?s [t]" using t by (simp add: runq_def ring_def)
  ultimately show ?thesis using Nil rq_only_trans [OF rq_only_head rq_only_upd] by auto
next
  case (snoc xs a)
  have r: "ring (rq_nx s) (xs @ [a])" and h: "thread_head s = hd (xs @ [a])" "thread_head s \<noteq> 0" and nz: "0 \<notin> set (xs @ [a])"
    using q runq_ring [OF q] snoc by (auto simp: runq_def)
  have "(\<lambda>p. rq_next (threads s p) = thread_head s) = (\<lambda>x. rq_nx s x = Some (hd (xs @ [a])))" using h by auto
  then have wk: "walk_until (\<lambda>p. rq_next (threads s p) = thread_head s) (rq_nx s) (ptr (thread_head s)) = Some (Some a)"
    using walk_until_seg [of "rq_nx s" "Some (hd (xs @ [a]))" "xs @ [a]" "Some (hd (xs @ [a]))", OF _ ring_find_last [OF r]] r h
    by (simp add: ring_def)
  let ?s = "upd_thread t (\<lambda>r. r\<lparr>rq_next := hd (xs @ [a])\<rparr>) (upd_thread a (\<lambda>r. r\<lparr>rq_next := t\<rparr>) s)"
  have "runq_append t s = Some ?s" unfolding runq_append_def wk using h by simp
  moreover have "ring (rq_nx ?s) (xs @ [a, t])" using rq.ring_join [OF r, of t] t nz snoc by simp
  moreover have "hd (xs @ [a, t]) = hd (xs @ [a])" by (cases xs) simp_all
  ultimately show ?thesis
    using snoc h nz t rq_only_trans [OF rq_only_upd rq_only_upd] by (auto simp: runq_def)
qed

lemma rq_onlyD:
  assumes "rq_only s s'"
  shows "thread_current s' = thread_current s" "thread_sleep_head s' = thread_sleep_head s" "processes s' = processes s"
    "kstacks s' = kstacks s" "(threads s' u)\<lparr>rq_next := 0\<rparr> = (threads s u)\<lparr>rq_next := 0\<rparr>"
    "sleep_next (threads s' u) = sleep_next (threads s u)" "t_state (threads s' u) = t_state (threads s u)"
    "wake_tick (threads s' u) = wake_tick (threads s u)" "wait_next (threads s' u) = wait_next (threads s u)"
    "wait_owner (threads s' u) = wait_owner (threads s u)" "t_proc (threads s' u) = t_proc (threads s u)"
    "t_slot_inuse (threads s' u) = t_slot_inuse (threads s u)" "entry (threads s' u) = entry (threads s u)"
    "kstack_top (threads s' u) = kstack_top (threads s u)" "saved_esp (threads s' u) = saved_esp (threads s u)"
    "threadlist_next (threads s' u) = threadlist_next (threads s u)"
  using assms by (auto simp: rq_only_def)

text \<open>A state that agrees with \<open>s\<close> on the threads \<open>ts\<close> and on what the scheduler keeps.\<close>

definition agrees_on :: "u32 list \<Rightarrow> 'a sched_scheme \<Rightarrow> 'a sched_scheme \<Rightarrow> bool" where
  "agrees_on ts s s' \<longleftrightarrow> thread_head s' = thread_head s \<and> thread_current s' = thread_current s \<and>
     thread_sleep_head s' = thread_sleep_head s \<and> (\<forall>x. waiters (processes s' x) = waiters (processes s x)) \<and>
     (\<forall>u \<in> set ts. (threads s' u)\<lparr>threadlist_next := 0\<rparr> = (threads s u)\<lparr>threadlist_next := 0\<rparr>)"

lemma agrees_onD:
  assumes "agrees_on ts s s'" "u \<in> set ts"
  shows "rq_next (threads s' u) = rq_next (threads s u)" "sleep_next (threads s' u) = sleep_next (threads s u)"
    "t_state (threads s' u) = t_state (threads s u)"
    "wake_tick (threads s' u) = wake_tick (threads s u)" "wait_next (threads s' u) = wait_next (threads s u)"
    "wait_owner (threads s' u) = wait_owner (threads s u)" "t_proc (threads s' u) = t_proc (threads s u)"
    "t_slot_inuse (threads s' u) = t_slot_inuse (threads s u)"
proof -
  have e: "(threads s' u)\<lparr>threadlist_next := 0\<rparr> = (threads s u)\<lparr>threadlist_next := 0\<rparr>" using assms by (simp add: agrees_on_def)
  show "rq_next (threads s' u) = rq_next (threads s u)" using arg_cong [OF e, of rq_next] by simp
  show "sleep_next (threads s' u) = sleep_next (threads s u)" using arg_cong [OF e, of sleep_next] by simp
  show "t_state (threads s' u) = t_state (threads s u)" using arg_cong [OF e, of t_state] by simp
  show "wake_tick (threads s' u) = wake_tick (threads s u)" using arg_cong [OF e, of wake_tick] by simp
  show "wait_next (threads s' u) = wait_next (threads s u)" using arg_cong [OF e, of wait_next] by simp
  show "wait_owner (threads s' u) = wait_owner (threads s u)" using arg_cong [OF e, of wait_owner] by simp
  show "t_proc (threads s' u) = t_proc (threads s u)" using arg_cong [OF e, of t_proc] by simp
  show "t_slot_inuse (threads s' u) = t_slot_inuse (threads s u)" using arg_cong [OF e, of t_slot_inuse] by simp
qed

lemma agrees_on_queues:
  assumes "agrees_on ts s s'"
  shows "runq s ts \<Longrightarrow> runq s' ts" "set zs \<subseteq> set ts \<Longrightarrow> sleepq s zs \<Longrightarrow> sleepq s' zs"
    "set ws \<subseteq> set ts \<Longrightarrow> waitq s p ws \<Longrightarrow> waitq s' p ws"
proof -
  note D = agrees_onD [OF assms]
  have h: "thread_head s' = thread_head s" "thread_sleep_head s' = thread_sleep_head s" "waiters (processes s' p) = waiters (processes s p)"
    using assms by (simp_all add: agrees_on_def)
  have "seg (rq_nx s') x ts y = seg (rq_nx s) x ts y" for x y using D(1) by (intro seg_cong) simp
  then have "ring (rq_nx s') ts = ring (rq_nx s) ts" by (simp add: ring_def)
  then show "runq s ts \<Longrightarrow> runq s' ts" by (simp add: runq_def h)
  show "sleepq s' zs" if z: "set zs \<subseteq> set ts" "sleepq s zs"
  proof -
    have "list_at (sleep_nx s') x zs = list_at (sleep_nx s) x zs" for x using D(2) z(1) by (intro list_at_cong) auto
    moreover have "map (\<lambda>t. wake_tick (threads s' t)) zs = map (\<lambda>t. wake_tick (threads s t)) zs" using D(4) z(1) by (intro map_cong) auto
    ultimately show ?thesis using z(2) unfolding sleepq_def h by metis
  qed
  show "waitq s' p ws" if w: "set ws \<subseteq> set ts" "waitq s p ws"
  proof -
    have "list_at (wait_nx s') x ws = list_at (wait_nx s) x ws" for x using D(5) w(1) by (intro list_at_cong) auto
    then show ?thesis using w(2) by (simp add: waitq_def h)
  qed
qed

lemma sched_inv_agrees:
  assumes i: "sched_inv ts zs s" and a: "agrees_on ts s s'"
  shows "sched_inv ts zs s'"
proof -
  note I = sched_invD [OF i] and D = agrees_onD [OF a] and Q = agrees_on_queues [OF a]
  have zt: "set zs \<subseteq> set ts" using I(4) by auto
  have "{u \<in> set ts. t_state (threads s' u) = THREAD_SLEEPING} = {u \<in> set ts. t_state (threads s u) = THREAD_SLEEPING}"
    using D(3) by (intro Collect_cong) auto
  moreover have "\<exists>ws. waitq s' q ws \<and> set ws = {u \<in> set ts. t_state (threads s' u) = THREAD_BLOCKED \<and> t_proc (threads s' u) = q}"
    if q: "q \<in> (\<lambda>u. t_proc (threads s' u)) ` set ts" for q
  proof -
    obtain u where u: "u \<in> set ts" "t_proc (threads s u) = q" using q D(7) by auto
    obtain ws where ws: "waitq s q ws" "set ws = {u \<in> set ts. t_state (threads s u) = THREAD_BLOCKED \<and> t_proc (threads s u) = q}"
      using I(11) [OF u(1)] unfolding u(2) by blast
    moreover have "{u \<in> set ts. t_state (threads s' u) = THREAD_BLOCKED \<and> t_proc (threads s' u) = q} = set ws"
      unfolding ws(2) using D(3,7) by (intro Collect_cong) auto
    ultimately show ?thesis using Q(3) [of ws q] by blast
  qed
  then have "waiters_ok ts s'" unfolding waiters_ok_def using I(9) D(3,6,7) by simp
  moreover have "thread_current s' = thread_current s" using a by (simp add: agrees_on_def)
  ultimately show ?thesis
    unfolding sched_inv_def using I(2,4,6,7,8) Q(1) [OF I(1)] Q(2) [OF zt I(3)] D(3,7,8) by simp
qed

lemma sched_inv_add:
  assumes i: "sched_inv ts zs s" and a: "agrees_on ts s s'" and t: "t \<notin> set ts" "t \<noteq> 0"
    and n: "t_state (threads s' t) = THREAD_RUNNABLE" "t_slot_inuse (threads s' t)" "t_proc (threads s' t) = p" "p \<noteq> 0"
    and w: "(\<exists>u \<in> set ts. t_proc (threads s u) = p) \<or> waiters (processes s p) = 0"
  shows "\<exists>s''. runq_append t s' = Some s'' \<and> rq_only s' s'' \<and> sched_inv (ts @ [t]) zs s''"
proof -
  note I = sched_invD [OF i] and D = agrees_onD [OF a] and Q = agrees_on_queues [OF a]
  obtain s'' where s'': "runq_append t s' = Some s''" "runq s'' (ts @ [t])" "rq_only s' s''"
    using runq_append_spec [OF Q(1) [OF I(1)] t] by blast
  note R = rq_onlyD(1-4,6-16) [OF s''(3)]
  have zt: "set zs \<subseteq> set ts" using I(4) by auto
  have "sleepq s'' zs" using Q(2) [OF zt I(3)] by (simp add: sleepq_def R)
  moreover have "thread_current s'' = thread_current s" using a R(1) by (simp add: agrees_on_def)
  moreover have st: "t_state (threads s'' t) = THREAD_RUNNABLE" "\<And>u. u \<in> set ts \<Longrightarrow> t_state (threads s'' u) = t_state (threads s u)"
    "\<And>u. u \<in> set ts \<Longrightarrow> t_proc (threads s'' u) = t_proc (threads s u)" "t_proc (threads s'' t) = p"
    using n(1,3) D(3,7) by (simp_all add: R)
  have bl: "u \<in> set (ts @ [t]) \<and> t_state (threads s'' u) = S \<longleftrightarrow> u \<in> set ts \<and> t_state (threads s u) = S" if "S \<noteq> THREAD_RUNNABLE" for u S
    using st(1,2) t(1) that by (cases "u = t"; cases "u \<in> set ts") simp_all
  have "set zs = {u \<in> set (ts @ [t]). t_state (threads s'' u) = THREAD_SLEEPING}"
    by (rule trans [OF I(4)], rule Collect_cong, rule bl [symmetric]) simp
  moreover have "waiters_ok (ts @ [t]) s''"
  proof -
    have "\<exists>ws. waitq s'' q ws \<and> set ws = {u \<in> set (ts @ [t]). t_state (threads s'' u) = THREAD_BLOCKED \<and> t_proc (threads s'' u) = q}"
      if q: "q \<in> (\<lambda>u. t_proc (threads s'' u)) ` set (ts @ [t])" for q
    proof (cases "\<exists>u \<in> set ts. t_proc (threads s u) = q")
      case True
      then obtain u where u: "u \<in> set ts" "t_proc (threads s u) = q" by blast
      obtain ws where ws: "waitq s q ws" "set ws = {u \<in> set ts. t_state (threads s u) = THREAD_BLOCKED \<and> t_proc (threads s u) = q}"
        using I(11) [OF u(1)] unfolding u(2) by blast
      have "waitq s'' q ws" using Q(3) [OF _ ws(1)] ws(2) by (auto simp: waitq_def R)
      moreover have "set ws = {u \<in> set (ts @ [t]). t_state (threads s'' u) = THREAD_BLOCKED \<and> t_proc (threads s'' u) = q}"
      proof (rule trans [OF ws(2)], rule Collect_cong)
        fix u
        show "u \<in> set ts \<and> t_state (threads s u) = THREAD_BLOCKED \<and> t_proc (threads s u) = q \<longleftrightarrow>
            u \<in> set (ts @ [t]) \<and> t_state (threads s'' u) = THREAD_BLOCKED \<and> t_proc (threads s'' u) = q"
          using bl [of THREAD_BLOCKED u] st(3) [of u] by auto
      qed
      ultimately show ?thesis by blast
    next
      case False
      then have qp: "q = p" using q st(3,4) by auto
      then have "waiters (processes s'' p) = 0" using w False a by (simp add: R agrees_on_def)
      then have "waitq s'' q []" using qp by (simp add: waitq_def)
      moreover have "{u \<in> set (ts @ [t]). t_state (threads s'' u) = THREAD_BLOCKED \<and> t_proc (threads s'' u) = q} = set []"
        using False st by auto
      ultimately show ?thesis by metis
    qed
    moreover have "\<forall>u \<in> set (ts @ [t]). t_state (threads s'' u) = THREAD_BLOCKED \<longrightarrow> wait_owner (threads s'' u) = t_proc (threads s'' u)"
      using I(9) D(6) st by (auto simp: R(9))
    ultimately show ?thesis unfolding waiters_ok_def by blast
  qed
  moreover have "\<forall>u \<in> set (ts @ [t]). t_slot_inuse (threads s'' u) \<and> t_proc (threads s'' u) \<noteq> 0" using I(6,7) D(8) n(2,4) st(3,4) by (auto simp: R(11))
  moreover have "\<forall>u \<in> set (ts @ [t]). t_state (threads s'' u) = THREAD_RUNNING \<longrightarrow> u = thread_current s" using I(8) st(1,2) by auto
  ultimately have "sched_inv (ts @ [t]) zs s''" unfolding sched_inv_def using s''(2) I(2) by auto
  then show ?thesis using s''(1,3) by blast
qed


section \<open>Starting a thread\<close>

text \<open>The threads of a process.\<close>

definition threads_of :: "'a sched_scheme \<Rightarrow> u32 \<Rightarrow> u32 list \<Rightarrow> bool" where
  "threads_of s p us \<longleftrightarrow> 0 \<notin> set us \<and> (main_thread (processes s p) = 0 \<longleftrightarrow> us = []) \<and>
     list_at (tl_nx s) (ptr (thread_list (processes s p))) us \<and> (\<forall>u \<in> set us. t_slot_inuse (threads s u))"

lemma threadlist_append_spec:
  assumes l: "threads_of s p us" and t: "t \<notin> set us" "t \<noteq> 0"
  shows "\<exists>n P. threadlist_append p t s = Some (s\<lparr>threads := (\<lambda>u. (threads s u)\<lparr>threadlist_next := n u\<rparr>), processes := P\<rparr>) \<and>
    (\<forall>x. waiters (P x) = waiters (processes s x) \<and> live_thread_count (P x) = live_thread_count (processes s x)) \<and>
    list_at (\<lambda>u. ptr (if u = t then 0 else n u)) (ptr (thread_list (P p))) (us @ [t]) \<and> main_thread (P p) \<noteq> 0"
proof (cases us rule: rev_cases)
  case Nil
  let ?P = "(processes s)(p := (processes s p)\<lparr>main_thread := t, thread_list := t\<rparr>)"
  have "threadlist_append p t s = Some (upd_process p (\<lambda>p. p\<lparr>main_thread := t, thread_list := t\<rparr>) s)"
    using l Nil by (simp add: threadlist_append_def threads_of_def)
  also have "\<dots> = Some (s\<lparr>threads := (\<lambda>u. (threads s u)\<lparr>threadlist_next := threadlist_next (threads s u)\<rparr>), processes := ?P\<rparr>)"
    by (simp add: upd_process_def)
  finally show ?thesis
    using Nil t by (intro exI [of _ "\<lambda>u. threadlist_next (threads s u)"] exI [of _ ?P]) simp
next
  case (snoc xs a)
  have la: "list_at (tl_nx s) (ptr (thread_list (processes s p))) (xs @ [a])" and m: "main_thread (processes s p) \<noteq> 0"
    using l snoc by (simp_all add: threads_of_def)
  have stop: "(\<lambda>x. threadlist_next (threads s x) = 0) = (\<lambda>x. tl_nx s x = None)" by auto
  let ?n = "\<lambda>u. if u = a then t else threadlist_next (threads s u)"
  have wk: "walk_until (\<lambda>x. threadlist_next (threads s x) = 0) (tl_nx s) (ptr (thread_list (processes s p))) = Some (Some a)"
    unfolding stop using walk_until_find [OF la] list_at_find_last [OF la] by simp
  have "threadlist_append p t s = Some (upd_thread a (\<lambda>r. r\<lparr>threadlist_next := t\<rparr>) s)"
    unfolding threadlist_append_def wk using m by simp
  also have "\<dots> = Some (s\<lparr>threads := (\<lambda>u. (threads s u)\<lparr>threadlist_next := ?n u\<rparr>), processes := processes s\<rparr>)"
  proof -
    have "(threads s)(a := threads s a\<lparr>threadlist_next := t\<rparr>) = (\<lambda>u. (threads s u)\<lparr>threadlist_next := ?n u\<rparr>)" by auto
    then show ?thesis by (simp add: upd_thread_def)
  qed
  finally have r: "threadlist_append p t s = \<dots>" .
  have "(\<lambda>u. ptr (if u = t then 0 else ?n u)) = (tl_nx s)(a := Some t, t := None)" using t snoc by (auto simp: fun_eq_iff)
  then have "list_at (\<lambda>u. ptr (if u = t then 0 else ?n u)) (ptr (thread_list (processes s p))) (us @ [t])"
    using list_at_append [OF la, of t] t snoc by simp
  then show ?thesis using r m by (intro exI [of _ ?n] exI [of _ "processes s"]) simp
qed

text \<open>The frame a new thread starts from: kernel mode, interrupts enabled, at \<open>start\<close>.\<close>

definition initial_frame :: "u32 \<Rightarrow> trap_frame" where
  "initial_frame start = \<lparr>edi = 0, esi = 0, ebp = 0, esp_dummy = 0, ebx = 0, edx = 0, ecx = 0, eax = 0,
     ds = GDT_SEL_KDATA, es = GDT_SEL_KDATA, fs = GDT_SEL_KDATA, gs = GDT_SEL_KDATA, cr2 = 0, vector = 0, error = 0,
     eip = start, cs = GDT_SEL_KCODE, eflags = 0x202\<rparr>"

lemma push_words_other:
  "\<forall>i \<in> {1..length ws}. a \<noteq> sp - 4 * of_nat i \<Longrightarrow> snd (push_words ws sp k) a = k a"
proof (induction ws arbitrary: sp k)
  case (Cons w ws)
  have "a \<noteq> sp - 4" using Cons.prems by (auto dest: bspec [of _ _ 1])
  moreover have "\<forall>i \<in> {1..length ws}. a \<noteq> (sp - 4) - 4 * of_nat i"
  proof
    fix i assume "i \<in> {1..length ws}"
    then have "a \<noteq> sp - 4 * of_nat (Suc i)" using Cons.prems by (auto dest: bspec [of _ _ "Suc i"])
    then show "a \<noteq> (sp - 4) - 4 * of_nat i" by (simp add: algebra_simps)
  qed
  ultimately show ?case using Cons.IH by simp
qed simp

lemma build_initial_frame_spec:
  "\<exists>k. build_initial_frame t start s = upd_thread t (\<lambda>r. r\<lparr>saved_esp := kstack_top (threads s t) - 80\<rparr>) (s\<lparr>kstacks := k\<rparr>) \<and>
     load_frame k (kstack_top (threads s t) - 80) = initial_frame start \<and>
     (\<forall>a. (\<forall>i \<in> {1..20}. a \<noteq> kstack_top (threads s t) - 4 * of_nat i) \<longrightarrow> k a = kstacks s a)"
proof -
  let ?tos = "kstack_top (threads s t)"
  let ?ws = "[0, 0, 0x202, GDT_SEL_KCODE, start, 0, 0, 0, GDT_SEL_KDATA, GDT_SEL_KDATA, GDT_SEL_KDATA, GDT_SEL_KDATA, 0, 0, 0, 0, 0, 0, 0, 0]"
  obtain sp k where p: "push_words ?ws ?tos (kstacks s) = (sp, k)" by (cases "push_words ?ws ?tos (kstacks s)")
  have "sp = ?tos - 80" "load_frame k (?tos - 80) = initial_frame start"
    using p by (simp_all add: load_frame_def initial_frame_def) auto
  moreover have "k a = kstacks s a" if a: "\<forall>i \<in> {1..20}. a \<noteq> ?tos - 4 * of_nat i" for a
    using push_words_other [of ?ws a ?tos "kstacks s"] p a by (simp del: push_words.simps)
  moreover have "build_initial_frame t start s = upd_thread t (\<lambda>r. r\<lparr>saved_esp := sp\<rparr>) (s\<lparr>kstacks := k\<rparr>)"
    by (simp add: build_initial_frame_def p del: push_words.simps)
  ultimately show ?thesis by blast
qed

lemma agrees_on_new:
  assumes "t \<notin> set ts" "\<And>u. u \<noteq> t \<Longrightarrow> threads s' u = (threads s u)\<lparr>threadlist_next := n u\<rparr>"
    "thread_head s' = thread_head s" "thread_current s' = thread_current s" "thread_sleep_head s' = thread_sleep_head s"
    "\<And>x. waiters (processes s' x) = waiters (processes s x)"
  shows "agrees_on ts s s'"
proof -
  have "(threads s' u)\<lparr>threadlist_next := 0\<rparr> = (threads s u)\<lparr>threadlist_next := 0\<rparr>" if "u \<in> set ts" for u
  proof -
    have "u \<noteq> t" using that assms(1) by auto
    then show ?thesis using assms(2) by simp
  qed
  then show ?thesis using assms(3-6) by (simp add: agrees_on_def)
qed

text \<open>The state in which \<^verbatim>\<open>sched_add_thread\<close> puts the new thread into the run queue.\<close>

lemma sched_add_thread_eq:
  assumes "p \<noteq> 0" "alloc_thread_slot s = ((t, i), s\<lparr>next_tid := m\<rparr>)" "t \<noteq> 0" "threads_of s p us" "t \<notin> set us"
    "pool_get_kstack i s = Some (b, tos)"
  obtains s5 n where "sched_add_thread en p s = map_option (Pair t) (runq_append t s5)"
    "\<forall>u. u \<noteq> t \<longrightarrow> threads s5 u = (threads s u)\<lparr>threadlist_next := n u\<rparr>"
    "threads s5 t = (threads s t)\<lparr>t_proc := p, t_slot_inuse := True, t_slot_id := i,
        t_state := THREAD_RUNNABLE, wake_tick := 0, t_exit_code := 0, entry := en, wait_kind := WAIT_NONE, wait_target_pid := 0,
        wait_owner := 0, wait_next := 0, rq_next := 0, threadlist_next := 0, kstack_base := b, kstack_top := tos, saved_esp := tos - 80\<rparr>"
    "thread_head s5 = thread_head s" "thread_current s5 = thread_current s" "thread_sleep_head s5 = thread_sleep_head s"
    "\<forall>x. waiters (processes s5 x) = waiters (processes s x)"
    "live_thread_count (processes s5 p) = live_thread_count (processes s p) + 1" "main_thread (processes s5 p) \<noteq> 0"
    "list_at (tl_nx s5) (ptr (thread_list (processes s5 p))) (us @ [t])"
    "load_frame (kstacks s5) (tos - 80) = initial_frame (thread_bootstrap s)"
    "\<forall>a. (\<forall>k \<in> {1..20}. a \<noteq> tos - 4 * of_nat k) \<longrightarrow> kstacks s5 a = kstacks s a"
proof -
  let ?s0 = "s\<lparr>next_tid := m\<rparr>"
  have "threads_of ?s0 p us" using assms(4) by (simp add: threads_of_def)
  from threadlist_append_spec [OF this assms(5,3)] obtain n P where
    tl: "threadlist_append p t ?s0 = Some (?s0\<lparr>threads := (\<lambda>u. (threads s u)\<lparr>threadlist_next := n u\<rparr>), processes := P\<rparr>)"
    "\<forall>x. waiters (P x) = waiters (processes s x) \<and> live_thread_count (P x) = live_thread_count (processes s x)"
    "list_at (\<lambda>u. ptr (if u = t then 0 else n u)) (ptr (thread_list (P p))) (us @ [t])" "main_thread (P p) \<noteq> 0"
    by auto
  define s1 where "s1 = ?s0\<lparr>threads := (\<lambda>u. (threads s u)\<lparr>threadlist_next := n u\<rparr>), processes := P\<rparr>"
  define s3 where "s3 = upd_thread t (\<lambda>r. r\<lparr>t_proc := p, t_slot_inuse := True, t_slot_id := i,
        t_state := THREAD_RUNNABLE, wake_tick := 0, t_exit_code := 0, entry := en, wait_kind := WAIT_NONE, wait_target_pid := 0,
        wait_owner := 0, wait_next := 0, rq_next := 0, threadlist_next := 0\<rparr>)
      (upd_process p (\<lambda>p. p\<lparr>live_thread_count := live_thread_count p + 1\<rparr>) s1)"
  define s4 where "s4 = upd_thread t (\<lambda>r. r\<lparr>kstack_base := b, kstack_top := tos\<rparr>) s3"
  have ks: "pool_get_kstack i s3 = Some (b, tos)"
    using assms(6) by (simp add: pool_get_kstack_def s3_def s1_def upd_thread_def upd_process_def split: if_splits)
  have t4: "threads s4 u = (if u = t then (threads s t)\<lparr>t_proc := p, t_slot_inuse := True, t_slot_id := i,
        t_state := THREAD_RUNNABLE, wake_tick := 0, t_exit_code := 0, entry := en, wait_kind := WAIT_NONE, wait_target_pid := 0,
        wait_owner := 0, wait_next := 0, rq_next := 0, threadlist_next := 0, kstack_base := b, kstack_top := tos\<rparr>
      else (threads s u)\<lparr>threadlist_next := n u\<rparr>)" for u
    by (simp add: s4_def s3_def s1_def threads_upd)
  have f4: "thread_head s4 = thread_head s" "thread_current s4 = thread_current s" "thread_sleep_head s4 = thread_sleep_head s"
    "kstacks s4 = kstacks s" "thread_bootstrap s4 = thread_bootstrap s"
    "processes s4 x = (if x = p then (P p)\<lparr>live_thread_count := live_thread_count (P p) + 1\<rparr> else P x)" for x
    by (simp_all add: s4_def s3_def s1_def processes_upd)
  have tp: "kstack_top (threads s4 t) = tos" by (simp add: t4)
  obtain k where k: "build_initial_frame t (thread_bootstrap s4) s4 = upd_thread t (\<lambda>r. r\<lparr>saved_esp := tos - 80\<rparr>) (s4\<lparr>kstacks := k\<rparr>)"
    "load_frame k (tos - 80) = initial_frame (thread_bootstrap s)"
    "\<forall>a. (\<forall>j \<in> {1..20}. a \<noteq> tos - 4 * of_nat j) \<longrightarrow> k a = kstacks s a"
    using build_initial_frame_spec [of t "thread_bootstrap s4" s4] unfolding tp f4 by blast
  let ?s5 = "upd_thread t (\<lambda>r. r\<lparr>saved_esp := tos - 80\<rparr>) (s4\<lparr>kstacks := k\<rparr>)"
  have bs: "thread_bootstrap s4 = thread_bootstrap s1" by (simp add: s4_def s3_def)
  have "sched_add_thread en p s = map_option (Pair t) (runq_append t ?s5)"
    using assms(1-3) tl(1) ks
    by (simp add: sched_add_thread_def Let_def k(1) [unfolded bs] map_option_case flip: s1_def s3_def s4_def split: option.split)
  moreover have "list_at (tl_nx ?s5) (ptr (thread_list (processes ?s5 p))) (us @ [t])"
    using tl(3) by (simp add: t4 f4 threads_upd if_distrib cong: if_cong)
  ultimately show thesis
    using k(2,3) tl(2,4) by (intro that [of ?s5 n]) (simp_all add: t4 f4 threads_upd)
qed

text \<open>
  (C0) Adding a thread. Without a free slot nothing happens. Otherwise a free slot becomes a thread that can run, the last of
  the run queue and of its process; it has the kernel stack of its slot, on which lies the frame it starts from, and no
  other word of any stack changes. The scheduler's invariant holds with the new thread.
\<close>

theorem sched_add_thread_correct:
  assumes i: "sched_inv ts zs s" and p: "p \<noteq> 0" "threads_of s p us"
    and w: "(\<exists>u \<in> set ts. t_proc (threads s u) = p) \<or> waiters (processes s p) = 0"
    and pool: "\<forall>j. free_slot s j \<longrightarrow> thread_at j s \<noteq> 0" "thread_pool_count s \<le> g_kstack_pool_slot_count s"
      "unat (kstack_pool_base s) + unat (g_kstack_pool_slot_count s) * 12288 < 2 ^ 32"
  shows "if \<exists>j. free_slot s j
    then \<exists>j b tos s'. free_slot s j \<and> sched_add_thread en p s = Some (thread_at j s, s') \<and>
      sched_inv (ts @ [thread_at j s]) zs s' \<and> threads_of s' p (us @ [thread_at j s]) \<and>
      live_thread_count (processes s' p) = live_thread_count (processes s p) + 1 \<and>
      (let t = threads s' (thread_at j s)
       in t_state t = THREAD_RUNNABLE \<and> t_proc t = p \<and> entry t = en \<and> kstack_top t = tos \<and> saved_esp t = tos - 80) \<and>
      pool_get_kstack j s = Some (b, tos) \<and> unat tos = unat b + 8192 \<and>
      load_frame (kstacks s') (tos - 80) = initial_frame (thread_bootstrap s) \<and>
      (\<forall>a. (\<forall>k \<in> {1..20}. a \<noteq> tos - 4 * of_nat k) \<longrightarrow> kstacks s' a = kstacks s a)
    else sched_add_thread en p s = Some (0, s)"
proof (cases "\<exists>j. free_slot s j")
  case False
  then have "alloc_thread_slot s = ((0, 0), s)" using alloc_thread_slot_spec [of s] by simp
  then have "sched_add_thread en p s = Some (0, s)" using p(1) by (simp add: sched_add_thread_def)
  then show ?thesis using False by simp
next
  case True
  then obtain j m where j: "alloc_thread_slot s = ((thread_at j s, j), s\<lparr>next_tid := m\<rparr>)" "free_slot s j"
    using alloc_thread_slot_spec [of s] by auto
  let ?t = "thread_at j s"
  have t: "?t \<noteq> 0" "?t \<notin> set ts" "?t \<notin> set us"
    using pool(1) j(2) sched_invD(6) [OF i] p(2) by (auto simp: free_slot_def threads_of_def)
  have "j < g_kstack_pool_slot_count s" using j(2) pool(2) by (auto simp: free_slot_def)
  then obtain b tos where ks: "pool_get_kstack j s = Some (b, tos)" "unat tos = unat b + 8192"
    using pool_get_kstack_nat [OF pool(3)] by blast
  obtain s5 n where
    add: "sched_add_thread en p s = map_option (Pair ?t) (runq_append ?t s5)" and
    other: "\<forall>u. u \<noteq> ?t \<longrightarrow> threads s5 u = (threads s u)\<lparr>threadlist_next := n u\<rparr>" and
    new: "threads s5 ?t = (threads s ?t)\<lparr>t_proc := p, t_slot_inuse := True, t_slot_id := j,
        t_state := THREAD_RUNNABLE, wake_tick := 0, t_exit_code := 0, entry := en, wait_kind := WAIT_NONE, wait_target_pid := 0,
        wait_owner := 0, wait_next := 0, rq_next := 0, threadlist_next := 0, kstack_base := b, kstack_top := tos, saved_esp := tos - 80\<rparr>" and
    hd: "thread_head s5 = thread_head s" "thread_current s5 = thread_current s" "thread_sleep_head s5 = thread_sleep_head s"
      "\<forall>x. waiters (processes s5 x) = waiters (processes s x)" and
    pr: "live_thread_count (processes s5 p) = live_thread_count (processes s p) + 1" "main_thread (processes s5 p) \<noteq> 0"
      "list_at (tl_nx s5) (ptr (thread_list (processes s5 p))) (us @ [?t])" and
    st: "load_frame (kstacks s5) (tos - 80) = initial_frame (thread_bootstrap s)"
      "\<forall>a. (\<forall>k \<in> {1..20}. a \<noteq> tos - 4 * of_nat k) \<longrightarrow> kstacks s5 a = kstacks s a"
    by (rule sched_add_thread_eq [OF p(1) j(1) t(1) p(2) t(3) ks(1)])
  have ag: "agrees_on ts s s5" using agrees_on_new [OF t(2), where s' = s5 and s = s and n = n] other hd by simp
  obtain s' where s': "runq_append ?t s5 = Some s'" "rq_only s5 s'" "sched_inv (ts @ [?t]) zs s'"
    using sched_inv_add [OF i ag t(2,1) _ _ _ p(1) w] new by auto
  note R = rq_onlyD [OF s'(2)]
  have "t_slot_inuse (threads s' u)" if "u \<in> set (us @ [?t])" for u
    using that p(2) other new by (cases "u = ?t") (auto simp: R(12) threads_of_def)
  then have "threads_of s' p (us @ [?t])"
    using p(2) t(1) pr(2,3) unfolding threads_of_def R(3,16) by simp
  moreover have "sched_add_thread en p s = Some (?t, s')" using add s'(1) by simp
  ultimately show ?thesis
    using True j(2) s'(3) pr(1) ks st new by (simp only: if_True) (intro exI [of _ j] exI [of _ b] exI [of _ tos] exI [of _ s'], simp add: R Let_def)
qed

text \<open>The example with a free first slot.\<close>

definition ex_slot :: sched where
  "ex_slot = ex_sched\<lparr>threads := (threads ex_sched)(0xC1000000 := ex_thread\<lparr>t_slot_inuse := False\<rparr>)\<rparr>"

theorem sched_add_thread_correct_witness:
  "\<exists>s' tos. sched_add_thread 0x500 0x8800 ex_slot = Some (0xC1000000, s') \<and>
     sched_inv [0x1000, 0x2000, 0x3000, 0xC1000000] [0x3000] s' \<and>
     load_frame (kstacks s') (tos - 80) = initial_frame (thread_bootstrap ex_slot) \<and> kstack_top (threads s' 0xC1000000) = tos"
proof -
  have "agrees_on [0x1000, 0x2000, 0x3000] ex_sched ex_slot" by (simp add: agrees_on_def ex_slot_def)
  then have i: "sched_inv [0x1000, 0x2000, 0x3000] [0x3000] ex_slot" by (rule sched_inv_agrees [OF ex_sched_inv])
  have f: "thread_pool ex_slot = 0xC1000000" "thread_pool_count ex_slot = 2" "g_kstack_pool_slot_count ex_slot = 2"
    "kstack_pool_base ex_slot = 0xC1020000" "processes ex_slot = (\<lambda>_. ex_process)"
    by (simp_all add: ex_slot_def ex_sched_def ex_trap_def ex_pool_def files.defs pool.defs trap.defs sched.defs)
  have u: "t_slot_inuse (threads ex_slot t) \<longleftrightarrow> t \<noteq> 0xC1000000" for t by (simp add: ex_slot_def ex_threads_def ex_thread_def)
  have fs: "free_slot ex_slot j \<longleftrightarrow> j = 0" for j
  proof -
    have "j < 2 \<longleftrightarrow> j = 0 \<or> j = 1" by (auto simp: word_less_nat_alt u32_eq_iff)
    then show ?thesis by (auto simp: free_slot_def thread_at_def f u SIZEOF_THREAD_def)
  qed
  have "threads_of ex_slot 0x8800 []" by (simp add: threads_of_def f ex_process_def)
  from sched_add_thread_correct [OF i _ this, of "0x500"] show ?thesis
    by (auto simp: fs f thread_at_def ex_process_def Let_def)
qed

end
