(* ===== verification/Spec2Isabelle.thy ===== *)
theory Spec2Isabelle
  imports Boot Process_Life Thread_Start
begin

text \<open>Header.\<close>

section \<open>Dispatch of system calls\<close>

lemma store_eax: "store_frame ((load_frame k a)\<lparr>eax := v\<rparr>) a k = k(a + 28 := v)"
  by (simp add: store_frame_def frame_words_def load_frame_def add.assoc fun_eq_iff)

text \<open>The numbers of the calls.\<close>

definition syscall_of :: "u32 \<Rightarrow> syscall option" where
  "syscall_of nr = map_of [(1, Sys_exit), (2, Sys_fork), (4, Sys_write), (7, Sys_waitpid), (11, Sys_execve), (158, Sys_yield)] nr"

lemma syscall_init_table:
  assumes "syscall_table s = replicate (unat SYSCALL_MAX) None"
  shows "(if nr \<ge> SYSCALL_MAX then None else syscall_table (syscall_init s) ! unat nr) = syscall_of nr"
proof (cases "nr \<ge> SYSCALL_MAX")
  case True
  then have "nr \<notin> {1, 2, 4, 7, 11, 158}" by (auto simp: SYSCALL_MAX_def word_le_nat_alt)
  then show ?thesis using True by (simp add: syscall_of_def)
next
  case False
  then have n: "unat nr < 512" by (simp add: SYSCALL_MAX_def word_le_nat_alt)
  have e: "nr = 1 \<longleftrightarrow> unat nr = 1" "nr = 2 \<longleftrightarrow> unat nr = 2" "nr = 4 \<longleftrightarrow> unat nr = 4" "nr = 7 \<longleftrightarrow> unat nr = 7"
    "nr = 11 \<longleftrightarrow> unat nr = 11" "nr = 158 \<longleftrightarrow> unat nr = 158" by (simp_all add: u32_eq_iff)
  show ?thesis
    using False n assms by (simp add: syscall_init_def Let_def isr_register_def syscall_of_def nth_list_update e SYSCALL_MAX_def)
qed

text \<open>
  (C0) Dispatch, with the table as \<^verbatim>\<open>syscall_init\<close> sets it up. A number that is no call, also one beyond the table, is
  answered with \<^verbatim>\<open>-ENOSYS\<close> in \<^verbatim>\<open>eax\<close>, and no other word and no other part of the state changes. A number of a call runs that
  call, and its result, if it returns one, is all that is stored.
\<close>

theorem syscall_dispatch:
  assumes "syscall_table s = replicate (unat SYSCALL_MAX) None"
  shows "syscall_handler env tf (syscall_init s) =
    (case syscall_of (eax (frame tf s)) of
       None \<Rightarrow> Some ((syscall_init s)\<lparr>kstacks := (kstacks s)(tf + 28 := of_int (- ENOSYS))\<rparr>)
     | Some c \<Rightarrow> map_option (\<lambda>(r, s'). case r of None \<Rightarrow> s' | Some v \<Rightarrow> s'\<lparr>kstacks := (kstacks s')(tf + 28 := of_int v)\<rparr>)
                  (call_syscall env c tf (syscall_init s)))"
proof -
  let ?s = "syscall_init s" and ?nr = "eax (frame tf s)"
  have k: "kstacks ?s = kstacks s" "frame tf ?s = frame tf s" by (simp_all add: syscall_init_def Let_def isr_register_def frame_def)
  have u: "upd_frame tf (\<lambda>f. f\<lparr>eax := v\<rparr>) s' = s'\<lparr>kstacks := (kstacks s')(tf + 28 := v)\<rparr>" for v and s' :: "'b syscalls_scheme"
    by (simp add: upd_frame_def frame_def store_eax)
  show ?thesis
  proof (cases "syscall_of ?nr")
    case None
    then have "?nr \<ge> SYSCALL_MAX \<or> syscall_table ?s ! unat ?nr = None"
      using syscall_init_table [OF assms, of ?nr] by (auto split: if_splits)
    then show ?thesis using None k by (simp add: syscall_handler_def Let_def u)
  next
    case (Some c)
    then have "\<not> ?nr \<ge> SYSCALL_MAX" "syscall_table ?s ! unat ?nr = Some c"
      using syscall_init_table [OF assms, of ?nr] by (auto split: if_splits)
    then show ?thesis using Some k
      by (auto simp: syscall_handler_def Let_def u map_option_case split: option.split bind_splits)
  qed
qed

text \<open>A call of number 3, which does not exist.\<close>

definition ex_syscalls :: syscalls where
  "ex_syscalls = sched.extend ex_sched (syscalls.fields (replicate 512 None))"

theorem syscall_dispatch_witness:
  "\<forall>env. \<exists>s'. syscall_handler env 0x2000 (syscall_init (ex_syscalls\<lparr>kstacks := (\<lambda>_. 3)\<rparr>)) = Some s' \<and>
     kstacks s' 0x201C = of_int (- ENOSYS) \<and> kstacks s' 0x2018 = 3"
proof
  fix env
  have "syscall_table (ex_syscalls\<lparr>kstacks := (\<lambda>_. 3)\<rparr>) = replicate (unat SYSCALL_MAX) None"
    by (simp add: ex_syscalls_def sched.defs syscalls.defs SYSCALL_MAX_def)
  moreover have "eax (frame 0x2000 (ex_syscalls\<lparr>kstacks := (\<lambda>_. 3)\<rparr>)) = 3" by (simp add: frame_def load_frame_def)
  ultimately show "\<exists>s'. syscall_handler env 0x2000 (syscall_init (ex_syscalls\<lparr>kstacks := (\<lambda>_. 3)\<rparr>)) = Some s' \<and>
     kstacks s' 0x201C = of_int (- ENOSYS) \<and> kstacks s' 0x2018 = 3"
    using syscall_dispatch [of "ex_syscalls\<lparr>kstacks := (\<lambda>_. 3)\<rparr>" env "0x2000"] by (simp add: syscall_of_def)
qed

end
